(* ===== verification/Go_Prelude.thy ===== *)
theory Go_Prelude
  imports Main "HOL-Library.Word"
begin

unbundle bit_operations_syntax

text \<open>
  Shared vocabulary of the development: the outcomes of a Go call, the byte buffers that the
  image composers mutate, the little and big endian encoders of package encoding/binary, and the
  generic lemmas on lists, words and buffers that the component theories use.

  A Go \<open>string\<close> and a Go \<open>[]byte\<close> holding text are both byte sequences, modelled as
  \<^typ>\<open>string\<close> (a list of 8-bit characters); binary images are lists of \<open>8 word\<close>.
  An operation that may fail returns an \<open>outcome\<close>: \<open>Panic\<close> for a run-time panic (an index or
  slice out of range), \<open>Err\<close> for a returned error, \<open>Ok\<close> for a result.
\<close>

named_theorems buffer_simps
named_theorems outcome_simps

type_synonym byte = "8 word"
type_synonym u16 = "16 word"
type_synonym u32 = "32 word"
type_synonym bytes = "byte list"

section \<open>Outcomes\<close>

datatype 'a outcome = Panic | Err string | Ok 'a

primrec obind :: "'a outcome \<Rightarrow> ('a \<Rightarrow> 'b outcome) \<Rightarrow> 'b outcome" where
  "obind Panic f = Panic"
| "obind (Err e) f = Err e"
| "obind (Ok x) f = f x"

text \<open>A statement that mutates a buffer, and the sequence of such statements on any state.\<close>

type_synonym stmt = "bytes \<Rightarrow> bytes outcome"

primrec run :: "('s \<Rightarrow> 's outcome) list \<Rightarrow> 's \<Rightarrow> 's outcome" where
  "run [] b = Ok b"
| "run (c # cs) b = obind (c b) (run cs)"

section \<open>Buffers\<close>

text \<open>
  \<open>rd off n b\<close> reads \<open>n\<close> bytes at \<open>off\<close>; \<open>wr off s b\<close> overwrites the bytes at \<open>off\<close> with \<open>s\<close>,
  truncated at the end of the buffer: a buffer never changes its length. The statements below
  check the range first, as the Go run time does.
\<close>

definition rd :: "nat \<Rightarrow> nat \<Rightarrow> 'a list \<Rightarrow> 'a list" where
  "rd off n b = take n (drop off b)"

definition wr :: "nat \<Rightarrow> 'a list \<Rightarrow> 'a list \<Rightarrow> 'a list" where
  "wr off s b = take (length b) (take off b @ s @ drop (off + length s) b)"

text \<open>\<open>b[off] = v\<close> and \<open>PutUint\<close> at \<open>b[off:]\<close>: all bytes must fit, else the run time panics.\<close>

definition put :: "nat \<Rightarrow> bytes \<Rightarrow> stmt" where
  "put off s b = (if off + length s \<le> length b then Ok (wr off s b) else Panic)"

text \<open>\<open>copy(b[off:], s)\<close>: slicing panics past the end; \<open>copy\<close> itself truncates.\<close>

definition copyTo :: "nat \<Rightarrow> bytes \<Rightarrow> stmt" where
  "copyTo off s b =
     (if off \<le> length b then Ok (wr off s b) else Panic)"

text \<open>
  Statements on the sub-slice \<open>b[lo:hi]\<close>, which aliases \<open>b\<close>: the statement sees exactly that
  window and its writes are visible in \<open>b\<close>.
\<close>

definition window :: "nat \<Rightarrow> nat \<Rightarrow> stmt \<Rightarrow> stmt" where
  "window lo hi c b =
     (if lo \<le> hi \<and> hi \<le> length b
      then obind (c (rd lo (hi - lo) b)) (\<lambda>s. Ok (wr lo s b)) else Panic)"

text \<open>Text to bytes: \<open>[]byte(s)\<close>.\<close>

definition bytes_of :: "string \<Rightarrow> bytes" where
  "bytes_of s = map of_char s"

text \<open>The decimal rendering \<open>%d\<close> of a non-negative integer.\<close>

fun show_nat :: "nat \<Rightarrow> string" where
  "show_nat n = (if n < 10 then [char_of (48 + n)] else show_nat (n div 10) @ [char_of (48 + n mod 10)])"

declare show_nat.simps [simp del]

section \<open>Package encoding/binary\<close>

definition le16 :: "u16 \<Rightarrow> bytes" where
  "le16 v = [ucast v, ucast (drop_bit 8 v)]"

definition be16 :: "u16 \<Rightarrow> bytes" where
  "be16 v = rev (le16 v)"

definition le32 :: "u32 \<Rightarrow> bytes" where
  "le32 v = [ucast v, ucast (drop_bit 8 v), ucast (drop_bit 16 v), ucast (drop_bit 24 v)]"

definition be32 :: "u32 \<Rightarrow> bytes" where
  "be32 v = rev (le32 v)"

text \<open>\<open>binary.LittleEndian.Uint16/Uint32\<close> on a slice long enough.\<close>

definition of_le16 :: "bytes \<Rightarrow> u16" where
  "of_le16 b = ucast (b ! 0) OR push_bit 8 (ucast (b ! 1))"

definition of_le32 :: "bytes \<Rightarrow> u32" where
  "of_le32 b = ucast (b ! 0) OR push_bit 8 (ucast (b ! 1)) OR push_bit 16 (ucast (b ! 2))
     OR push_bit 24 (ucast (b ! 3))"

section \<open>Lemmas on outcomes\<close>

lemma obind_Ok_iff [outcome_simps]:
  "obind r f = Ok y \<longleftrightarrow> (\<exists>x. r = Ok x \<and> f x = Ok y)"
  by (cases r) auto

lemma run_append [outcome_simps]: "run (cs @ ds) b = obind (run cs b) (run ds)"
proof (induction cs arbitrary: b)
  case (Cons c cs)
  then show ?case by (cases "c b") auto
qed simp

lemma obind_Ok_right [simp]: "obind r Ok = r"
  by (cases r) auto

lemma obind_assoc [outcome_simps]: "obind (obind r f) g = obind r (\<lambda>x. obind (f x) g)"
  by (cases r) auto

lemma run_Nil [simp]: "run [] = Ok"
  by (rule ext) simp

lemma run_single [simp]: "run [c] = c"
  by (rule ext) simp

lemma run_flatten: "run (as @ [run bs, run cs]) = run (as @ bs @ cs)"
proof -
  have "run [run bs, run cs] = run (bs @ cs)" by (rule ext) (simp add: run_append)
  then show ?thesis by (intro ext) (simp add: run_append del: run.simps)
qed

section \<open>An interface: arrays of cells\<close>

text \<open>
  A table of numbered cells: \<open>set\<close> stores a value in a cell that the table has, \<open>get\<close> reads it
  back (up to the part \<open>norm\<close> of the value the cell keeps), and no other cell changes.
\<close>

locale cell_array =
  fixes get :: "'t \<Rightarrow> nat \<Rightarrow> 'v"
    and set :: "nat \<Rightarrow> 'v \<Rightarrow> 't \<Rightarrow> 't outcome"
    and has :: "'t \<Rightarrow> nat \<Rightarrow> bool"
    and norm :: "'v \<Rightarrow> 'v"
  assumes set_total: "has t i \<Longrightarrow> \<exists>t'. set i v t = Ok t'"
    and has_set: "set i v t = Ok t' \<Longrightarrow> has t' j \<longleftrightarrow> has t j"
    and get_same: "set i v t = Ok t' \<Longrightarrow> get t' i = norm v"
    and get_other: "set i v t = Ok t' \<Longrightarrow> i \<noteq> j \<Longrightarrow> has t j \<Longrightarrow> get t' j = get t j"
begin

lemma set_all:
  assumes "distinct (map fst us)" "\<forall>u \<in> List.set us. has t (fst u)"
  shows "\<exists>t'. run (map (\<lambda>(i, v). set i v) us) t = Ok t'
     \<and> (\<forall>j. has t' j \<longleftrightarrow> has t j)
     \<and> (\<forall>(i, v) \<in> List.set us. get t' i = norm v)
     \<and> (\<forall>j. j \<notin> fst ` List.set us \<longrightarrow> has t j \<longrightarrow> get t' j = get t j)"
  using assms
proof (induction us arbitrary: t)
  case Nil
  then show ?case by simp
next
  case (Cons u us)
  obtain i v where u: "u = (i, v)" by (cases u)
  from Cons.prems u obtain t1 where t1: "set i v t = Ok t1"
    using set_total by fastforce
  have has1: "\<And>j. has t1 j \<longleftrightarrow> has t j" using has_set [OF t1] by blast
  from Cons.prems has1 obtain t' where t': "run (map (\<lambda>(i, v). set i v) us) t1 = Ok t'"
    "\<forall>j. has t' j \<longleftrightarrow> has t1 j" "\<forall>(i, v) \<in> List.set us. get t' i = norm v"
    "\<forall>j. j \<notin> fst ` List.set us \<longrightarrow> has t1 j \<longrightarrow> get t' j = get t1 j"
    using Cons.IH [of t1] by auto
  have "i \<notin> fst ` List.set us" "has t1 i" using Cons.prems u has1 by auto
  then have "get t' i = norm v" using t' get_same [OF t1] by simp
  then show ?case using u t1 t' has1 get_other [OF t1] by auto
qed

end

section \<open>Lemmas on buffers\<close>

lemma length_wr [simp]: "length (wr off s b) = length b"
  by (simp add: wr_def)

lemma nth_wr:
  "i < length b \<Longrightarrow>
   wr off s b ! i = (if off \<le> i \<and> i < off + length s then s ! (i - off) else b ! i)"
  by (auto simp: wr_def nth_append min_def not_le)

lemma length_rd [buffer_simps]: "off + n \<le> length b \<Longrightarrow> length (rd off n b) = n"
  by (simp add: rd_def)

lemma nth_rd: "i < length (rd off n b) \<Longrightarrow> rd off n b ! i = b ! (off + i)"
  by (auto simp: rd_def)

lemma rd_append: "rd off m b @ rd (off + m) n b = rd off (m + n) b"
  by (simp add: rd_def take_add add.commute)

lemma rd_cong:
  assumes "length b = length b'" "\<And>i. off \<le> i \<Longrightarrow> i < off + n \<Longrightarrow> i < length b \<Longrightarrow> b ! i = b' ! i"
  shows "rd off n b = rd off n b'"
  using assms by (intro nth_equalityI) (auto simp: rd_def)

lemma rd_wr_before [buffer_simps]: "off + n \<le> off' \<Longrightarrow> rd off n (wr off' s b) = rd off n b"
  by (rule rd_cong) (auto simp: nth_wr)

lemma rd_wr_after [buffer_simps]: "off' + length s \<le> off \<Longrightarrow> rd off n (wr off' s b) = rd off n b"
  by (rule rd_cong) (auto simp: nth_wr)

lemma rd_wr_inside [buffer_simps]:
  assumes "off' \<le> off" "off + n \<le> off' + length s" "off' + length s \<le> length b"
  shows "rd off n (wr off' s b) = rd (off - off') n s"
  using assms by (intro nth_equalityI) (auto simp: rd_def nth_wr)

lemma wr_same: "length s = length b \<Longrightarrow> wr 0 s b = s"
  by (simp add: wr_def)

lemma rd_all [buffer_simps]: "rd 0 (length b) b = b"
  by (simp add: rd_def)

lemma rd_self: "length s = n \<Longrightarrow> rd 0 n s = s"
  by (simp add: rd_def)

lemma rd_prefix: "length s = n \<Longrightarrow> rd 0 n (s @ t) = s"
  by (simp add: rd_def)

lemma rd_rd [buffer_simps]:
  "i + m \<le> n \<Longrightarrow> rd i m (rd off n b) = rd (off + i) m b"
  by (simp add: rd_def drop_take min_def add.commute)

lemma rd_drop: "rd off n (drop k b) = rd (k + off) n b"
  by (simp add: rd_def add.commute)

lemma wr_wr_append: "wr (off + length s) t (wr off s b) = wr off (s @ t) b"
  by (rule nth_equalityI) (auto simp: nth_wr nth_append)

lemma wr_Nil [simp]: "wr off [] b = b"
  by (rule nth_equalityI) (auto simp: nth_wr)

lemma put_Ok [buffer_simps]: "off + length s \<le> length b \<Longrightarrow> put off s b = Ok (wr off s b)"
  by (simp add: put_def)

lemma copyTo_Ok [buffer_simps]: "off \<le> length b \<Longrightarrow> copyTo off s b = Ok (wr off s b)"
  by (simp add: copyTo_def)

lemma window_Ok [buffer_simps]:
  "lo \<le> hi \<Longrightarrow> hi \<le> length b \<Longrightarrow> c (rd lo (hi - lo) b) = Ok s \<Longrightarrow> window lo hi c b = Ok (wr lo s b)"
  by (simp add: window_def)

lemma rd_replicate [buffer_simps]:
  "off + n \<le> k \<Longrightarrow> rd off n (replicate k v) = replicate n v"
  by (simp add: rd_def)

lemma rd_single: "off < length b \<Longrightarrow> rd off 1 b = [b ! off]"
  by (simp add: rd_def take_Suc_conv_app_nth Cons_nth_drop_Suc [symmetric])

lemma round_up:
  assumes "0 < (k::nat)"
  shows "n \<le> (n + (k - 1)) div k * k"
proof -
  have "(n + (k - 1)) div k * k + (n + (k - 1)) mod k = n + (k - 1)" by (rule div_mult_mod_eq)
  moreover have "(n + (k - 1)) mod k < k" using assms by simp
  ultimately show ?thesis by linarith
qed

section \<open>Lemmas on the binary encoders\<close>

lemma length_le16 [simp]: "length (le16 v) = 2"
  by (simp add: le16_def)

lemma length_be16 [simp]: "length (be16 v) = 2"
  by (simp add: be16_def)

lemma length_le32 [simp]: "length (le32 v) = 4"
  by (simp add: le32_def)

lemma length_be32 [simp]: "length (be32 v) = 4"
  by (simp add: be32_def)

lemma of_le16_le16 [simp]: "of_le16 (le16 v) = v"
  by (rule bit_word_eqI) (auto simp: of_le16_def le16_def bit_simps)

lemma of_le32_le32 [simp]: "of_le32 (le32 v) = v"
proof (rule bit_word_eqI)
  fix n assume "n < LENGTH(32)"
  then consider "n < 8" | "8 \<le> n" "n < 16" | "16 \<le> n" "n < 24" | "24 \<le> n" "n < 32"
    by fastforce
  then show "bit (of_le32 (le32 v)) n = bit v n"
    by cases (auto simp: of_le32_def le32_def bit_simps)
qed

lemma length_bytes_of [simp]: "length (bytes_of s) = length s"
  by (simp add: bytes_of_def)

lemma bytes_of_Nil [simp]: "bytes_of [] = []"
  by (simp add: bytes_of_def)

lemma bytes_of_inject: "bytes_of s = bytes_of t \<longleftrightarrow> s = t"
proof -
  have "inj (of_char :: char \<Rightarrow> byte)"
  proof (rule injI)
    fix a b :: char
    assume "(of_char a :: byte) = of_char b"
    then have "unat (of_nat (of_char a) :: byte) = unat (of_nat (of_char b) :: byte)"
      by (simp add: of_nat_of_char)
    then show "a = b" by (simp add: unat_of_nat)
  qed
  then show ?thesis by (auto simp: bytes_of_def inj_map_eq_map)
qed

lemma bytes_of_append [simp]: "bytes_of (s @ t) = bytes_of s @ bytes_of t"
  by (simp add: bytes_of_def)

end
