(* ===== verification/Go_Maps.thy ===== *)
theory Go_Maps
  imports Go_Prelude "HOL-Library.AList"
begin

text \<open>
  Go maps with text keys, as association lists with distinct keys: the order of the list stands for
  the unspecified order in which \<open>range\<close> visits the entries, and nothing else depends on it. The locale
  \<open>keyed_store\<close> is the contract of a store that normalises its keys, which the node store and the ISO
  cache both fulfil.
\<close>

named_theorems map_simps

type_synonym 'v gomap = "(string \<times> 'v) list"

abbreviation keys :: "'v gomap \<Rightarrow> string list" where
  "keys m \<equiv> map fst m"

definition wfMap :: "'v gomap \<Rightarrow> bool" where
  "wfMap m \<longleftrightarrow> distinct (keys m)"

text \<open>\<open>m[k]\<close>, \<open>m[k] = v\<close>, \<open>delete(m, k)\<close> and \<open>len(m)\<close>.\<close>

definition mapGet :: "'v gomap \<Rightarrow> string \<Rightarrow> 'v option" where
  "mapGet m k = map_of m k"

definition mapSet :: "string \<Rightarrow> 'v \<Rightarrow> 'v gomap \<Rightarrow> 'v gomap" where
  "mapSet k v m = AList.update k v m"

definition mapDelete :: "string \<Rightarrow> 'v gomap \<Rightarrow> 'v gomap" where
  "mapDelete k m = AList.delete k m"

section \<open>Laws of maps\<close>

lemma wfMap_Nil [simp]: "wfMap []"
  by (simp add: wfMap_def)

lemma mapGet_Nil [simp]: "mapGet [] k = None"
  by (simp add: mapGet_def)

lemma mapGet_mapSet [map_simps, simp]: "mapGet (mapSet k v m) j = (if j = k then Some v else mapGet m j)"
  by (simp add: mapGet_def mapSet_def update_conv')

lemma mapGet_mapDelete [map_simps, simp]: "mapGet (mapDelete k m) j = (if j = k then None else mapGet m j)"
  by (simp add: mapGet_def mapDelete_def delete_conv')

lemma wfMap_mapSet [intro, simp]: "wfMap m \<Longrightarrow> wfMap (mapSet k v m)"
  by (simp add: wfMap_def mapSet_def distinct_update)

lemma wfMap_mapDelete [intro, simp]: "wfMap m \<Longrightarrow> wfMap (mapDelete k m)"
  by (simp add: wfMap_def mapDelete_def distinct_delete)

lemma wfMap_filter [intro, simp]: "wfMap m \<Longrightarrow> wfMap (filter P m)"
  by (simp add: wfMap_def distinct_map_filter)

lemma mapGet_in_set: "wfMap m \<Longrightarrow> mapGet m k = Some v \<longleftrightarrow> (k, v) \<in> set m"
  by (simp add: mapGet_def wfMap_def)

lemma mapGet_filter:
  assumes "wfMap m"
  shows "mapGet (filter P m) k = (case mapGet m k of Some v \<Rightarrow> if P (k, v) then Some v else None | None \<Rightarrow> None)"
proof -
  have iff: "mapGet (filter P m) k = Some v \<longleftrightarrow> mapGet m k = Some v \<and> P (k, v)" for v
    using assms by (simp add: mapGet_in_set)
  show ?thesis
  proof (cases "mapGet (filter P m) k")
    case None
    then have "\<not> P (k, v)" if "mapGet m k = Some v" for v using iff [of v] that by simp
    with None show ?thesis by (cases "mapGet m k") simp_all
  next
    case (Some v)
    with iff [of v] show ?thesis by simp
  qed
qed

text \<open>Two maps with the same entries, visited in different orders, cannot be told apart.\<close>

lemma mapGet_order: "wfMap m \<Longrightarrow> wfMap m' \<Longrightarrow> set m = set m' \<Longrightarrow> mapGet m = mapGet m'"
  unfolding wfMap_def mapGet_def by (rule map_of_inject_set [THEN iffD2])

section \<open>An interface: stores that normalise their keys\<close>

locale keyed_store =
  fixes norm :: "string \<Rightarrow> string"
    and look :: "'s \<Rightarrow> string \<Rightarrow> 'v option"
    and store :: "string \<Rightarrow> 'v \<Rightarrow> 's \<Rightarrow> 's"
    and inv :: "'s \<Rightarrow> bool"
  assumes norm_idem: "norm (norm k) = norm k"
    and inv_store: "inv s \<Longrightarrow> inv (store k v s)"
    and look_norm: "inv s \<Longrightarrow> look s (norm k) = look s k"
    and look_store: "inv s \<Longrightarrow> look (store k v s) j = (if norm j = norm k then Some v else look s j)"
begin

definition storeAll :: "(string \<times> 'v) list \<Rightarrow> 's \<Rightarrow> 's" where
  "storeAll kvs s = fold (\<lambda>(k, v). store k v) kvs s"

lemma inv_storeAll: "inv s \<Longrightarrow> inv (storeAll kvs s)"
  unfolding storeAll_def by (induction kvs arbitrary: s) (auto simp: inv_store)

lemma look_storeAll_other:
  "inv s \<Longrightarrow> \<forall>(k, v) \<in> set kvs. norm k \<noteq> norm j \<Longrightarrow> look (storeAll kvs s) j = look s j"
  unfolding storeAll_def by (induction kvs arbitrary: s) (auto simp: inv_store look_store)

lemma look_storeAll:
  assumes "inv s" "distinct (map (norm \<circ> fst) kvs)" "(k, v) \<in> set kvs" "norm j = norm k"
  shows "look (storeAll kvs s) j = Some v"
proof -
  obtain as bs where kvs: "kvs = as @ (k, v) # bs" using assms(3) by (meson split_list)
  have "\<forall>(k', v') \<in> set bs. norm k' \<noteq> norm j"
    using assms(2,4) unfolding kvs by (auto simp: rev_image_eqI)
  moreover have "storeAll kvs s = storeAll bs (store k v (storeAll as s))"
    by (simp add: kvs storeAll_def)
  ultimately show ?thesis
    using assms(1,4) by (simp add: look_storeAll_other look_store inv_store inv_storeAll)
qed

text \<open>With distinct normalised keys the order of the insertions does not matter.\<close>

lemma storeAll_order:
  assumes "inv s" "distinct (map (norm \<circ> fst) kvs)" "distinct (map (norm \<circ> fst) kvs')" "set kvs = set kvs'"
  shows "look (storeAll kvs s) j = look (storeAll kvs' s) j"
proof (cases "\<exists>(k, v) \<in> set kvs. norm k = norm j")
  case True
  then obtain k v where "(k, v) \<in> set kvs" "norm j = norm k" by auto
  with assms show ?thesis using look_storeAll [of s kvs k v j] look_storeAll [of s kvs' k v j] by simp
next
  case False
  with assms show ?thesis by (simp add: look_storeAll_other split_def)
qed

end

end
