(* ===== verification/Go_Strings.thy ===== *)
theory Go_Strings
  imports Go_Prelude
begin

text \<open>
  The parts of the packages \<open>strings\<close>, \<open>fmt\<close>, \<open>encoding/hex\<close> and \<open>net\<close> of the Go standard
  library that the boot proxy calls: trimming, case folding and searching, hexadecimal printing and
  scanning (\<open>%x\<close>), and \<open>net.ParseMAC\<close>. Texts are byte sequences; case folding and white space are
  those of ASCII, which covers MAC and PCI addresses, URLs and host names.
\<close>

named_theorems text_simps

section \<open>Package strings\<close>

definition newline :: char where "newline = CHR 0x0A"

definition code :: "char \<Rightarrow> nat" where "code c = of_char c"

definition isSpace :: "char \<Rightarrow> bool" where
  "isSpace c \<longleftrightarrow> code c \<in> {9, 10, 11, 12, 13, 32}"

definition trimSpace :: "string \<Rightarrow> string" where
  "trimSpace s = rev (dropWhile isSpace (rev (dropWhile isSpace s)))"

definition lowerChar :: "char \<Rightarrow> char" where
  "lowerChar c = (if 65 \<le> code c \<and> code c \<le> 90 then char_of (code c + 32) else c)"

definition toLower :: "string \<Rightarrow> string" where
  "toLower s = map lowerChar s"

text \<open>\<open>strings.TrimRight\<close> with a cut set of one character.\<close>

definition trimRight :: "char \<Rightarrow> string \<Rightarrow> string" where
  "trimRight c s = rev (dropWhile (\<lambda>x. x = c) (rev s))"

definition hasPrefix :: "string \<Rightarrow> string \<Rightarrow> bool" where
  "hasPrefix s p \<longleftrightarrow> take (length p) s = p"

fun indexOf :: "string \<Rightarrow> string \<Rightarrow> nat option" where
  "indexOf [] sub = (if sub = [] then Some 0 else None)"
| "indexOf (c # s) sub = (if hasPrefix (c # s) sub then Some 0 else map_option Suc (indexOf s sub))"

fun lastIndex :: "string \<Rightarrow> string \<Rightarrow> nat option" where
  "lastIndex [] sub = (if sub = [] then Some 0 else None)"
| "lastIndex (c # s) sub = (case lastIndex s sub of Some i \<Rightarrow> Some (Suc i)
     | None \<Rightarrow> if hasPrefix (c # s) sub then Some 0 else None)"

definition contains :: "string \<Rightarrow> string \<Rightarrow> bool" where
  "contains s sub \<longleftrightarrow> indexOf s sub \<noteq> None"

text \<open>\<open>strings.Count\<close> of a one-character text, and \<open>strings.Join\<close>.\<close>

definition countChar :: "string \<Rightarrow> char \<Rightarrow> nat" where
  "countChar s c = length (filter (\<lambda>x. x = c) s)"

fun join :: "string list \<Rightarrow> string \<Rightarrow> string" where
  "join [] sep = []"
| "join [x] sep = x"
| "join (x # y # xs) sep = x @ sep @ join (y # xs) sep"

text \<open>\<open>strings.Split\<close> at a one-character separator.\<close>

fun splitOn :: "char \<Rightarrow> string \<Rightarrow> string list" where
  "splitOn c [] = [[]]"
| "splitOn c (x # s) = (if x = c then [] # splitOn c s
     else (case splitOn c s of [] \<Rightarrow> [[x]] | w # ws \<Rightarrow> (x # w) # ws))"

text \<open>\<open>strings.ReplaceAll\<close> for a non-empty \<open>old\<close>: leftmost matches first, never overlapping.\<close>

function replaceAll :: "string \<Rightarrow> string \<Rightarrow> string \<Rightarrow> string" where
  "replaceAll s old new =
     (if s = [] \<or> old = [] then s
      else if hasPrefix s old then new @ replaceAll (drop (length old) s) old new
      else hd s # replaceAll (tl s) old new)"
  by pat_completeness auto
termination
  by (relation "measure (\<lambda>(s, _). length s)") auto

declare replaceAll.simps [simp del]

section \<open>Hexadecimal numbers\<close>

definition hexDigit :: "nat \<Rightarrow> char" where
  "hexDigit n = ''0123456789abcdef'' ! n"

definition upperHexDigit :: "nat \<Rightarrow> char" where
  "upperHexDigit n = ''0123456789ABCDEF'' ! n"

definition hexVal :: "char \<Rightarrow> nat option" where
  "hexVal c = (let n = code c in
     if 48 \<le> n \<and> n \<le> 57 then Some (n - 48)
     else if 97 \<le> n \<and> n \<le> 102 then Some (n - 87)
     else if 65 \<le> n \<and> n \<le> 70 then Some (n - 55) else None)"

definition isHex :: "char \<Rightarrow> bool" where
  "isHex c \<longleftrightarrow> hexVal c \<noteq> None"

definition hexValue :: "string \<Rightarrow> nat" where
  "hexValue s = foldl (\<lambda>a c. 16 * a + the (hexVal c)) 0 s"

text \<open>\<open>%x\<close>, and a verb with the flag \<open>0\<close> and a width (\<open>%02x\<close>, \<open>%04x\<close>, \<open>%08X\<close>).\<close>

fun showHex :: "(nat \<Rightarrow> char) \<Rightarrow> nat \<Rightarrow> string" where
  "showHex dig n = (if n < 16 then [dig n] else showHex dig (n div 16) @ [dig (n mod 16)])"

declare showHex.simps [simp del]

definition padHex :: "(nat \<Rightarrow> char) \<Rightarrow> nat \<Rightarrow> nat \<Rightarrow> string" where
  "padHex dig w n = (let s = showHex dig n in replicate (w - length s) (CHR ''0'') @ s)"

definition hexEncode :: "bytes \<Rightarrow> string" where
  "hexEncode b = concat (map (\<lambda>x. [hexDigit (unat x div 16), hexDigit (unat x mod 16)]) b)"

text \<open>
  \<open>fmt.Sscanf\<close> with the verb \<open>%x\<close> into a \<open>uint32\<close>: white space is skipped except for line
  breaks, one digit at least is needed, and a value above 32 bits is an error.
\<close>

definition scanHex :: "string \<Rightarrow> (nat \<times> string) option" where
  "scanHex s =
     (let r = dropWhile (\<lambda>c. isSpace c \<and> c \<noteq> newline) s;
          d = takeWhile isHex r; v = hexValue d
      in if d = [] \<or> v \<ge> 2 ^ 32 then None else Some (v, dropWhile isHex r))"

text \<open>A format of \<open>%x\<close> verbs separated by literal characters: the values of the verbs processed.\<close>

fun scanHexes :: "string \<Rightarrow> char list \<Rightarrow> nat list" where
  "scanHexes s seps = (case scanHex s of None \<Rightarrow> []
     | Some (v, r) \<Rightarrow> v # (case seps of [] \<Rightarrow> []
         | sep # seps' \<Rightarrow> (case r of [] \<Rightarrow> [] | c # r' \<Rightarrow> if c = sep then scanHexes r' seps' else [])))"

declare scanHexes.simps [simp del]

section \<open>Package net: hardware addresses\<close>

definition xtoi2 :: "string \<Rightarrow> char \<Rightarrow> nat option" where
  "xtoi2 s e =
     (if length s > 2 \<and> s ! 2 \<noteq> e then None
      else (case s of a # b # _ \<Rightarrow>
          (case (hexVal a, hexVal b) of (Some x, Some y) \<Rightarrow> Some (16 * x + y) | _ \<Rightarrow> None)
        | _ \<Rightarrow> None))"

definition parseMAC :: "string \<Rightarrow> nat list option" where
  "parseMAC s =
     (if length s < 14 then None
      else if s ! 2 = CHR '':'' \<or> s ! 2 = CHR ''-'' then
        (let n = (length s + 1) div 3 in
         if (length s + 1) mod 3 \<noteq> 0 \<or> n \<notin> {6, 8, 20} then None
         else those (map (\<lambda>i. xtoi2 (drop (3 * i) s) (s ! 2)) [0..<n]))
      else if s ! 4 = CHR ''.'' then
        (let n = 2 * (length s + 1) div 5 in
         if (length s + 1) mod 5 \<noteq> 0 \<or> n \<notin> {6, 8, 20} then None
         else those (concat (map (\<lambda>i. [xtoi2 (take 2 (drop (5 * i) s)) (CHR 0x00), xtoi2 (drop (5 * i + 2) s) (s ! 4)])
           [0..<n div 2])))
      else None)"

definition macString :: "nat list \<Rightarrow> string" where
  "macString hw = join (map (\<lambda>b. [hexDigit (b div 16), hexDigit (b mod 16)]) hw) '':''"

section \<open>Lemmas on texts\<close>

lemma code_char_of [simp]: "n < 256 \<Longrightarrow> code (char_of n) = n"
  by (simp add: code_def)

lemma code_less [simp]: "code c < 256"
  using of_char_mod_256 [of c, where 'a = nat] by (metis code_def mod_less_divisor zero_less_numeral)

lemma code_inject: "code c = code d \<longleftrightarrow> c = d"
  by (simp add: code_def)

lemma code_lowerChar: "code (lowerChar c) = (if 65 \<le> code c \<and> code c \<le> 90 then code c + 32 else code c)"
  by (simp add: lowerChar_def)

lemma lowerChar_idem [simp]: "lowerChar (lowerChar c) = lowerChar c"
  by (simp add: code_inject [symmetric] code_lowerChar)

lemma isSpace_lowerChar [simp]: "isSpace (lowerChar c) = isSpace c"
  by (auto simp: isSpace_def code_lowerChar)

lemma hexVal_lowerChar [simp]: "hexVal (lowerChar c) = hexVal c"
  by (simp add: hexVal_def code_lowerChar Let_def)

lemma isHex_lowerChar [simp]: "isHex (lowerChar c) = isHex c"
  by (simp add: isHex_def)

lemma toLower_simps [simp]: "toLower [] = []" "toLower (c # s) = lowerChar c # toLower s"
  "toLower (s @ t) = toLower s @ toLower t" "length (toLower s) = length s" "toLower s = [] \<longleftrightarrow> s = []"
  by (simp_all add: toLower_def)

lemma toLower_idem [simp]: "toLower (toLower s) = toLower s"
  by (simp add: toLower_def)

lemma dropWhile_map_inv: "(\<And>c. P (f c) = P c) \<Longrightarrow> dropWhile P (map f s) = map f (dropWhile P s)"
  by (induction s) auto

lemma takeWhile_map_inv: "(\<And>c. P (f c) = P c) \<Longrightarrow> takeWhile P (map f s) = map f (takeWhile P s)"
  by (induction s) auto

lemma trimSpace_toLower: "trimSpace (toLower s) = toLower (trimSpace s)"
  by (simp add: trimSpace_def toLower_def dropWhile_map_inv rev_map)

lemma dropWhile_idem: "dropWhile P (dropWhile P xs) = dropWhile P xs"
  by (induction xs) auto

lemma trimSpace_hd_last:
  assumes "trimSpace s \<noteq> []"
  shows "\<not> isSpace (hd (trimSpace s))" "\<not> isSpace (last (trimSpace s))"
proof -
  let ?t = "dropWhile isSpace s"
  have t: "trimSpace s = rev (dropWhile isSpace (rev ?t))" by (simp add: trimSpace_def)
  obtain w where w: "?t = trimSpace s @ w"
    unfolding t by (metis rev_append rev_rev_ident takeWhile_dropWhile_id)
  have "hd (trimSpace s) = hd ?t" "?t \<noteq> []" using assms unfolding w by auto
  then show "\<not> isSpace (hd (trimSpace s))" by (metis hd_dropWhile)
  show "\<not> isSpace (last (trimSpace s))"
    using assms hd_dropWhile [of isSpace "rev ?t"] unfolding t by (auto simp: last_rev)
qed

lemma trimSpace_id: "s = [] \<or> \<not> isSpace (hd s) \<and> \<not> isSpace (last s) \<Longrightarrow> trimSpace s = s"
proof -
  assume s: "s = [] \<or> \<not> isSpace (hd s) \<and> \<not> isSpace (last s)"
  have "dropWhile isSpace t = t" if "t = [] \<or> \<not> isSpace (hd t)" for t using that by (cases t) auto
  from this [of s] this [of "rev s"] s show ?thesis by (auto simp: trimSpace_def hd_rev)
qed

lemma trimSpace_idem [simp]: "trimSpace (trimSpace s) = trimSpace s"
  using trimSpace_hd_last [of s] by (intro trimSpace_id) auto

lemma trimRight_idem [simp]: "trimRight c (trimRight c s) = trimRight c s"
  by (simp add: trimRight_def dropWhile_idem)

lemma hasPrefix_append [simp]: "hasPrefix (t @ s) t"
  by (simp add: hasPrefix_def)

lemma hasPrefix_conv: "hasPrefix s t \<longleftrightarrow> (\<exists>r. s = t @ r)"
  by (metis append_eq_conv_conj append_take_drop_id hasPrefix_append hasPrefix_def)

lemma indexOf_prefix: "indexOf (t @ y) t = Some 0"
proof (cases "t @ y")
  case (Cons a l)
  then have "hasPrefix (a # l) t" by (metis append_eq_conv_conj hasPrefix_def)
  with Cons show ?thesis by simp
qed simp

lemma contains_append: "contains (x @ t @ y) t"
  unfolding contains_def by (induction x) (simp_all add: indexOf_prefix)

lemma contains_conv: "contains s t \<longleftrightarrow> (\<exists>x y. s = x @ t @ y)"
proof
  assume "contains s t"
  then show "\<exists>x y. s = x @ t @ y"
  proof (induction s)
    case (Cons c s)
    show ?case
    proof (cases "hasPrefix (c # s) t")
      case True
      then obtain y where "c # s = [] @ t @ y" by (auto simp: hasPrefix_conv)
      then show ?thesis by blast
    next
      case False
      with Cons have "\<exists>x y. s = x @ t @ y" by (simp add: contains_def)
      then show ?thesis by (metis append_Cons)
    qed
  qed (simp add: contains_def split: if_splits)
qed (auto simp: contains_append)

lemma contains_extend: "contains s t \<Longrightarrow> contains (s @ r) t"
  unfolding contains_conv by (metis append.assoc)

lemma append_split:
  assumes "t @ v = a @ b"
  obtains (inside) k where "a = t @ k" "v = k @ b" | (after) t' where "t = a @ t'" "t' \<noteq> []" "t' @ v = b"
  using assms unfolding append_eq_append_conv2 by (metis append_Nil2 append_self_conv append.left_neutral)

lemma splitOn_Nil [simp]: "splitOn c s \<noteq> []"
  by (induction s) (auto split: list.splits)

lemma splitOn_clean [simp]: "c \<notin> set s \<Longrightarrow> splitOn c s = [s]"
  by (induction s) auto

lemma splitOn_sep [simp]: "c \<notin> set s \<Longrightarrow> splitOn c (s @ c # t) = s # splitOn c t"
  by (induction s) auto

lemma splitOn_concat: "splitOn c (s @ c # t) = splitOn c s @ splitOn c t"
proof (induction s)
  case (Cons x s)
  then show ?case by (cases "splitOn c s") auto
qed simp

lemma splitOn_append [simp]:
  "c \<notin> set s \<Longrightarrow> splitOn c (s @ t) = (case splitOn c t of [] \<Rightarrow> [s] | w # ws \<Rightarrow> (s @ w) # ws)"
  by (induction s) (auto split: list.splits)

section \<open>Lemmas on hexadecimal numbers\<close>

lemma nat_less_16_cases:
  assumes "n < (16::nat)"
  obtains "n = 0" | "n = 1" | "n = 2" | "n = 3" | "n = 4" | "n = 5" | "n = 6" | "n = 7" | "n = 8" | "n = 9"
    | "n = 10" | "n = 11" | "n = 12" | "n = 13" | "n = 14" | "n = 15"
  using assms by atomize_elim arith

lemma hexVal_hexDigit [simp]: "n < 16 \<Longrightarrow> hexVal (hexDigit n) = Some n"
  by (erule nat_less_16_cases) (simp_all add: hexVal_def hexDigit_def code_def)

lemma hexVal_upperHexDigit [simp]: "n < 16 \<Longrightarrow> hexVal (upperHexDigit n) = Some n"
  by (erule nat_less_16_cases) (simp_all add: hexVal_def upperHexDigit_def code_def)

lemma lowerChar_hexDigit [simp]: "n < 16 \<Longrightarrow> lowerChar (hexDigit n) = hexDigit n"
  by (erule nat_less_16_cases) (simp_all add: lowerChar_def hexDigit_def code_def)

lemma hexVal_less: "hexVal c = Some v \<Longrightarrow> v < 16"
  by (auto simp: hexVal_def Let_def split: if_splits)

lemma isHex_not_space: "isHex c \<Longrightarrow> \<not> isSpace c"
  by (auto simp: isHex_def hexVal_def isSpace_def Let_def split: if_splits)

lemma hexVal_0 [simp]: "hexVal (CHR ''0'') = Some 0"
  by (simp add: hexVal_def code_def)

lemma hexValue_Nil [simp]: "hexValue [] = 0"
  by (simp add: hexValue_def)

lemma hexValue_snoc: "hexValue (s @ [c]) = 16 * hexValue s + the (hexVal c)"
  by (simp add: hexValue_def)

lemma hexValue_zeros: "hexValue (replicate k (CHR ''0'') @ s) = hexValue s"
proof -
  have "hexValue (replicate k (CHR ''0'')) = 0"
    by (induction k) (simp_all add: hexValue_def foldl_append)
  then show ?thesis
    by (induction s rule: rev_induct) (simp_all add: hexValue_snoc append_assoc [symmetric] del: append_assoc)
qed

lemma hexValue_toLower: "hexValue (toLower s) = hexValue s"
  by (induction s rule: rev_induct) (simp_all add: hexValue_snoc)

definition digits :: "(nat \<Rightarrow> char) \<Rightarrow> bool" where
  "digits dig \<longleftrightarrow> (\<forall>n < 16. hexVal (dig n) = Some n)"

lemma digits_hexDigit [simp]: "digits hexDigit" and digits_upperHexDigit [simp]: "digits upperHexDigit"
  by (simp_all add: digits_def)

lemma showHex_value: "digits dig \<Longrightarrow> hexValue (showHex dig n) = n"
proof (induction dig n rule: showHex.induct)
  case (1 dig n)
  show ?case
  proof (cases "n < 16")
    case True
    with "1.prems" show ?thesis by (simp add: showHex.simps [of dig n] hexValue_def digits_def)
  next
    case False
    with "1.prems" "1.IH" show ?thesis
      by (simp add: showHex.simps [of dig n] hexValue_snoc digits_def)
  qed
qed

lemma showHex_isHex: "digits dig \<Longrightarrow> list_all isHex (showHex dig n)"
proof (induction dig n rule: showHex.induct)
  case (1 dig n)
  then show ?case
    by (cases "n < 16") (simp_all add: showHex.simps [of dig n] isHex_def digits_def)
qed

lemma showHex_Nil [simp]: "showHex dig n \<noteq> []"
  by (simp add: showHex.simps)

lemma length_showHex: "n < 16 ^ k \<Longrightarrow> 0 < k \<Longrightarrow> length (showHex dig n) \<le> k"
proof (induction k arbitrary: n)
  case (Suc k)
  show ?case
  proof (cases "n < 16")
    case False
    with Suc.prems have "n div 16 < 16 ^ k" by (simp add: less_mult_imp_div_less mult.commute)
    moreover have "0 < k" using Suc.prems(1) False by (cases k) auto
    ultimately have "length (showHex dig (n div 16)) \<le> k" by (rule Suc.IH)
    with False show ?thesis by (simp add: showHex.simps [of dig n])
  qed (simp add: showHex.simps)
qed simp

lemma padHex_facts:
  assumes "digits dig"
  shows "hexValue (padHex dig w n) = n" "list_all isHex (padHex dig w n)" "padHex dig w n \<noteq> []"
proof -
  have "list_all isHex (replicate k (CHR ''0''))" for k by (induction k) (simp_all add: isHex_def)
  then show "hexValue (padHex dig w n) = n" "list_all isHex (padHex dig w n)" "padHex dig w n \<noteq> []"
    using assms by (simp_all add: padHex_def Let_def hexValue_zeros showHex_value showHex_isHex)
qed

lemma length_padHex: "n < 16 ^ w \<Longrightarrow> 0 < w \<Longrightarrow> length (padHex dig w n) = w"
  using length_showHex [of n w dig] by (simp add: padHex_def Let_def)

lemma scanHex_padHex:
  assumes "digits dig" "n < 2 ^ 32" "rest = [] \<or> \<not> isHex (hd rest)"
  shows "scanHex (padHex dig w n @ rest) = Some (n, rest)"
proof -
  let ?p = "padHex dig w n"
  have p: "list_all isHex ?p" "?p \<noteq> []" using padHex_facts [OF assms(1)] by auto
  then have "\<not> isSpace (hd ?p)" by (cases ?p) (auto dest: isHex_not_space)
  then have "dropWhile (\<lambda>c. isSpace c \<and> c \<noteq> newline) (?p @ rest) = ?p @ rest" using p(2) by (cases ?p) auto
  moreover have "takeWhile isHex rest = []" "dropWhile isHex rest = rest" using assms(3) by (cases rest; auto)+
  then have "takeWhile isHex (?p @ rest) = ?p" "dropWhile isHex (?p @ rest) = rest"
    using p(1) by (simp_all add: takeWhile_append2 dropWhile_append2 list_all_iff)
  ultimately show ?thesis
    using assms(2) p(2) padHex_facts(1) [OF assms(1)] by (simp add: scanHex_def Let_def)
qed

lemma scanHex_toLower:
  "scanHex (toLower s) = map_option (\<lambda>(v, r). (v, toLower r)) (scanHex s)"
proof -
  have nl: "lowerChar c = newline \<longleftrightarrow> c = newline" for c
    by (simp add: code_inject [symmetric] code_lowerChar newline_def) (simp add: code_def)
  show ?thesis
    using hexValue_toLower
    by (simp add: scanHex_def Let_def toLower_def dropWhile_map_inv takeWhile_map_inv nl)
qed

section \<open>Lemmas on hardware addresses\<close>

lemma those_Some_length: "those xs = Some ys \<Longrightarrow> length ys = length xs"
  by (induction xs arbitrary: ys) (auto split: option.splits)

lemma those_set: "those xs = Some ys \<Longrightarrow> y \<in> set ys \<Longrightarrow> Some y \<in> set xs"
  by (induction xs arbitrary: ys) (auto split: option.splits)

lemma xtoi2_less: "xtoi2 s e = Some v \<Longrightarrow> v < 256"
  by (auto simp: xtoi2_def split: if_splits list.splits option.splits dest!: hexVal_less)

lemma parseMAC_cells:
  assumes "parseMAC s = Some hw"
  obtains xs where "those xs = Some hw" "set xs \<subseteq> range (\<lambda>(t, e). xtoi2 t e)"
proof -
  have 1: "set (map (\<lambda>i. xtoi2 (f i) e) is) \<subseteq> range (\<lambda>(t, e). xtoi2 t e)" for f e "is" by auto
  have 2: "set (concat (map (\<lambda>i. [xtoi2 (f i) d, xtoi2 (g i) e]) is)) \<subseteq> range (\<lambda>(t, e). xtoi2 t e)"
    for f g d e "is" by auto
  from assms show thesis
    unfolding parseMAC_def Let_def by (simp only: option.distinct split: if_splits) (erule that, rule 1 2)+
qed

lemma parseMAC_octets:
  assumes "parseMAC s = Some hw"
  shows "\<forall>b \<in> set hw. b < 256"
proof -
  obtain xs where "those xs = Some hw" "set xs \<subseteq> range (\<lambda>(t, e). xtoi2 t e)"
    using assms by (rule parseMAC_cells)
  then show ?thesis by (fastforce dest: those_set xtoi2_less [OF sym])
qed

lemma upt_6: "[0..<6] = [0, 1, 2, 3, 4, 5]"
  by (simp add: upt_rec)

lemma parseMAC_colons:
  assumes "list_all isHex [a, b, c, d, e, f, g, h, i, j, k, l]"
  shows "parseMAC [a, b, CHR '':'', c, d, CHR '':'', e, f, CHR '':'', g, h, CHR '':'', i, j, CHR '':'', k, l] =
    Some (map (\<lambda>(x, y). 16 * the (hexVal x) + the (hexVal y)) [(a, b), (c, d), (e, f), (g, h), (i, j), (k, l)])"
  using assms by (auto simp: parseMAC_def xtoi2_def upt_6 isHex_def)

lemma length_6_cases:
  assumes "length xs = 6"
  obtains a b c d e f where "xs = [a, b, c, d, e, f]"
proof -
  have "map ((!) xs) [0..<6] = xs" using map_nth [of xs] unfolding assms .
  then show thesis unfolding upt_6 list.map by (rule that [OF sym])
qed

lemma isHex_hexDigit [simp]: "n < 16 \<Longrightarrow> isHex (hexDigit n)"
  by (simp add: isHex_def)

lemma macString_six:
  "macString [a, b, c, d, e, f] =
    [hexDigit (a div 16), hexDigit (a mod 16), CHR '':'', hexDigit (b div 16), hexDigit (b mod 16), CHR '':'',
     hexDigit (c div 16), hexDigit (c mod 16), CHR '':'', hexDigit (d div 16), hexDigit (d mod 16), CHR '':'',
     hexDigit (e div 16), hexDigit (e mod 16), CHR '':'', hexDigit (f div 16), hexDigit (f mod 16)]"
  by (simp add: macString_def)

lemma macString_round_trip:
  assumes "length hw = 6" "\<forall>b \<in> set hw. b < 256"
  shows "parseMAC (macString hw) = Some hw" "toLower (macString hw) = macString hw"
    "trimSpace (macString hw) = macString hw" "length (macString hw) = 17"
proof -
  obtain a b c d e f where hw: "hw = [a, b, c, d, e, f]" using assms(1) by (rule length_6_cases)
  have d: "a div 16 < 16" "b div 16 < 16" "c div 16 < 16" "d div 16 < 16" "e div 16 < 16" "f div 16 < 16"
    using assms(2) by (simp_all add: hw less_mult_imp_div_less)
  have colon: "lowerChar (CHR '':'') = CHR '':''" by (simp add: lowerChar_def code_def)
  show "length (macString hw) = 17" by (simp add: hw macString_six)
  show "toLower (macString hw) = macString hw"
    unfolding hw macString_six by (simp add: colon d)
  have "\<not> isSpace (hexDigit (a div 16))" "\<not> isSpace (hexDigit (f mod 16))"
    by (rule isHex_not_space, simp add: d)+
  then show "trimSpace (macString hw) = macString hw"
    by (intro trimSpace_id) (simp add: hw macString_six)
  show "parseMAC (macString hw) = Some hw"
    unfolding hw macString_six by (subst parseMAC_colons) (simp_all add: d)
qed

text \<open>Addresses are parsed without regard to case.\<close>

lemma lowerChar_sep: "\<not> (97 \<le> code e \<and> code e \<le> 122) \<Longrightarrow> \<not> (65 \<le> code e \<and> code e \<le> 90) \<Longrightarrow>
    lowerChar c = e \<longleftrightarrow> c = e"
  by (auto simp: code_inject [symmetric] code_lowerChar)

lemma lowerChar_seps [simp]: "lowerChar c = CHR '':'' \<longleftrightarrow> c = CHR '':''" "lowerChar c = CHR ''-'' \<longleftrightarrow> c = CHR ''-''"
  "lowerChar c = CHR ''.'' \<longleftrightarrow> c = CHR ''.''" "lowerChar c = CHR 0x00 \<longleftrightarrow> c = CHR 0x00"
  by (rule lowerChar_sep; simp add: code_def)+

lemma lowerChar_fixed [simp]: "lowerChar (CHR '':'') = CHR '':''" "lowerChar (CHR ''-'') = CHR ''-''"
  "lowerChar (CHR ''.'') = CHR ''.''"
  by (simp_all add: lowerChar_def code_def)

lemma nth_toLower: "i < length s \<Longrightarrow> toLower s ! i = lowerChar (s ! i)"
  by (simp add: toLower_def)

lemma drop_toLower: "drop n (toLower s) = toLower (drop n s)" and take_toLower: "take n (toLower s) = toLower (take n s)"
  by (simp_all add: toLower_def drop_map take_map)

lemma xtoi2_toLower:
  assumes "\<And>c. lowerChar c = e \<longleftrightarrow> c = e"
  shows "xtoi2 (toLower s) e = xtoi2 s e"
proof (cases "length s > 2")
  case True
  then have "toLower s ! 2 \<noteq> e \<longleftrightarrow> s ! 2 \<noteq> e" by (simp add: nth_toLower assms)
  then show ?thesis by (cases s rule: list.exhaust; cases "tl s") (simp_all add: xtoi2_def split: option.splits)
next
  case False
  then show ?thesis by (cases s rule: list.exhaust; cases "tl s") (simp_all add: xtoi2_def split: option.splits)
qed

lemma parseMAC_toLower: "parseMAC (toLower s) = parseMAC s"
proof (cases "length s < 14")
  case False
  have n: "toLower s ! 2 = lowerChar (s ! 2)" "toLower s ! 4 = lowerChar (s ! 4)"
    using False by (simp_all add: nth_toLower)
  have seps: "\<And>c. lowerChar c = e \<longleftrightarrow> c = e" if "e \<in> {CHR '':'', CHR ''-'', CHR ''.'', CHR 0x00}" for e
    using that by auto
  have same: "lowerChar e = e" if "e \<in> {CHR '':'', CHR ''-'', CHR ''.''}" for e using seps [of e] that by auto
  show ?thesis
  proof (cases "s ! 2 = CHR '':'' \<or> s ! 2 = CHR ''-''")
    case True
    then have "xtoi2 (drop i (toLower s)) (s ! 2) = xtoi2 (drop i s) (s ! 2)" for i
      using xtoi2_toLower [OF seps, of "s ! 2"] by (auto simp: drop_toLower)
    moreover have "toLower s ! 2 = s ! 2" using True same [of "s ! 2"] n by auto
    ultimately show ?thesis using True by (simp add: parseMAC_def Let_def del: lowerChar_seps)
  next
    case no: False
    have "xtoi2 (drop i (toLower s)) (CHR ''.'') = xtoi2 (drop i s) (CHR ''.'')"
      "xtoi2 (take 2 (drop i (toLower s))) (CHR 0x00) = xtoi2 (take 2 (drop i s)) (CHR 0x00)" for i
      using xtoi2_toLower [OF seps] by (simp_all add: drop_toLower take_toLower)
    moreover have "toLower s ! 4 = s ! 4" if "s ! 4 = CHR ''.''" using that same [of "s ! 4"] n by auto
    ultimately show ?thesis
      using no n by (cases "s ! 4 = CHR ''.''") (simp_all add: parseMAC_def Let_def)
  qed
qed (simp add: parseMAC_def)

section \<open>Lemmas on scanning\<close>

lemma scanHexes_toLower:
  "\<forall>e \<in> set seps. \<forall>c. lowerChar c = e \<longleftrightarrow> c = e \<Longrightarrow> scanHexes (toLower s) seps = scanHexes s seps"
proof (induction seps arbitrary: s)
  case Nil
  then show ?case by (simp add: scanHexes.simps scanHex_toLower split: option.splits prod.splits)
next
  case (Cons e seps)
  show ?case
  proof (cases "scanHex s")
    case None
    then show ?thesis by (simp add: scanHexes.simps scanHex_toLower)
  next
    case (Some vr)
    obtain v r where vr: "vr = (v, r)" by (cases vr)
    show ?thesis
    proof (cases r)
      case Nil
      with Some vr show ?thesis by (simp add: scanHexes.simps [of _ "e # seps"] scanHex_toLower)
    next
      case (Cons c r')
      have "lowerChar c = e \<longleftrightarrow> c = e" using Cons.prems by simp
      with Some vr Cons Cons.IH [of r'] Cons.prems show ?thesis
        by (simp add: scanHexes.simps [of _ "e # seps"] scanHex_toLower)
    qed
  qed
qed

lemma scanHex_less: "scanHex s = Some (v, r) \<Longrightarrow> v < 2 ^ 32"
  by (auto simp: scanHex_def Let_def split: if_splits)

lemma scanHexes_less: "v \<in> set (scanHexes s seps) \<Longrightarrow> v < 2 ^ 32"
proof (induction s seps rule: scanHexes.induct)
  case (1 s seps)
  show ?case
  proof (cases "scanHex s")
    case None
    with "1.prems" show ?thesis by (simp add: scanHexes.simps [of s])
  next
    case (Some vr)
    obtain w r where vr: "vr = (w, r)" by (cases vr)
    from "1.prems" Some vr have "v = w \<or> (\<exists>sep seps' c r'. seps = sep # seps' \<and> r = c # r' \<and> c = sep \<and> v \<in> set (scanHexes r' seps'))"
      by (auto simp: scanHexes.simps [of s] split: list.splits if_splits)
    with "1.IH" Some vr scanHex_less show ?thesis by blast
  qed
qed

lemma countChar_toLower: "(\<And>c. lowerChar c = e \<longleftrightarrow> c = e) \<Longrightarrow> countChar (toLower s) e = countChar s e"
  by (induction s) (simp_all add: countChar_def)

lemma countChar_simps [simp]: "countChar [] e = 0" "countChar (c # s) e = (if c = e then 1 else 0) + countChar s e"
  "countChar (s @ t) e = countChar s e + countChar t e"
  by (simp_all add: countChar_def)

lemma countChar_none: "e \<notin> set s \<Longrightarrow> countChar s e = 0"
  by (induction s) auto

lemma contains_single: "contains s [c] \<longleftrightarrow> c \<in> set s"
  by (induction s) (auto simp: contains_def hasPrefix_def)

lemma in_set_toLower: "(\<And>x. lowerChar x = c \<longleftrightarrow> x = c) \<Longrightarrow> c \<in> set (toLower s) \<longleftrightarrow> c \<in> set s"
  by (induction s) (simp_all add: eq_commute [of c])

lemma isHex_seps [simp]: "\<not> isHex (CHR '':'')" "\<not> isHex (CHR ''.'')" "\<not> isHex (CHR '','')"
  by (simp_all add: isHex_def hexVal_def code_def)

lemma splitOn_join: "ms \<noteq> [] \<Longrightarrow> \<forall>m \<in> set ms. c \<notin> set m \<Longrightarrow> splitOn c (join ms [c]) = ms"
  by (induction ms "[c]" rule: join.induct) simp_all

end
