(* ===== verification/Go_Crypto.thy ===== *)
theory Go_Crypto
  imports Go_Strings
begin

unbundle bit_operations_syntax

text \<open>
  The digests of the packages \<open>crypto/sha256\<close> (FIPS 180-4) and \<open>crypto/md5\<close> (RFC 1321), executable on
  byte lists. The proxy uses SHA-256 to detect changed files and to name the configuration of a boot
  ISO, and MD5 for the checksum line of a self-extracting archive.
\<close>

section \<open>SHA-256\<close>

text \<open>
  The constants by their definition in the standard: the first 32 bits of the fractional parts of the
  cube roots of the first 64 primes, and of the square roots of the first eight. The integer root is found bit by bit;
  forty bits suffice for the roots of primes up to 311, scaled by \<open>2 ^ 32\<close>.
\<close>

definition smallPrimes :: "int list" where
  "smallPrimes = filter (\<lambda>p. list_all (\<lambda>d. p mod d \<noteq> 0) [2..p - 1]) [2..311]"

definition intRoot :: "nat \<Rightarrow> int \<Rightarrow> int" where
  "intRoot k n = foldl (\<lambda>r i. if (r + 2 ^ i) ^ k \<le> n then r + 2 ^ i else r) 0 (rev [0..<40])"

definition rootBits :: "nat \<Rightarrow> int \<Rightarrow> u32" where
  "rootBits k p = of_int (intRoot k (p * 2 ^ (32 * k)))"

definition sha256K :: "u32 list" where
  "sha256K = map (rootBits 3) smallPrimes"

definition sha256H :: "u32 list" where
  "sha256H = map (rootBits 2) [2, 3, 5, 7, 11, 13, 17, 19]"

definition rotr :: "nat \<Rightarrow> u32 \<Rightarrow> u32" where
  "rotr n x = drop_bit n x OR push_bit (32 - n) x"

text \<open>The message, the bit \<open>1\<close>, zeros, and the length in bits as a 64-bit big endian number.\<close>

definition padZeros :: "nat \<Rightarrow> nat" where
  "padZeros n = (119 - n mod 64) mod 64"

definition be64 :: "64 word \<Rightarrow> bytes" where
  "be64 v = map (\<lambda>i. ucast (drop_bit (8 * i) v)) (rev [0..<8])"

definition sha256Pad :: "bytes \<Rightarrow> bytes" where
  "sha256Pad m = m @ [0x80] @ replicate (padZeros (length m)) 0 @ be64 (of_nat (8 * length m))"

fun chunks :: "nat \<Rightarrow> 'a list \<Rightarrow> 'a list list" where
  "chunks n xs = (if n = 0 \<or> xs = [] then [] else take n xs # chunks n (drop n xs))"

declare chunks.simps [simp del]

definition of_be32 :: "bytes \<Rightarrow> u32" where
  "of_be32 b = of_le32 (rev b)"

definition sha256Next :: "u32 list \<Rightarrow> u32" where
  "sha256Next w = (let n = length w; w15 = w ! (n - 15); w2 = w ! (n - 2);
      s0 = rotr 7 w15 XOR rotr 18 w15 XOR drop_bit 3 w15;
      s1 = rotr 17 w2 XOR rotr 19 w2 XOR drop_bit 10 w2
    in w ! (n - 16) + s0 + w ! (n - 7) + s1)"

definition sha256Schedule :: "bytes \<Rightarrow> u32 list" where
  "sha256Schedule block = ((\<lambda>w. w @ [sha256Next w]) ^^ 48) (map of_be32 (chunks 4 block))"

fun sha256Round :: "u32 list \<Rightarrow> u32 \<times> u32 \<Rightarrow> u32 list" where
  "sha256Round [a, b, c, d, e, f, g, h] (k, w) =
     (let s1 = rotr 6 e XOR rotr 11 e XOR rotr 25 e;
          ch = (e AND f) XOR (NOT e AND g);
          t1 = h + s1 + ch + k + w;
          s0 = rotr 2 a XOR rotr 13 a XOR rotr 22 a;
          maj = (a AND b) XOR (a AND c) XOR (b AND c)
      in [t1 + (s0 + maj), a, b, c, d + t1, e, f, g])"
| "sha256Round st _ = st"

definition sha256Block :: "u32 list \<Rightarrow> bytes \<Rightarrow> u32 list" where
  "sha256Block h block = map2 (+) h (foldl sha256Round h (zip sha256K (sha256Schedule block)))"

definition sha256 :: "bytes \<Rightarrow> bytes" where
  "sha256 m = concat (map be32 (foldl sha256Block sha256H (chunks 64 (sha256Pad m))))"

section \<open>MD5\<close>

definition md5K :: "u32 list" where
  "md5K = [
    0xd76aa478, 0xe8c7b756, 0x242070db, 0xc1bdceee, 0xf57c0faf, 0x4787c62a, 0xa8304613, 0xfd469501,
    0x698098d8, 0x8b44f7af, 0xffff5bb1, 0x895cd7be, 0x6b901122, 0xfd987193, 0xa679438e, 0x49b40821,
    0xf61e2562, 0xc040b340, 0x265e5a51, 0xe9b6c7aa, 0xd62f105d, 0x02441453, 0xd8a1e681, 0xe7d3fbc8,
    0x21e1cde6, 0xc33707d6, 0xf4d50d87, 0x455a14ed, 0xa9e3e905, 0xfcefa3f8, 0x676f02d9, 0x8d2a4c8a,
    0xfffa3942, 0x8771f681, 0x6d9d6122, 0xfde5380c, 0xa4beea44, 0x4bdecfa9, 0xf6bb4b60, 0xbebfbc70,
    0x289b7ec6, 0xeaa127fa, 0xd4ef3085, 0x04881d05, 0xd9d4d039, 0xe6db99e5, 0x1fa27cf8, 0xc4ac5665,
    0xf4292244, 0x432aff97, 0xab9423a7, 0xfc93a039, 0x655b59c3, 0x8f0ccc92, 0xffeff47d, 0x85845dd1,
    0x6fa87e4f, 0xfe2ce6e0, 0xa3014314, 0x4e0811a1, 0xf7537e82, 0xbd3af235, 0x2ad7d2bb, 0xeb86d391]"

definition md5Shift :: "nat \<Rightarrow> nat" where
  "md5Shift i = [[7, 12, 17, 22], [5, 9, 14, 20], [4, 11, 16, 23], [6, 10, 15, 21]] ! (i div 16) ! (i mod 4)"

definition le64 :: "64 word \<Rightarrow> bytes" where
  "le64 v = rev (be64 v)"

definition md5Pad :: "bytes \<Rightarrow> bytes" where
  "md5Pad m = m @ [0x80] @ replicate (padZeros (length m)) 0 @ le64 (of_nat (8 * length m))"

fun md5Round :: "u32 list \<Rightarrow> u32 list \<Rightarrow> nat \<Rightarrow> u32 list" where
  "md5Round x [a, b, c, d] i =
     (let (f, g) = (if i < 16 then ((b AND c) OR (NOT b AND d), i)
          else if i < 32 then ((d AND b) OR (NOT d AND c), (5 * i + 1) mod 16)
          else if i < 48 then (b XOR c XOR d, (3 * i + 5) mod 16)
          else (c XOR (b OR NOT d), (7 * i) mod 16));
          s = a + f + md5K ! i + x ! g
      in [d, b + rotr (32 - md5Shift i) s, b, c])"
| "md5Round x st _ = st"

definition md5Block :: "u32 list \<Rightarrow> bytes \<Rightarrow> u32 list" where
  "md5Block h block = map2 (+) h (foldl (md5Round (map of_le32 (chunks 4 block))) h [0..<64])"

definition md5 :: "bytes \<Rightarrow> bytes" where
  "md5 m = concat (map le32 (foldl md5Block [0x67452301, 0xefcdab89, 0x98badcfe, 0x10325476] (chunks 64 (md5Pad m))))"

section \<open>The digests have their size\<close>

lemma length_hexEncode [simp]: "length (hexEncode b) = 2 * length b"
  by (induction b) (simp_all add: hexEncode_def)

lemma hexEncode_isHex: "list_all isHex (hexEncode b)"
proof -
  have "unat x div 16 < 16" for x :: byte
    using unsigned_less [of x, where 'a = nat] by (simp add: less_mult_imp_div_less)
  then show ?thesis by (induction b) (simp_all add: hexEncode_def)
qed

lemma length_foldl:
  assumes "length a = n" "\<And>a x. length a = n \<Longrightarrow> length (f a x) = n"
  shows "length (foldl f a xs) = n"
  using assms(1) by (induction xs arbitrary: a) (simp_all add: assms(2))

lemma list_by_index:
  assumes "length xs = n"
  shows "xs = map ((!) xs) [0..<n]"
  using map_nth [of xs] unfolding assms by (rule sym)

lemma length_sha256Round:
  assumes "length st = 8"
  shows "length (sha256Round st kw) = 8"
proof -
  have "[0..<8] = [0, 1, 2, 3, 4, 5, 6, 7]" by (simp add: upt_rec)
  from list_by_index [OF assms, unfolded this list.map] show ?thesis
    by (rule ssubst) (cases kw, simp add: Let_def)
qed

lemma length_md5Round:
  assumes "length st = 4"
  shows "length (md5Round x st i) = 4"
proof -
  have "[0..<4] = [0, 1, 2, 3]" by (simp add: upt_rec)
  from list_by_index [OF assms, unfolded this list.map] show ?thesis
    by (rule ssubst) (simp add: Let_def split: prod.splits)
qed

lemma length_concat_const: "(\<And>x. length (f x) = n) \<Longrightarrow> length (concat (map f xs)) = n * length xs"
  by (induction xs) simp_all

lemma length_sha256 [simp]: "length (sha256 m) = 32"
proof -
  have "length (sha256Block h b) = 8" if "length h = 8" for h b
    using length_foldl [of h 8 sha256Round "zip sha256K (sha256Schedule b)", OF that length_sha256Round] that
    by (simp only: sha256Block_def length_map length_zip min.idem)
  moreover have "length sha256H = 8" by (simp add: sha256H_def)
  ultimately have "length (foldl sha256Block sha256H bs) = 8" for bs by (rule length_foldl [rotated])
  then show ?thesis by (simp only: sha256_def length_concat_const [of be32 4, OF length_be32])
qed

lemma length_md5 [simp]: "length (md5 m) = 16"
proof -
  have "length (md5Block h b) = 4" if "length h = 4" for h b
    using length_foldl [of h 4 "md5Round (map of_le32 (chunks 4 b))" "[0..<64]", OF that length_md5Round] that
    by (simp only: md5Block_def length_map length_zip min.idem)
  moreover have "length [a, b, c, d] = 4" for a b c d :: u32 by simp
  ultimately have "length (foldl md5Block [a, b, c, d] bs) = 4" for a b c d bs by (rule length_foldl [rotated])
  then show ?thesis by (simp only: md5_def length_concat_const [of le32 4, OF length_le32])
qed

end
