(* ===== verification/Node_Types.thy ===== *)
theory Node_Types
  imports Go_Maps Go_Crypto
begin

text \<open>
  The data of the boot proxy, after \<^verbatim>\<open>images/maas-boot-proxy/types.go\<close>: a node record, a
  rewrite rule, the configuration, a cached ISO, and a cached node, which no function uses. A Go map is a list of entries with distinct keys;
  points in time and durations are integers (nanoseconds).
\<close>

record Node =
  IP :: string
  Netmask :: string
  GW :: string
  VLAN :: string
  Dev :: string
  Hostname :: string
  DNS :: string
  DNS2 :: string
  BondMembers :: "string list"
  BondName :: string
  BondMode :: string
  LACPRate :: string
  HashPolicy :: string
  KernelNet :: string

definition bonded :: "Node \<Rightarrow> bool" where
  "bonded n \<longleftrightarrow> length (BondMembers n) > 0"

text \<open>The zero value \<open>Node{}\<close>.\<close>

definition zeroNode :: Node where
  "zeroNode = \<lparr>IP = [], Netmask = [], GW = [], VLAN = [], Dev = [], Hostname = [], DNS = [], DNS2 = [],
     BondMembers = [], BondName = [], BondMode = [], LACPRate = [], HashPolicy = [], KernelNet = []\<rparr>"

record CachedNode =
  cachedNode :: Node
  nodeLastAccess :: int
  nodeCreatedAt :: int

record CachedISO =
  Data :: bytes
  ConfigHash :: string
  ModTime :: int
  LastAccess :: int

record Rewrite =
  From :: string
  To :: string

record Config =
  RackUpstream :: string
  ProxyBase :: string
  OverlayURL :: string
  Rewrites :: "Rewrite list"
  Nodes :: "Node gomap"

text \<open>The outcome of \<open>os.ReadFile\<close>: a missing file is told apart from other errors.\<close>

datatype FileRead = NotExist | ReadErr string | Contents string

end
