(* ===== verification/Nodes_Store.thy ===== *)
theory Nodes_Store
  imports Node_Types
begin

text \<open>
  The hot-reloaded node table of \<^verbatim>\<open>images/maas-boot-proxy/nodes_store.go\<close>. \<open>encoding/json\<close> enters
  as two parameters: \<open>unmarshal\<close>, which decodes a nodes document or returns an error text, and \<open>marshal\<close>,
  which prints a node. Each operation returns the new state, its results, and the lines it logs.
  The second half of the theory interleaves concurrent calls of \<open>Reload\<close> (the watcher and the request
  handlers) at the granularity of the mutex.
\<close>

named_theorems store_simps

section \<open>Keys\<close>

definition normalizeMAC :: "string \<Rightarrow> string" where
  "normalizeMAC s = (case parseMAC (trimSpace s) of
     None \<Rightarrow> []
   | Some hw \<Rightarrow> if length hw \<noteq> 6 then [] else toLower (macString hw))"

definition normalizeKey :: "string \<Rightarrow> string" where
  "normalizeKey s = (if normalizeMAC s \<noteq> [] then normalizeMAC s else toLower (trimSpace s))"

definition isPCIAddr :: "string \<Rightarrow> bool" where
  "isPCIAddr s \<longleftrightarrow> countChar s (CHR '':'') \<ge> 2 \<or> contains s '':'' \<and> contains s ''.''"

section \<open>The store\<close>

definition NodesFileVersion :: int where "NodesFileVersion = 1"

record NodesFile =
  Version :: int
  FileNodes :: "Node gomap"

record NodeStore =
  storePath :: string
  storeNodes :: "Node gomap"
  storeHash :: bytes
  storeLoaded :: bool
  storeLastErr :: string

definition NewNodeStore :: "string \<Rightarrow> NodeStore" where
  "NewNodeStore p = \<lparr>storePath = p, storeNodes = [], storeHash = replicate 32 0, storeLoaded = False, storeLastErr = []\<rparr>"

definition GetNode :: "NodeStore \<Rightarrow> string \<Rightarrow> Node option" where
  "GetNode s mac = mapGet (storeNodes s) (normalizeKey mac)"

definition PutNode :: "string \<Rightarrow> Node \<Rightarrow> NodeStore \<Rightarrow> NodeStore" where
  "PutNode mac n s = s\<lparr>storeNodes := mapSet (normalizeKey mac) n (storeNodes s)\<rparr>"

definition LenNodes :: "NodeStore \<Rightarrow> nat" where
  "LenNodes s = length (storeNodes s)"

text \<open>\<open>noteError\<close> logs a failure unless it repeats the previous one.\<close>

definition noteError :: "string \<Rightarrow> NodeStore \<Rightarrow> NodeStore \<times> string list" where
  "noteError msg s = (s\<lparr>storeLastErr := msg\<rparr>, if storeLastErr s = msg then [] else [msg])"

definition normalizeEntries :: "Node gomap \<Rightarrow> Node gomap" where
  "normalizeEntries m = fold (\<lambda>(k, v) out. mapSet (normalizeKey k) v out) m []"

definition parseNodes :: "(string \<Rightarrow> string + NodesFile) \<Rightarrow> string \<Rightarrow> string + Node gomap" where
  "parseNodes unmarshal b = (case unmarshal b of
     Inl err \<Rightarrow> Inl err
   | Inr f \<Rightarrow>
       if Version f > NodesFileVersion
       then Inl (''unsupported nodes file version '' @ show_nat (nat (Version f)) @ '' (max '' @
                 show_nat (nat NodesFileVersion) @ '')'')
       else Inr (normalizeEntries (FileNodes f)))"

definition nodeEqual :: "(Node \<Rightarrow> string) \<Rightarrow> Node \<Rightarrow> Node \<Rightarrow> bool" where
  "nodeEqual marshal a b \<longleftrightarrow> marshal a = marshal b"

definition diffNodes :: "(Node \<Rightarrow> string) \<Rightarrow> Node gomap \<Rightarrow> Node gomap \<Rightarrow> nat \<times> nat \<times> nat" where
  "diffNodes marshal old cur =
     (length (filter (\<lambda>(k, v). mapGet old k = None) cur),
      length (filter (\<lambda>(k, v). mapGet cur k = None) old),
      length (filter (\<lambda>(k, v). case mapGet old k of None \<Rightarrow> False | Some a \<Rightarrow> \<not> nodeEqual marshal a v) cur))"

definition missingMsg :: "NodeStore \<Rightarrow> string" where
  "missingMsg s = ''nodes file '' @ storePath s @ '' not found; keeping '' @ show_nat (LenNodes s) @ '' known node(s)''"

definition readErrMsg :: "string \<Rightarrow> string \<Rightarrow> string" where
  "readErrMsg p err = ''reading nodes file '' @ p @ '': '' @ err"

definition invalidMsg :: "string \<Rightarrow> string \<Rightarrow> string" where
  "invalidMsg p err = ''ignoring invalid nodes file '' @ p @ '' (keeping previous data): '' @ err"

definition commitNodes :: "Node gomap \<Rightarrow> bytes \<Rightarrow> NodeStore \<Rightarrow> NodeStore" where
  "commitNodes ns digest s = s\<lparr>storeNodes := ns, storeHash := digest, storeLoaded := True, storeLastErr := []\<rparr>"

definition reloadedMsg :: "(Node \<Rightarrow> string) \<Rightarrow> string \<Rightarrow> Node gomap \<Rightarrow> Node gomap \<Rightarrow> string" where
  "reloadedMsg marshal p old cur = (case diffNodes marshal old cur of (added, removed, changed) \<Rightarrow>
     ''nodes file '' @ p @ '' reloaded: '' @ show_nat (length cur) @ '' node(s) (+'' @ show_nat added @
     '' -'' @ show_nat removed @ '' ~'' @ show_nat changed @ '')'')"

text \<open>
  \<open>Reload\<close> on the outcome of reading the file: the new store, the two results (whether the node set
  was replaced, the error), and the log lines.
\<close>

definition ReloadNodes :: "(string \<Rightarrow> string + NodesFile) \<Rightarrow> (Node \<Rightarrow> string) \<Rightarrow> FileRead \<Rightarrow> NodeStore
    \<Rightarrow> NodeStore \<times> (bool \<times> string option) \<times> string list" where
  "ReloadNodes unmarshal marshal file s =
     (if storePath s = [] then (s, (False, None), [])
      else case file of
        NotExist \<Rightarrow> (case noteError (missingMsg s) s of (s', l) \<Rightarrow> (s', (False, None), l))
      | ReadErr err \<Rightarrow> (case noteError (readErrMsg (storePath s) err) s of (s', l) \<Rightarrow> (s', (False, Some err), l))
      | Contents b \<Rightarrow>
          (let digest = sha256 (bytes_of b) in
           if storeLoaded s \<and> digest = storeHash s then (s, (False, None), [])
           else case parseNodes unmarshal b of
             Inl err \<Rightarrow> (case noteError (invalidMsg (storePath s) err) s of (s', l) \<Rightarrow> (s', (False, Some err), l))
           | Inr ns \<Rightarrow> (commitNodes ns digest s, (True, None),
               [reloadedMsg marshal (storePath s) (storeNodes s) ns])))"

section \<open>Lemmas on keys\<close>

lemma normalizeMAC_cases:
  obtains (mac) hw where "normalizeMAC s = macString hw" "length hw = 6" "\<forall>b \<in> set hw. b < 256" "parseMAC (trimSpace s) = Some hw"
  | (other) "normalizeMAC s = []"
proof (cases "parseMAC (trimSpace s)")
  case (Some hw)
  note oct = parseMAC_octets [OF Some]
  show thesis
  proof (cases "length hw = 6")
    case True
    with Some oct have "normalizeMAC s = macString hw"
      using macString_round_trip(2) by (simp add: normalizeMAC_def)
    then show thesis using True oct Some by (rule mac)
  qed (use Some other in \<open>simp add: normalizeMAC_def\<close>)
qed (use other in \<open>simp add: normalizeMAC_def\<close>)

lemma macString_not_Nil: "length hw = 6 \<Longrightarrow> \<forall>b \<in> set hw. b < 256 \<Longrightarrow> macString hw \<noteq> []"
  using macString_round_trip(4) by force

lemma normalizeMAC_macString:
  "length hw = 6 \<Longrightarrow> \<forall>b \<in> set hw. b < 256 \<Longrightarrow> normalizeMAC (macString hw) = macString hw"
  by (simp add: normalizeMAC_def macString_round_trip)

lemma normalizeMAC_idem [simp]: "normalizeMAC (normalizeMAC s) = normalizeMAC s"
  by (cases s rule: normalizeMAC_cases)
    (simp_all add: normalizeMAC_macString, simp add: normalizeMAC_def trimSpace_def parseMAC_def)

lemma normalizeMAC_toLower [simp]: "normalizeMAC (toLower s) = normalizeMAC s"
  by (simp add: normalizeMAC_def trimSpace_toLower parseMAC_toLower)

lemma normalizeMAC_trimSpace [simp]: "normalizeMAC (trimSpace s) = normalizeMAC s"
  by (simp add: normalizeMAC_def)

lemma normalizeKey_idem [simp]: "normalizeKey (normalizeKey s) = normalizeKey s"
proof (cases "normalizeMAC s = []")
  case True
  then have "normalizeKey s = toLower (trimSpace s)" by (simp add: normalizeKey_def)
  with True show ?thesis by (simp add: normalizeKey_def trimSpace_toLower)
qed (simp add: normalizeKey_def)

section \<open>Lemmas on the store\<close>

definition wfStore :: "NodeStore \<Rightarrow> bool" where
  "wfStore s \<longleftrightarrow> wfMap (storeNodes s) \<and> (\<forall>k \<in> set (keys (storeNodes s)). normalizeKey k = k)"

lemma keys_mapSet: "set (keys (mapSet k v m)) = insert k (set (keys m))"
  by (simp add: mapSet_def dom_update)

interpretation nodeStore: keyed_store normalizeKey GetNode PutNode wfStore
proof
  show "normalizeKey (normalizeKey k) = normalizeKey k" for k by (rule normalizeKey_idem)
  show "wfStore (PutNode k v s)" if "wfStore s" for s k v
    using that unfolding wfStore_def by (simp add: PutNode_def keys_mapSet del: set_map)
  show "GetNode s (normalizeKey k) = GetNode s k" for s k by (simp add: GetNode_def)
  show "GetNode (PutNode k v s) j = (if normalizeKey j = normalizeKey k then Some v else GetNode s j)" for k v s j
    by (simp add: GetNode_def PutNode_def)
qed

lemma normalizeEntries_storeAll:
  "storeNodes (nodeStore.storeAll m (NewNodeStore p)) = normalizeEntries m"
proof -
  have "storeNodes (fold (\<lambda>(k, v). PutNode k v) m s) = fold (\<lambda>(k, v) out. mapSet (normalizeKey k) v out) m (storeNodes s)" for s
    by (induction m arbitrary: s) (auto simp: PutNode_def)
  then show ?thesis by (simp add: nodeStore.storeAll_def normalizeEntries_def NewNodeStore_def)
qed

lemma wfStore_New: "wfStore (NewNodeStore p)"
  by (simp add: wfStore_def NewNodeStore_def)

lemma GetNode_entries:
  "mapGet (normalizeEntries m) (normalizeKey k) = GetNode (nodeStore.storeAll m (NewNodeStore [])) k"
  by (simp add: GetNode_def normalizeEntries_storeAll)

lemma normalizeEntries_wf: "wfMap (normalizeEntries m)" "\<forall>k \<in> set (keys (normalizeEntries m)). normalizeKey k = k"
  using nodeStore.inv_storeAll [OF wfStore_New, of m "[]"] unfolding wfStore_def normalizeEntries_storeAll by blast+

lemma mapGet_normalized_only: "wfStore s \<Longrightarrow> mapGet (storeNodes s) k = Some v \<Longrightarrow> normalizeKey k = k"
  unfolding wfStore_def mapGet_def by (metis map_of_SomeD fst_conv image_eqI set_map)

text \<open>\<open>storeFrom H s\<close>: the node table is empty or the decoding of one complete document of \<open>H\<close>.\<close>

definition storeFrom :: "(string \<Rightarrow> string + NodesFile) \<Rightarrow> string set \<Rightarrow> NodeStore \<Rightarrow> bool" where
  "storeFrom unmarshal H s \<longleftrightarrow>
     (if storeLoaded s then \<exists>b \<in> H. storeHash s = sha256 (bytes_of b) \<and> parseNodes unmarshal b = Inr (storeNodes s)
      else storeNodes s = [])"

lemma storeFrom_note [store_simps]: "storeFrom u H (fst (noteError msg s)) = storeFrom u H s"
  by (simp add: storeFrom_def noteError_def)

lemma storeFrom_commit [store_simps]:
  "b \<in> H \<Longrightarrow> parseNodes u b = Inr ns \<Longrightarrow> storeFrom u H (commitNodes ns (sha256 (bytes_of b)) s)"
  by (auto simp: storeFrom_def commitNodes_def)

lemma storeFrom_mono: "storeFrom u H s \<Longrightarrow> H \<subseteq> H' \<Longrightarrow> storeFrom u H' s"
  by (auto simp: storeFrom_def split: if_splits)

lemma length_filter_compl: "length (filter P xs) + length (filter (\<lambda>x. \<not> P x) xs) = length xs"
  by (rule sum_length_filter_compl)

lemma mapGet_filter_none:
  "wfMap m \<Longrightarrow> length (filter P m) = 0 \<longleftrightarrow> (\<forall>k v. mapGet m k = Some v \<longrightarrow> \<not> P (k, v))"
  by (auto simp: filter_empty_conv mapGet_in_set)

lemma common_keys:
  fixes old cur :: "'v gomap"
  assumes "wfMap old" "wfMap cur"
  shows "length (filter (\<lambda>(k, v). mapGet old k \<noteq> None) cur) = length (filter (\<lambda>(k, v). mapGet cur k \<noteq> None) old)"
proof -
  have *: "length (filter (\<lambda>(k, v). mapGet a k \<noteq> None) b) = card (dom (mapGet a) \<inter> dom (mapGet b))" if "wfMap b" for a b :: "'v gomap"
  proof -
    let ?f = "filter (\<lambda>(k, v). mapGet a k \<noteq> None) b"
    have "distinct (keys ?f)" using that by (simp add: wfMap_def distinct_map_filter)
    then have "length ?f = card (set (keys ?f))" by (metis distinct_card length_map)
    moreover have "set (keys ?f) = dom (mapGet a) \<inter> dom (mapGet b)"
    proof -
      have "dom (mapGet b) = fst ` set b" by (simp add: mapGet_def [abs_def] dom_map_of_conv_image_fst)
      then show ?thesis by (auto simp: image_iff split_beta)
    qed
    ultimately show ?thesis by simp
  qed
  show ?thesis using * [OF assms(1), of cur] * [OF assms(2), of old] by (simp add: Int_commute)
qed

section \<open>Concurrent reloads\<close>

text \<open>
  The steps of concurrent \<open>Reload\<close> calls: reading the file, comparing the digest under the read lock,
  decoding, and the critical section that installs the result or notes the error. Each thread
  is at one of four places; the file changes at any time, and \<open>shHistory\<close> records its contents.
\<close>

datatype ReloadPC = Idle | Fetched string | Differs string | Noting string

record Shared =
  shStore :: NodeStore
  shFile :: FileRead
  shHistory :: "string set"
  shPC :: "nat \<Rightarrow> ReloadPC"

definition goto :: "nat \<Rightarrow> ReloadPC \<Rightarrow> Shared \<Rightarrow> Shared" where
  "goto t pc c = c\<lparr>shPC := (shPC c)(t := pc)\<rparr>"

fun contentsOf :: "FileRead \<Rightarrow> string set" where
  "contentsOf (Contents b) = {b}"
| "contentsOf _ = {}"

inductive reloadStep :: "(string \<Rightarrow> string + NodesFile) \<Rightarrow> Shared \<Rightarrow> Shared \<Rightarrow> bool" for unmarshal where
  changed: "reloadStep unmarshal c (c\<lparr>shFile := f, shHistory := shHistory c \<union> contentsOf f\<rparr>)"
| read: "storePath (shStore c) \<noteq> [] \<Longrightarrow> shPC c t = Idle \<Longrightarrow> shFile c = Contents b
    \<Longrightarrow> reloadStep unmarshal c (goto t (Fetched b) c)"
| missing: "storePath (shStore c) \<noteq> [] \<Longrightarrow> shPC c t = Idle \<Longrightarrow> shFile c = NotExist
    \<Longrightarrow> reloadStep unmarshal c (goto t (Noting (missingMsg (shStore c))) c)"
| unreadable: "storePath (shStore c) \<noteq> [] \<Longrightarrow> shPC c t = Idle \<Longrightarrow> shFile c = ReadErr err
    \<Longrightarrow> reloadStep unmarshal c (goto t (Noting (readErrMsg (storePath (shStore c)) err)) c)"
| same: "shPC c t = Fetched b \<Longrightarrow> storeLoaded (shStore c) \<and> sha256 (bytes_of b) = storeHash (shStore c)
    \<Longrightarrow> reloadStep unmarshal c (goto t Idle c)"
| differs: "shPC c t = Fetched b \<Longrightarrow> \<not> (storeLoaded (shStore c) \<and> sha256 (bytes_of b) = storeHash (shStore c))
    \<Longrightarrow> reloadStep unmarshal c (goto t (Differs b) c)"
| invalid: "shPC c t = Differs b \<Longrightarrow> parseNodes unmarshal b = Inl err
    \<Longrightarrow> reloadStep unmarshal c (goto t (Noting (invalidMsg (storePath (shStore c)) err)) c)"
| commit: "shPC c t = Differs b \<Longrightarrow> parseNodes unmarshal b = Inr ns
    \<Longrightarrow> reloadStep unmarshal c (goto t Idle (c\<lparr>shStore := commitNodes ns (sha256 (bytes_of b)) (shStore c)\<rparr>))"
| noted: "shPC c t = Noting msg
    \<Longrightarrow> reloadStep unmarshal c (goto t Idle (c\<lparr>shStore := fst (noteError msg (shStore c))\<rparr>))"

abbreviation reloadRun :: "(string \<Rightarrow> string + NodesFile) \<Rightarrow> Shared \<Rightarrow> Shared \<Rightarrow> bool" where
  "reloadRun unmarshal \<equiv> (reloadStep unmarshal)\<^sup>*\<^sup>*"

definition initShared :: "string \<Rightarrow> FileRead \<Rightarrow> Shared" where
  "initShared p f = \<lparr>shStore = NewNodeStore p, shFile = f, shHistory = contentsOf f, shPC = (\<lambda>_. Idle)\<rparr>"

definition sharedInv :: "(string \<Rightarrow> string + NodesFile) \<Rightarrow> Shared \<Rightarrow> bool" where
  "sharedInv unmarshal c \<longleftrightarrow> storeFrom unmarshal (shHistory c) (shStore c) \<and> contentsOf (shFile c) \<subseteq> shHistory c
     \<and> (\<forall>t b. shPC c t = Fetched b \<or> shPC c t = Differs b \<longrightarrow> b \<in> shHistory c)"

lemma goto_simps [simp]: "shStore (goto t pc c) = shStore c" "shFile (goto t pc c) = shFile c"
  "shHistory (goto t pc c) = shHistory c" "shPC (goto t pc c) = (shPC c)(t := pc)"
  by (simp_all add: goto_def)

lemma sharedInv_step: "reloadStep u c c' \<Longrightarrow> sharedInv u c \<Longrightarrow> sharedInv u c'"
proof (induction rule: reloadStep.induct)
  case (changed c f)
  then show ?case by (auto simp: sharedInv_def intro: storeFrom_mono)
qed (auto simp: sharedInv_def store_simps)

lemma sharedInv_run: "reloadRun u c c' \<Longrightarrow> sharedInv u c \<Longrightarrow> sharedInv u c'"
  by (induction rule: rtranclp_induct) (auto intro: sharedInv_step)

lemma sharedInv_init: "sharedInv u (initShared p f)"
  by (simp add: sharedInv_def initShared_def storeFrom_def NewNodeStore_def)

lemma goto_goto [simp]: "goto t q (goto t pc c) = goto t q c"
  by (simp add: goto_def)

lemma goto_store [simp]: "(goto t pc c)\<lparr>shStore := s\<rparr> = goto t pc (c\<lparr>shStore := s\<rparr>)"
  by (simp add: goto_def)

lemma goto_same: "shPC c t = pc \<Longrightarrow> goto t pc c = c"
  by (simp add: goto_def fun_upd_idem)

text \<open>The rest of an undisturbed call, once the contents are fetched.\<close>

lemma fetched_run:
  assumes "shPC c t = Idle" "storePath (shStore c) \<noteq> []"
  shows "reloadRun u (goto t (Fetched b) c) (c\<lparr>shStore := fst (ReloadNodes u m (Contents b) (shStore c))\<rparr>)"
proof -
  let ?s = "shStore c" and ?d = "sha256 (bytes_of b)"
  have idle: "goto t Idle (c\<lparr>shStore := s\<rparr>) = c\<lparr>shStore := s\<rparr>" for s by (rule goto_same) (simp add: assms)
  have home: "goto t Idle c = c" by (rule goto_same) (simp add: assms)
  show ?thesis
  proof (cases "storeLoaded ?s \<and> ?d = storeHash ?s")
    case True
    then have "reloadStep u (goto t (Fetched b) c) (goto t Idle (goto t (Fetched b) c))"
      by (intro reloadStep.same [where b = b]) simp_all
    then have "reloadRun u (goto t (Fetched b) c) c" unfolding goto_goto home by (rule r_into_rtranclp)
    moreover have "fst (ReloadNodes u m (Contents b) ?s) = ?s" using True assms(2) by (simp add: ReloadNodes_def)
    ultimately show ?thesis by simp
  next
    case False
    then have "reloadStep u (goto t (Fetched b) c) (goto t (Differs b) (goto t (Fetched b) c))"
      by (intro reloadStep.differs) simp_all
    moreover have "reloadRun u (goto t (Differs b) c) (c\<lparr>shStore := fst (ReloadNodes u m (Contents b) ?s)\<rparr>)"
    proof (cases "parseNodes u b")
      case (Inl err)
      let ?msg = "invalidMsg (storePath ?s) err"
      have "reloadStep u (goto t (Differs b) c) (goto t (Noting ?msg) c)"
        using reloadStep.invalid [of "goto t (Differs b) c" t b u err] Inl by simp
      moreover have "reloadStep u (goto t (Noting ?msg) c) (c\<lparr>shStore := fst (noteError ?msg ?s)\<rparr>)"
        using reloadStep.noted [of "goto t (Noting ?msg) c" t ?msg u] by (simp add: idle)
      ultimately have "reloadRun u (goto t (Differs b) c) (c\<lparr>shStore := fst (noteError ?msg ?s)\<rparr>)"
        by (rule converse_rtranclp_into_rtranclp [OF _ r_into_rtranclp])
      moreover have "fst (ReloadNodes u m (Contents b) ?s) = fst (noteError ?msg ?s)"
        using False assms(2) Inl by (auto simp: ReloadNodes_def noteError_def Let_def)
      ultimately show ?thesis by simp
    next
      case (Inr ns)
      have "reloadStep u (goto t (Differs b) c) (c\<lparr>shStore := commitNodes ns ?d ?s\<rparr>)"
        using reloadStep.commit [of "goto t (Differs b) c" t b u ns] Inr by (simp add: idle)
      then have "reloadRun u (goto t (Differs b) c) (c\<lparr>shStore := commitNodes ns ?d ?s\<rparr>)" by (rule r_into_rtranclp)
      moreover have "fst (ReloadNodes u m (Contents b) ?s) = commitNodes ns ?d ?s"
        using False assms(2) Inr by (auto simp: ReloadNodes_def Let_def)
      ultimately show ?thesis by simp
    qed
    ultimately show ?thesis unfolding goto_goto by (rule converse_rtranclp_into_rtranclp)
  qed
qed

section \<open>Properties\<close>

text \<open>
  C22. Keys are canonical: normalising is idempotent and blind to case and surrounding white space, and
  every notation of a six-octet MAC address that \<open>net.ParseMAC\<close> accepts has the lower-case colon form
  as its key.
\<close>

theorem normalizeKey_canonical:
  "normalizeKey (normalizeKey s) = normalizeKey s \<and> normalizeKey (toLower s) = normalizeKey s
    \<and> normalizeKey (trimSpace s) = normalizeKey s
    \<and> (\<forall>hw. parseMAC (trimSpace s) = Some hw \<and> length hw = 6 \<longrightarrow> normalizeKey s = macString hw)"
proof -
  have "normalizeKey s = macString hw" if "parseMAC (trimSpace s) = Some hw" "length hw = 6" for hw
    using that macString_not_Nil [OF that(2) parseMAC_octets [OF that(1)]]
      macString_round_trip(2) [OF that(2) parseMAC_octets [OF that(1)]]
    by (simp add: normalizeKey_def normalizeMAC_def)
  then show ?thesis by (simp, simp add: normalizeKey_def trimSpace_toLower)
qed

theorem normalizeKey_canonical_witness:
  "normalizeKey ''02-5E-1C-9A-47-D3'' = macString [0x02, 0x5E, 0x1C, 0x9A, 0x47, 0xD3]"
proof -
  have "parseMAC (trimSpace ''02-5E-1C-9A-47-D3'') = Some [0x02, 0x5E, 0x1C, 0x9A, 0x47, 0xD3]" by code_simp
  with normalizeKey_canonical [of "''02-5E-1C-9A-47-D3''"] show ?thesis by simp
qed

text \<open>
  C21. A bad file never replaces good data: \<open>Reload\<close> reports a change exactly when a file is
  configured, was read, is not the one already loaded, and decodes; then the table is the
  decoded document. In every other case the node table, its digest and the loaded flag are untouched.
\<close>

theorem reload_keeps_last_good:
  "case ReloadNodes unmarshal marshal file s of (s', (updated, err), logs) \<Rightarrow>
     storePath s' = storePath s
     \<and> (updated \<longleftrightarrow> storePath s \<noteq> [] \<and> (\<exists>b ns. file = Contents b
          \<and> \<not> (storeLoaded s \<and> sha256 (bytes_of b) = storeHash s) \<and> parseNodes unmarshal b = Inr ns))
     \<and> (if updated then err = None \<and> (\<exists>b. file = Contents b \<and> parseNodes unmarshal b = Inr (storeNodes s')
                \<and> storeHash s' = sha256 (bytes_of b)) \<and> storeLoaded s'
        else storeNodes s' = storeNodes s \<and> storeHash s' = storeHash s \<and> storeLoaded s' = storeLoaded s)"
  by (simp add: ReloadNodes_def noteError_def commitNodes_def Let_def split: FileRead.splits sum.splits)

text \<open>
  \<open>Reload\<close> is idempotent: running it again on the same file outcome changes no state, reports no
  change, repeats the error result and logs nothing, so a persistent failure is logged once.
\<close>

lemma reload_idempotent:
  "case ReloadNodes unmarshal marshal file s of (s', (updated, err), logs) \<Rightarrow>
     ReloadNodes unmarshal marshal file s' = (s', (False, err), [])"
  by (simp add: ReloadNodes_def noteError_def commitNodes_def Let_def missingMsg_def LenNodes_def
      split: FileRead.splits sum.splits)

text \<open>
  Loading a nodes document does not depend on the order in which the run time visits the decoded
  map, provided that no two keys of the document normalise to the same key; every entry is then found
  under every notation of its key.
\<close>

lemma normalizeEntries_order:
  assumes "distinct (map (normalizeKey \<circ> fst) m)" "distinct (map (normalizeKey \<circ> fst) m')" "set m = set m'"
  shows "mapGet (normalizeEntries m) (normalizeKey j) = mapGet (normalizeEntries m') (normalizeKey j)
    \<and> (\<forall>(k, v) \<in> set m. normalizeKey j = normalizeKey k \<longrightarrow> mapGet (normalizeEntries m) (normalizeKey j) = Some v)"
  using nodeStore.storeAll_order [OF wfStore_New assms] nodeStore.look_storeAll [OF wfStore_New assms(1)]
  by (auto simp: GetNode_entries)


text \<open>
  The logged counts are consistent: new size and removals balance old size and additions, and all
  three counts are zero exactly when every key has equal node data (as printed) in both tables.
\<close>

lemma diffNodes_counts:
  assumes "wfMap old" "wfMap cur" "diffNodes marshal old cur = (added, removed, updated)"
  shows "length cur + removed = length old + added
    \<and> (added = 0 \<and> removed = 0 \<and> updated = 0 \<longleftrightarrow>
       (\<forall>k. map_option marshal (mapGet old k) = map_option marshal (mapGet cur k)))"
proof -
  let ?a = "\<lambda>(k, v). mapGet old k = None" and ?r = "\<lambda>(k, v). mapGet cur k = None"
  let ?u = "\<lambda>(k, v). case mapGet old k of None \<Rightarrow> False | Some a \<Rightarrow> marshal a \<noteq> marshal v"
  have n: "added = length (filter ?a cur)" "removed = length (filter ?r old)" "updated = length (filter ?u cur)"
    using assms(3) unfolding diffNodes_def nodeEqual_def by simp_all
  have "length (filter ?a cur) + length (filter (\<lambda>(k, v). mapGet old k \<noteq> None) cur) = length cur"
    "length (filter ?r old) + length (filter (\<lambda>(k, v). mapGet cur k \<noteq> None) old) = length old"
    using length_filter_compl [of ?a cur] length_filter_compl [of ?r old] by (simp_all add: split_def)
  then have sizes: "length cur + removed = length old + added" using n common_keys [OF assms(1,2)] by simp
  have "(\<forall>v. mapGet cur k = Some v \<longrightarrow> mapGet old k \<noteq> None) \<and> (\<forall>v. mapGet old k = Some v \<longrightarrow> mapGet cur k \<noteq> None)
      \<and> (\<forall>v. mapGet cur k = Some v \<longrightarrow> \<not> ?u (k, v))
    \<longleftrightarrow> map_option marshal (mapGet old k) = map_option marshal (mapGet cur k)" for k
    by (cases "mapGet old k"; cases "mapGet cur k") simp_all
  then have "added = 0 \<and> removed = 0 \<and> updated = 0 \<longleftrightarrow>
      (\<forall>k. map_option marshal (mapGet old k) = map_option marshal (mapGet cur k))"
    unfolding n mapGet_filter_none [OF assms(1)] mapGet_filter_none [OF assms(2)]
    by (simp only: all_conj_distrib [symmetric] prod.case)
  with sizes show ?thesis by (rule conjI)
qed

text \<open>
  C6. Whatever the interleaving of concurrent \<open>Reload\<close> calls and changes of the file, the table
  that lookups see is empty (before the first load) or the decoding of one complete content that the
  file has had, and the recorded digest is the digest of that content.
\<close>

theorem concurrent_reload_consistent:
  assumes "reloadRun unmarshal (initShared p f) c"
  shows "storeFrom unmarshal (shHistory c) (shStore c)"
  using sharedInv_run [OF assms sharedInv_init] by (simp add: sharedInv_def)

theorem concurrent_reload_consistent_witness:
  "storeFrom (\<lambda>_. Inl ''bad'') {''x''}
    (fst (ReloadNodes (\<lambda>_. Inl ''bad'') Hostname (Contents ''x'') (NewNodeStore ''p'')))"
proof -
  let ?u = "\<lambda>_. Inl ''bad''" and ?c = "initShared ''p'' (Contents ''x'')"
  have idle: "shPC ?c 0 = Idle" "storePath (shStore ?c) \<noteq> []" "shFile ?c = Contents ''x''"
    by (simp_all add: initShared_def NewNodeStore_def)
  have "reloadRun ?u ?c (?c\<lparr>shStore := fst (ReloadNodes ?u Hostname (Contents ''x'') (shStore ?c))\<rparr>)"
    using reloadStep.read [OF idle(2,1,3)] fetched_run [OF idle(1,2)] by (rule converse_rtranclp_into_rtranclp)
  from concurrent_reload_consistent [OF this] show ?thesis by (simp add: initShared_def)
qed

text \<open>
  The sequential \<open>Reload\<close> is a run of the interleaved steps: a thread that is not disturbed reaches
  exactly the store that the function computes, and is idle again.
\<close>

lemma reload_refines_steps:
  assumes "shPC c t = Idle"
  shows "reloadRun unmarshal c (c\<lparr>shStore := fst (ReloadNodes unmarshal marshal (shFile c) (shStore c))\<rparr>)"
proof (cases "storePath (shStore c) = []")
  case True
  then show ?thesis by (simp add: ReloadNodes_def)
next
  case False
  let ?s = "shStore c"
  have idle: "goto t Idle (c\<lparr>shStore := s\<rparr>) = c\<lparr>shStore := s\<rparr>" for s by (rule goto_same) (simp add: assms)
  have noting: "reloadRun unmarshal (goto t (Noting msg) c) (c\<lparr>shStore := fst (noteError msg ?s)\<rparr>)" for msg
    using reloadStep.noted [of "goto t (Noting msg) c" t msg unmarshal] by (simp add: idle r_into_rtranclp)
  have first: "reloadRun unmarshal c d" if "reloadStep unmarshal c (goto t pc c)" "reloadRun unmarshal (goto t pc c) d" for pc d
    using that by (rule converse_rtranclp_into_rtranclp)
  show ?thesis
  proof (cases "shFile c")
    case NotExist
    with False show ?thesis
      using first [OF reloadStep.missing [OF False assms NotExist] noting] by (simp add: ReloadNodes_def noteError_def)
  next
    case (ReadErr err)
    with False show ?thesis
      using first [OF reloadStep.unreadable [OF False assms ReadErr] noting] by (simp add: ReloadNodes_def noteError_def)
  next
    case (Contents b)
    have "reloadRun unmarshal (goto t (Fetched b) c) (c\<lparr>shStore := fst (ReloadNodes unmarshal marshal (Contents b) ?s)\<rparr>)"
      by (rule fetched_run [OF assms False])
    with first [OF reloadStep.read [OF False assms Contents]] Contents show ?thesis by simp
  qed
qed

end
