(* ===== verification/Iso_Cache.thy ===== *)
theory Iso_Cache
  imports Node_Types
begin

text \<open>
  The in-memory ISO cache of \<^verbatim>\<open>images/maas-boot-proxy/iso_cache.go\<close>. Every method runs under the
  mutex and is one function on the state; the clock readings it makes are its arguments
  (\<open>time.Since\<close> first, then \<open>time.Now\<close>, in \<open>Get\<close>). A returned entry is the value the pointer has
  at that moment: later calls only change its \<open>LastAccess\<close>, which no caller reads.
\<close>

section \<open>Definitions\<close>

record ISOCache =
  isos :: "CachedISO gomap"
  ttl :: int
  stopped :: bool

definition minute :: int where "minute = 60 * 1000000000"

text \<open>\<open>NewISOCache\<close>: the cache and whether a reaper is started.\<close>

definition NewISOCache :: "int \<Rightarrow> int \<Rightarrow> ISOCache \<times> bool" where
  "NewISOCache d reaperInterval =
     (\<lparr>isos = [], ttl = (if d \<le> 0 then 30 * minute else d), stopped = False\<rparr>, reaperInterval > 0)"

definition cacheKey :: "string \<Rightarrow> string" where
  "cacheKey mac = toLower (trimSpace mac)"

definition GetISO :: "int \<Rightarrow> int \<Rightarrow> string \<Rightarrow> ISOCache \<Rightarrow> ISOCache \<times> CachedISO option" where
  "GetISO since now mac c = (case mapGet (isos c) (cacheKey mac) of
     None \<Rightarrow> (c, None)
   | Some entry \<Rightarrow>
       if since - LastAccess entry > ttl c then (c\<lparr>isos := mapDelete (cacheKey mac) (isos c)\<rparr>, None)
       else let entry' = entry\<lparr>LastAccess := now\<rparr>
            in (c\<lparr>isos := mapSet (cacheKey mac) entry' (isos c)\<rparr>, Some entry'))"

definition SetISO :: "int \<Rightarrow> string \<Rightarrow> string \<Rightarrow> bytes \<Rightarrow> ISOCache \<Rightarrow> ISOCache \<times> CachedISO" where
  "SetISO now mac configHash data c =
     (let entry = \<lparr>Data = data, ConfigHash = configHash, ModTime = now, LastAccess = now\<rparr>
      in (c\<lparr>isos := mapSet (cacheKey mac) entry (isos c)\<rparr>, entry))"

definition LenISO :: "ISOCache \<Rightarrow> nat" where
  "LenISO c = length (isos c)"

text \<open>\<open>Reap\<close> visits every entry once, deletes the expired ones and counts them.\<close>

definition ReapISO :: "int \<Rightarrow> ISOCache \<Rightarrow> ISOCache \<times> nat" where
  "ReapISO now c = fold (\<lambda>(mac, entry) (c', evicted).
       if now - LastAccess entry > ttl c then (c'\<lparr>isos := mapDelete mac (isos c')\<rparr>, evicted + 1) else (c', evicted))
     (isos c) (c, 0)"

text \<open>\<open>Close\<close> closes the stop channel once; the reaper handles ticks until it sees the channel closed.\<close>

definition CloseISO :: "ISOCache \<Rightarrow> ISOCache" where
  "CloseISO c = (if stopped c then c else c\<lparr>stopped := True\<rparr>)"

datatype ReaperEvent = Tick int | StopSeen

fun startReaper :: "ReaperEvent list \<Rightarrow> ISOCache \<Rightarrow> ISOCache \<times> string list" where
  "startReaper [] c = (c, [])"
| "startReaper (StopSeen # evs) c = (c, [])"
| "startReaper (Tick now # evs) c = (case ReapISO now c of (c', evicted) \<Rightarrow>
     (case startReaper evs c' of (c'', logs) \<Rightarrow>
       (c'', (if evicted > 0 then [''ISOCache reaper: evicted '' @ show_nat evicted @ '' expired ISO(s)''] else []) @ logs)))"

section \<open>Lemmas\<close>

definition wfCache :: "ISOCache \<Rightarrow> bool" where
  "wfCache c \<longleftrightarrow> wfMap (isos c) \<and> 0 \<le> ttl c"

definition expired :: "int \<Rightarrow> ISOCache \<Rightarrow> CachedISO \<Rightarrow> bool" where
  "expired now c entry \<longleftrightarrow> now - LastAccess entry > ttl c"

lemma cacheKey_idem [simp]: "cacheKey (cacheKey s) = cacheKey s"
  by (simp add: cacheKey_def trimSpace_toLower)

lemma mapDelete_filter: "mapDelete k m = filter (\<lambda>(j, v). k \<noteq> j) m"
  by (simp add: mapDelete_def AList.delete_eq)

lemma ReapISO_fold:
  fixes pre :: "CachedISO gomap" and P :: "CachedISO \<Rightarrow> bool"
  assumes "distinct (keys (pre @ rest))"
  shows "fold (\<lambda>(mac, entry) (c', evicted).
       if P entry then (c'\<lparr>isos := mapDelete mac (isos c')\<rparr>, evicted + 1) else (c', evicted)) rest
      (c\<lparr>isos := pre @ rest\<rparr>, n)
    = (c\<lparr>isos := pre @ filter (\<lambda>(k, e). \<not> P e) rest\<rparr>, n + length (filter (\<lambda>(k, e). P e) rest))"
  using assms
proof (induction rest arbitrary: pre n)
  case (Cons x rest)
  obtain k e where x: "x = (k, e)" by (cases x)
  have del: "mapDelete k (pre @ (k, e) # rest) = pre @ rest"
  proof -
    have "k \<notin> fst ` set pre" "k \<notin> fst ` set rest" using Cons.prems by (auto simp: x)
    then have "filter (\<lambda>(j, v). k \<noteq> j) pre = pre" "filter (\<lambda>(j, v). k \<noteq> j) rest = rest"
      by (auto simp: filter_id_conv rev_image_eqI)
    then show ?thesis by (simp add: mapDelete_filter)
  qed
  show ?case
  proof (cases "P e")
    case True
    with Cons.IH [of pre "n + 1"] Cons.prems show ?thesis by (simp add: x del)
  next
    case False
    with Cons.IH [of "pre @ [x]" n] Cons.prems show ?thesis by (simp add: x)
  qed
qed simp

lemma ReapISO_eq:
  assumes "wfCache c"
  shows "ReapISO now c = (c\<lparr>isos := filter (\<lambda>(k, e). \<not> expired now c e) (isos c)\<rparr>,
    length (filter (\<lambda>(k, e). expired now c e) (isos c)))"
  using ReapISO_fold [of "[]" "isos c" "expired now c" c 0] assms
  by (simp add: ReapISO_def expired_def [abs_def] wfCache_def wfMap_def)

lemma wfCache_New: "wfCache (fst (NewISOCache d i))"
  by (simp add: wfCache_def NewISOCache_def minute_def)

lemma wfCache_Get [simp]: "wfCache c \<Longrightarrow> wfCache (fst (GetISO t t' mac c))"
  by (auto simp: wfCache_def GetISO_def Let_def split: option.splits)

lemma wfCache_Set [simp]: "wfCache c \<Longrightarrow> wfCache (fst (SetISO t mac h d c))"
  by (auto simp: wfCache_def SetISO_def Let_def)

lemma wfCache_Reap [simp]: "wfCache c \<Longrightarrow> wfCache (fst (ReapISO t c))"
  by (auto simp: wfCache_def ReapISO_eq)

text \<open>What a lookup at one instant sees, and the contract of the cache at that instant.\<close>

definition peekISO :: "int \<Rightarrow> ISOCache \<Rightarrow> string \<Rightarrow> (string \<times> bytes) option" where
  "peekISO now c mac = map_option (\<lambda>e. (ConfigHash e, Data e)) (snd (GetISO now now mac c))"

definition storeISO :: "int \<Rightarrow> string \<Rightarrow> string \<times> bytes \<Rightarrow> ISOCache \<Rightarrow> ISOCache" where
  "storeISO now mac v c = fst (SetISO now mac (fst v) (snd v) c)"

interpretation isoCache: keyed_store cacheKey "peekISO now" "storeISO now" wfCache
  for now
proof
  show "cacheKey (cacheKey k) = cacheKey k" for k by simp
  show "wfCache (storeISO now k v s)" if "wfCache s" for s k v using that by (simp add: storeISO_def)
  show "peekISO now s (cacheKey k) = peekISO now s k" for s k by (simp add: peekISO_def GetISO_def Let_def split: option.splits)
  show "peekISO now (storeISO now k v s) j = (if cacheKey j = cacheKey k then Some v else peekISO now s j)"
    if "wfCache s" for s k v j
    using that by (auto simp: peekISO_def storeISO_def GetISO_def SetISO_def Let_def wfCache_def split: option.splits)
qed

section \<open>Traces of cache operations\<close>

text \<open>
  A trace of method calls with their clock readings. \<open>GotISO\<close> is what the caller of \<open>Get\<close> can
  observe; \<open>traceTimes\<close> lists the clock readings in order.
\<close>

datatype CacheOp = OpGet int int string | OpSet int string string bytes | OpReap int

fun applyOp :: "CacheOp \<Rightarrow> ISOCache \<Rightarrow> ISOCache \<times> CachedISO option list" where
  "applyOp (OpGet since now mac) c = (case GetISO since now mac c of (c', r) \<Rightarrow> (c', [r]))"
| "applyOp (OpSet now mac h d) c = (fst (SetISO now mac h d c), [])"
| "applyOp (OpReap now) c = (fst (ReapISO now c), [])"

fun runOps :: "CacheOp list \<Rightarrow> ISOCache \<Rightarrow> CachedISO option list" where
  "runOps [] c = []"
| "runOps (op # ops) c = (case applyOp op c of (c', rs) \<Rightarrow> rs @ runOps ops c')"

fun isReap :: "CacheOp \<Rightarrow> bool" where
  "isReap (OpReap _) = True"
| "isReap _ = False"

fun opTimes :: "CacheOp \<Rightarrow> int list" where
  "opTimes (OpGet since now _) = [since, now]"
| "opTimes (OpSet now _ _ _) = [now]"
| "opTimes (OpReap now) = [now]"

definition traceTimes :: "CacheOp list \<Rightarrow> int list" where
  "traceTimes ops = concat (map opTimes ops)"

text \<open>
  The simulation between a swept cache \<open>c\<close> and an unswept one \<open>c'\<close> at time \<open>now\<close>: they agree on every
  key, except for entries of \<open>c'\<close> that have expired.
\<close>

definition agree :: "int \<Rightarrow> int \<Rightarrow> CachedISO option \<Rightarrow> CachedISO option \<Rightarrow> bool" where
  "agree now d x y \<longleftrightarrow> x = y \<or> x = None \<and> (\<exists>e. y = Some e \<and> now - LastAccess e > d)"

definition sweptOf :: "int \<Rightarrow> ISOCache \<Rightarrow> ISOCache \<Rightarrow> bool" where
  "sweptOf now c c' \<longleftrightarrow> wfCache c \<and> wfCache c' \<and> ttl c = ttl c'
     \<and> (\<forall>k. agree now (ttl c') (mapGet (isos c) k) (mapGet (isos c') k))"

lemma agree_refl [simp]: "agree now d x x"
  by (simp add: agree_def)

lemma agree_later: "agree now d x y \<Longrightarrow> now \<le> later \<Longrightarrow> agree later d x y"
  by (auto simp: agree_def)

lemma sweptOf_later: "sweptOf now c c' \<Longrightarrow> now \<le> later \<Longrightarrow> sweptOf later c c'"
  unfolding sweptOf_def using agree_later by blast

lemma sweptOf_Get:
  assumes "sweptOf now c c'" "now \<le> since" "since \<le> t"
  shows "snd (GetISO since t mac c) = snd (GetISO since t mac c')
    \<and> sweptOf t (fst (GetISO since t mac c)) (fst (GetISO since t mac c'))"
proof -
  let ?k = "cacheKey mac"
  have wf: "wfCache (fst (GetISO since t mac c))" "wfCache (fst (GetISO since t mac c'))" and ttl: "ttl c = ttl c'"
    using assms(1) by (simp_all add: sweptOf_def)
  have late: "\<forall>k. agree t (ttl c') (mapGet (isos c) k) (mapGet (isos c') k)"
    using sweptOf_later [OF assms(1)] assms(2,3) by (simp add: sweptOf_def)
  have "agree since (ttl c') (mapGet (isos c) ?k) (mapGet (isos c') ?k)"
    using sweptOf_later [OF assms(1,2)] by (simp add: sweptOf_def)
  then consider (same) "mapGet (isos c) ?k = mapGet (isos c') ?k"
    | (gone) e where "mapGet (isos c) ?k = None" "mapGet (isos c') ?k = Some e" "since - LastAccess e > ttl c'"
    by (auto simp: agree_def)
  then show ?thesis
  proof cases
    case same
    with late ttl show ?thesis
      using wf unfolding sweptOf_def
      by (cases "mapGet (isos c') ?k") (simp_all add: GetISO_def Let_def)
  next
    case gone
    with late ttl show ?thesis using wf unfolding sweptOf_def by (simp add: GetISO_def)
  qed
qed

lemma sweptOf_Set:
  assumes "sweptOf now c c'" "now \<le> t"
  shows "sweptOf t (fst (SetISO t mac h d c)) (fst (SetISO t mac h d c'))"
  using sweptOf_later [OF assms] wfCache_Set [of c t mac h d] wfCache_Set [of c' t mac h d]
  unfolding sweptOf_def by (simp add: SetISO_def Let_def)

lemma sweptOf_Reap:
  assumes "sweptOf now c c'" "now \<le> t"
  shows "sweptOf t (fst (ReapISO t c)) c'"
proof -
  have s: "sweptOf t c c'" using assms by (rule sweptOf_later)
  then have wf: "wfMap (isos c)" "wfCache c" and ttl: "ttl c = ttl c'" by (simp_all add: sweptOf_def wfCache_def)
  have "agree t (ttl c') (mapGet (filter (\<lambda>(k, e). \<not> expired t c e) (isos c)) k) (mapGet (isos c') k)" for k
  proof -
    have "agree t (ttl c') (mapGet (isos c) k) (mapGet (isos c') k)" using s by (simp add: sweptOf_def)
    then show ?thesis
      by (cases "mapGet (isos c) k"; cases "mapGet (isos c') k")
        (simp_all add: mapGet_filter [OF wf(1)] agree_def expired_def ttl)
  qed
  then show ?thesis
    using s wfCache_Reap [OF wf(2), of t] by (simp add: sweptOf_def ReapISO_eq [OF wf(2)])
qed

lemma sweptOf_run:
  "sweptOf now c c' \<Longrightarrow> sorted (now # traceTimes ops) \<Longrightarrow> runOps ops c = runOps (filter (\<lambda>op. \<not> isReap op) ops) c'"
proof (induction ops arbitrary: now c c')
  case (Cons op ops)
  show ?case
  proof (cases op)
    case (OpGet since t mac)
    with Cons.prems have "now \<le> since" "since \<le> t" "sorted (t # traceTimes ops)"
      by (auto simp: traceTimes_def)
    with sweptOf_Get [OF Cons.prems(1), of since t mac] Cons.IH [of t] show ?thesis
      by (simp add: OpGet split_def)
  next
    case (OpSet t mac h d)
    with Cons.prems have "now \<le> t" "sorted (t # traceTimes ops)" by (auto simp: traceTimes_def)
    with sweptOf_Set [OF Cons.prems(1)] Cons.IH [of t] show ?thesis by (simp add: OpSet)
  next
    case (OpReap t)
    with Cons.prems have "now \<le> t" "sorted (t # traceTimes ops)" by (auto simp: traceTimes_def)
    with sweptOf_Reap [OF Cons.prems(1)] Cons.IH [of t] show ?thesis by (simp add: OpReap)
  qed
qed simp

section \<open>Properties\<close>

text \<open>
  C14. The reaper cannot be observed: on a clock that does not run backwards, every trace of cache
  operations returns the same \<open>Get\<close> results with all its sweeps left out. Sweeping only frees memory.
\<close>

theorem reap_invisible:
  assumes "wfCache c" "sorted (traceTimes ops)"
  shows "runOps ops c = runOps (filter (\<lambda>op. \<not> isReap op) ops) c"
proof (cases "traceTimes ops")
  case Nil
  then have "ops = []" by (cases ops; cases "hd ops") (auto simp: traceTimes_def)
  then show ?thesis by simp
next
  case (Cons t ts)
  have "sweptOf t c c" using assms(1) by (simp add: sweptOf_def)
  moreover have "sorted (t # traceTimes ops)" using assms(2) Cons by simp
  ultimately show ?thesis by (rule sweptOf_run)
qed

theorem reap_invisible_witness:
  "let c = fst (NewISOCache 10 1); ops = [OpSet 0 ''A'' ''h'' [1], OpReap 5, OpGet 9 9 ''a'', OpReap 18, OpGet 30 30 ''a'']
   in runOps ops c = runOps (filter (\<lambda>op. \<not> isReap op) ops) c"
  unfolding Let_def by (rule reap_invisible) (simp_all add: wfCache_New traceTimes_def)

text \<open>
  C24. Time to live: \<open>Get\<close> answers exactly when the key has an entry last used at most \<open>ttl\<close> ago; the
  answer is that entry with a renewed access time, and an expired entry is dropped. No other key is
  affected in either case.
\<close>

theorem get_iso_ttl:
  "case GetISO since now mac c of (c', r) \<Rightarrow>
     (r = (case mapGet (isos c) (cacheKey mac) of None \<Rightarrow> None
           | Some e \<Rightarrow> if since - LastAccess e \<le> ttl c then Some (e\<lparr>LastAccess := now\<rparr>) else None))
     \<and> ttl c' = ttl c \<and> mapGet (isos c') = (mapGet (isos c))(cacheKey mac := r)"
  by (auto simp: GetISO_def Let_def fun_eq_iff split: option.splits)

text \<open>
  A sweep removes exactly the expired entries and reports how many: what remains is fresh, nothing
  fresh is lost, and the count is the drop in length.
\<close>

lemma reap_exact:
  assumes "wfCache c"
  shows "case ReapISO now c of (c', evicted) \<Rightarrow>
     (\<forall>k. mapGet (isos c') k = (case mapGet (isos c) k of None \<Rightarrow> None
            | Some e \<Rightarrow> if now - LastAccess e > ttl c then None else Some e))
     \<and> LenISO c' + evicted = LenISO c"
proof -
  have wf: "wfMap (isos c)" using assms by (simp add: wfCache_def)
  have "length (filter (\<lambda>(k, e). \<not> expired now c e) (isos c)) + length (filter (\<lambda>(k, e). expired now c e) (isos c)) = length (isos c)"
    using sum_length_filter_compl [of "\<lambda>(k, e). expired now c e" "isos c"] by (simp add: split_def add.commute)
  then show ?thesis
    by (auto simp: ReapISO_eq [OF assms] mapGet_filter [OF wf] LenISO_def expired_def split: option.splits)
qed

text \<open>
  Entries stored under distinct names are all found again at that instant, under any
  spelling of the name that differs in case or surrounding white space only.
\<close>

lemma cache_store_lookup:
  assumes "wfCache c" "distinct (map (cacheKey \<circ> fst) kvs)" "(mac, h, d) \<in> set kvs" "cacheKey j = cacheKey mac"
  shows "peekISO now (fold (\<lambda>(k, h, d) c. fst (SetISO now k h d c)) kvs c) j = Some (h, d)"
  using isoCache.look_storeAll [OF assms(1,2), of mac "(h, d)" j now] assms(3,4)
  unfolding isoCache.storeAll_def by (simp add: storeISO_def [abs_def] split_def)

end
