(* ===== verification/Server_State.thy ===== *)
theory Server_State
  imports Nodes_Store Iso_Cache
begin

text \<open>
  The state of the boot proxy server and everything of \<^verbatim>\<open>images/maas-boot-proxy/main.go\<close> that keeps it up to
  date or reads it: start-up configuration, environment overrides, reloading of the config file, the watcher, the lookup
  of a node and the retry loop around it, and the rendering of a node as kernel arguments. Decoding JSON and
  parsing durations are parameters. The outcome of every file read and every clock reading is an argument of the step that makes it.
\<close>

section \<open>State\<close>

text \<open>Decoders and printers of package \<open>encoding/json\<close> for the types of the server.\<close>

record codec =
  unmarshalConfig :: "string \<Rightarrow> string + Config"
  unmarshalNodes :: "string \<Rightarrow> string + NodesFile"
  marshalNode :: "Node \<Rightarrow> string"

record Server =
  cfg :: Config
  cfgPath :: string
  cfgHash :: bytes
  cfgLoaded :: bool
  overrides :: Config
  srvNodes :: NodeStore
  missWait :: int
  isoCache :: ISOCache
  ipxeEFI :: bytes
  bootTime :: int

definition second :: int where "second = 1000000000"
definition defaultListenAddr :: string where "defaultListenAddr = '':8248''"
definition defaultIPXEEFIPath :: string where "defaultIPXEEFIPath = ''/ipxe.efi''"
definition defaultReloadInterval :: int where "defaultReloadInterval = 5 * second"
definition missPollInterval :: int where "missPollInterval = 500000000"

definition zeroConfig :: Config where
  "zeroConfig = \<lparr>RackUpstream = [], ProxyBase = [], OverlayURL = [], Rewrites = [], Nodes = []\<rparr>"

definition NewServer :: "int \<Rightarrow> Config \<Rightarrow> string \<Rightarrow> string \<Rightarrow> int \<Rightarrow> int \<Rightarrow> Server" where
  "NewServer now c path nodesPath d sweepInterval =
     \<lparr>cfg = c, cfgPath = path, cfgHash = replicate 32 0, cfgLoaded = False, overrides = zeroConfig,
      srvNodes = NewNodeStore nodesPath, missWait = 0, isoCache = fst (NewISOCache d sweepInterval),
      ipxeEFI = [], bootTime = now - now mod second\<rparr>"

section \<open>Configuration\<close>

definition env :: "(string \<Rightarrow> string) \<Rightarrow> string \<Rightarrow> string \<Rightarrow> string" where
  "env getenv k d = (if getenv k \<noteq> [] then getenv k else d)"

definition envDuration :: "(string \<Rightarrow> int option) \<Rightarrow> (string \<Rightarrow> string) \<Rightarrow> string \<Rightarrow> int \<Rightarrow> int" where
  "envDuration parseDuration getenv k d =
     (if getenv k \<noteq> [] then
        (case parseDuration (getenv k) of Some p \<Rightarrow> if p \<ge> 0 then p else d | None \<Rightarrow> d)
      else d)"

definition normalizeNodeKeys :: "Node gomap \<Rightarrow> Node gomap" where
  "normalizeNodeKeys m = fold (\<lambda>(k, v) out. mapSet (normalizeKey k) v out) m []"

definition loadConfigFile :: "codec \<Rightarrow> FileRead \<Rightarrow> Config option" where
  "loadConfigFile json file = (case file of
       Contents b \<Rightarrow> (case unmarshalConfig json b of
           Inl _ \<Rightarrow> None
         | Inr c \<Rightarrow> Some (c\<lparr>Nodes := normalizeNodeKeys (Nodes c)\<rparr>))
     | _ \<Rightarrow> None)"

definition getConfig :: "Server \<Rightarrow> Config" where
  "getConfig s = cfg s"

declare getConfig_def [simp]

definition applyOverrides :: "Config \<Rightarrow> Config \<Rightarrow> Config" where
  "applyOverrides c ov =
     (let c = (if RackUpstream ov \<noteq> [] then c\<lparr>RackUpstream := RackUpstream ov\<rparr> else c);
          c = (if ProxyBase ov \<noteq> [] then c\<lparr>ProxyBase := ProxyBase ov\<rparr> else c)
      in if OverlayURL ov \<noteq> [] then c\<lparr>OverlayURL := OverlayURL ov\<rparr> else c)"

definition reloadConfig :: "codec \<Rightarrow> FileRead \<Rightarrow> Server \<Rightarrow> Server \<times> string list" where
  "reloadConfig json file s =
     (if cfgPath s = [] then (s, [])
      else (case file of
          Contents b \<Rightarrow>
            (let sum = sha256 (bytes_of b) in
             if cfgLoaded s \<and> sum = cfgHash s then (s, [])
             else (case unmarshalConfig json b of
                 Inl err \<Rightarrow> (s, [''ignoring invalid config file '' @ cfgPath s @ '' (keeping previous config): '' @ err])
               | Inr c \<Rightarrow>
                   (let c = applyOverrides (c\<lparr>Nodes := normalizeNodeKeys (Nodes c)\<rparr>) (overrides s)
                    in (s\<lparr>cfg := c, cfgHash := sum, cfgLoaded := True\<rparr>,
                        [''config reloaded: '' @ show_nat (length (Nodes c)) @ '' static node(s), '' @
                         show_nat (length (Rewrites c)) @ '' rewrite(s)'']))))
        | _ \<Rightarrow> (s, [])))"

text \<open>\<open>Server.Reload\<close>, on what the two files hold when it reads them.\<close>

type_synonym files = "FileRead \<times> FileRead"

definition Reload :: "codec \<Rightarrow> files \<Rightarrow> Server \<Rightarrow> Server \<times> string list" where
  "Reload json fs s =
     (case reloadConfig json (fst fs) s of (s', l) \<Rightarrow>
       (case ReloadNodes (unmarshalNodes json) (marshalNode json) (snd fs) (srvNodes s') of (ns, _, l') \<Rightarrow>
         (s'\<lparr>srvNodes := ns\<rparr>, l @ l')))"

text \<open>\<open>Watch\<close> on the events its \<open>select\<close> receives, until the context is done; and the period of its ticker.\<close>

datatype WatchEvent = CtxDone | WatchTick files

definition watchInterval :: "int \<Rightarrow> int" where
  "watchInterval interval = (if interval \<le> 0 then defaultReloadInterval else interval)"

fun Watch :: "codec \<Rightarrow> WatchEvent list \<Rightarrow> Server \<Rightarrow> Server" where
  "Watch json [] s = s"
| "Watch json (CtxDone # evs) s = s"
| "Watch json (WatchTick fs # evs) s = Watch json evs (fst (Reload json fs s))"

section \<open>Lookup\<close>

definition lookup :: "Server \<Rightarrow> string \<Rightarrow> Node option" where
  "lookup s norm = (case GetNode (srvNodes s) norm of
       Some node \<Rightarrow> Some node
     | None \<Rightarrow> mapGet (Nodes (getConfig s)) norm)"

text \<open>
  One iteration of the retry loop meets: the files as its \<open>Reload\<close> finds them, the clock after
  the second lookup, and whether the context is done before the poll timer fires.
\<close>

record Poll =
  pollFiles :: files
  pollNow :: int
  pollDone :: bool

partial_function (option) resolveLoop ::
  "codec \<Rightarrow> (nat \<Rightarrow> Poll) \<Rightarrow> nat \<Rightarrow> int \<Rightarrow> string \<Rightarrow> Server \<Rightarrow> (Server \<times> Node option) option" where
  "resolveLoop json polls i deadline norm s =
     (case lookup s norm of
        Some node \<Rightarrow> Some (s, Some node)
      | None \<Rightarrow>
          (let s' = fst (Reload json (pollFiles (polls i)) s) in
           case lookup s' norm of
             Some node \<Rightarrow> Some (s', Some node)
           | None \<Rightarrow>
               if \<not> pollNow (polls i) < deadline then Some (s', None)
               else if pollDone (polls i) then Some (s', None)
               else resolveLoop json polls (Suc i) deadline norm s'))"

definition resolveNode :: "codec \<Rightarrow> int \<Rightarrow> (nat \<Rightarrow> Poll) \<Rightarrow> string \<Rightarrow> Server \<Rightarrow> (Server \<times> Node option) option" where
  "resolveNode json start polls mac s =
     (if normalizeKey mac = [] then Some (s, None)
      else resolveLoop json polls 0 (start + missWait s) (normalizeKey mac) s)"

section \<open>Kernel arguments\<close>

definition def :: "string \<Rightarrow> string \<Rightarrow> string" where
  "def v d = (if v = [] then d else v)"

definition dnsPart :: "Node \<Rightarrow> string" where
  "dnsPart n = (if DNS n \<noteq> [] \<and> DNS2 n \<noteq> [] then '':'' @ DNS n @ '':'' @ DNS2 n
     else if DNS n \<noteq> [] then '':'' @ DNS n else [])"

definition ipArg :: "Node \<Rightarrow> string \<Rightarrow> string" where
  "ipArg n vdev = ''ip='' @ IP n @ ''::'' @ GW n @ '':'' @ Netmask n @ '':'' @ Hostname n @ '':'' @ vdev @ '':none'' @ dnsPart n"

definition buildKernelNet :: "Node \<Rightarrow> string" where
  "buildKernelNet n =
     (if KernelNet n \<noteq> [] then KernelNet n
      else if bonded n then
        (let bond = (if BondName n = [] then ''bond0'' else BondName n);
             vdev = (if VLAN n \<noteq> [] then bond @ ''.'' @ VLAN n else bond)
         in ipArg n vdev @ '' gen_bond='' @ bond @ '' gen_members='' @ join (BondMembers n) '','' @
            '' gen_mode='' @ def (BondMode n) ''802.3ad'' @ '' gen_rate='' @ def (LACPRate n) ''fast'' @
            '' gen_hash='' @ def (HashPolicy n) ''layer3+4'' @
            (if VLAN n \<noteq> [] then '' gen_vlan='' @ VLAN n else []) @ '' network-config=disabled'')
      else
        (let dev = Dev n; vdev = (if VLAN n \<noteq> [] then dev @ ''.'' @ VLAN n else dev)
         in ipArg n vdev @ (if VLAN n \<noteq> [] then '' vlan='' @ vdev @ '':'' @ dev else []) @
            '' network-config=disabled''))"

section \<open>The invariant of the server\<close>

text \<open>
  Both tables have normalised keys, the environment settings are in force, the cache is well formed, and the retry
  window is not negative.
\<close>

definition inForce :: "Config \<Rightarrow> Config \<Rightarrow> bool" where
  "inForce ov c \<longleftrightarrow> (RackUpstream ov = [] \<or> RackUpstream c = RackUpstream ov) \<and> (ProxyBase ov = [] \<or> ProxyBase c = ProxyBase ov)
     \<and> (OverlayURL ov = [] \<or> OverlayURL c = OverlayURL ov)"

definition wfServer :: "Server \<Rightarrow> bool" where
  "wfServer s \<longleftrightarrow> wfStore (srvNodes s) \<and> wfMap (Nodes (cfg s)) \<and> (\<forall>k \<in> set (keys (Nodes (cfg s))). normalizeKey k = k)
     \<and> inForce (overrides s) (cfg s) \<and> wfCache (isoCache s) \<and> 0 \<le> missWait s"

text \<open>What no reload touches.\<close>

definition settings :: "Server \<Rightarrow> string \<times> Config \<times> string \<times> int \<times> ISOCache \<times> bytes \<times> int" where
  "settings s = (cfgPath s, overrides s, storePath (srvNodes s), missWait s, isoCache s, ipxeEFI s, bootTime s)"

lemma applyOverrides_simps [simp]:
  "RackUpstream (applyOverrides c ov) = (if RackUpstream ov \<noteq> [] then RackUpstream ov else RackUpstream c)"
  "ProxyBase (applyOverrides c ov) = (if ProxyBase ov \<noteq> [] then ProxyBase ov else ProxyBase c)"
  "OverlayURL (applyOverrides c ov) = (if OverlayURL ov \<noteq> [] then OverlayURL ov else OverlayURL c)"
  "Rewrites (applyOverrides c ov) = Rewrites c" "Nodes (applyOverrides c ov) = Nodes c"
  by (simp_all add: applyOverrides_def Let_def)

lemma inForce_apply: "inForce ov (applyOverrides c ov)"
  by (simp add: inForce_def)

lemma normalizeNodeKeys_eq: "normalizeNodeKeys m = normalizeEntries m"
  by (simp add: normalizeNodeKeys_def normalizeEntries_def)

lemma ReloadNodes_wf: "wfStore s \<Longrightarrow> wfStore (fst (ReloadNodes u mar file s))"
  by (simp add: ReloadNodes_def wfStore_def noteError_def commitNodes_def parseNodes_def Let_def normalizeEntries_wf
      del: set_map split: FileRead.splits sum.splits if_splits)

lemma ReloadNodes_path: "storePath (fst (ReloadNodes u mar file s)) = storePath s"
  by (simp add: ReloadNodes_def noteError_def commitNodes_def Let_def split: FileRead.splits sum.splits)

lemma Reload_eq: "fst (Reload json fs s) =
    (fst (reloadConfig json (fst fs) s))\<lparr>srvNodes := fst (ReloadNodes (unmarshalNodes json) (marshalNode json) (snd fs) (srvNodes s))\<rparr>"
proof -
  have "srvNodes (fst (reloadConfig json (fst fs) s)) = srvNodes s"
    by (simp add: reloadConfig_def Let_def split: FileRead.splits sum.splits)
  then show ?thesis by (simp add: Reload_def split: prod.splits) (metis fst_conv)
qed

lemma reloadConfig_wf:
  assumes "wfServer s"
  shows "wfServer (fst (reloadConfig json file s))"
  using assms
  by (simp add: reloadConfig_def wfServer_def Let_def inForce_apply normalizeNodeKeys_eq normalizeEntries_wf del: set_map
      split: FileRead.splits sum.splits)

lemma Reload_wf [simp]: "wfServer s \<Longrightarrow> wfServer (fst (Reload json fs s))"
  using reloadConfig_wf [of s json "fst fs"] ReloadNodes_wf [of "srvNodes s"]
  unfolding Reload_eq by (simp add: wfServer_def)

lemma Reload_settings [simp]: "settings (fst (Reload json fs s)) = settings s"
  unfolding Reload_eq settings_def
  by (simp add: ReloadNodes_path) (simp add: reloadConfig_def Let_def split: FileRead.splits sum.splits)

lemma Watch_wf: "wfServer s \<Longrightarrow> wfServer (Watch json evs s) \<and> settings (Watch json evs s) = settings s"
  by (induction json evs s rule: Watch.induct) simp_all

section \<open>The retry loop\<close>

text \<open>The clock moves on by the poll interval at least between two iterations.\<close>

definition paced :: "(nat \<Rightarrow> Poll) \<Rightarrow> bool" where
  "paced polls \<longleftrightarrow> (\<forall>i. pollNow (polls i) + missPollInterval \<le> pollNow (polls (Suc i)))"

text \<open>The state after the first reloads of the loop, if no lookup ends it.\<close>

fun reloads :: "codec \<Rightarrow> (nat \<Rightarrow> Poll) \<Rightarrow> nat \<Rightarrow> Server \<Rightarrow> Server" where
  "reloads json polls 0 s = s"
| "reloads json polls (Suc n) s = fst (Reload json (pollFiles (polls n)) (reloads json polls n s))"

lemma reloads_wf: "wfServer s \<Longrightarrow> wfServer (reloads json polls n s) \<and> settings (reloads json polls n s) = settings s"
  by (induction n) simp_all

lemma resolveLoop_ends:
  assumes "paced polls" "deadline \<le> pollNow (polls i) + int n * missPollInterval"
  shows "\<exists>k r. resolveLoop json polls i deadline norm (reloads json polls i s) = Some (reloads json polls k s, r)
    \<and> i \<le> k \<and> k \<le> i + n + 1 \<and> r = lookup (reloads json polls k s) norm
    \<and> (r = None \<longrightarrow> 0 < k \<and> (deadline \<le> pollNow (polls (k - 1)) \<or> pollDone (polls (k - 1))))"
  using assms(2)
proof (induction n arbitrary: i)
  case 0
  then show ?case
    by (subst resolveLoop.simps)
      (auto simp: Let_def split: option.splits intro: exI [of _ i] exI [of _ "Suc i"])
next
  case (Suc n)
  let ?s = "reloads json polls"
  show ?case
  proof (cases "lookup (?s i s) norm")
    case (Some node)
    then show ?thesis by (subst resolveLoop.simps) (auto intro!: exI [of _ i])
  next
    case None
    show ?thesis
    proof (cases "lookup (?s (Suc i) s) norm = None \<and> pollNow (polls i) < deadline \<and> \<not> pollDone (polls i)")
      case False
      then show ?thesis
        using None by (subst resolveLoop.simps) (auto simp: Let_def split: option.splits intro!: exI [of _ "Suc i"])
    next
      case True
      have "deadline \<le> pollNow (polls (Suc i)) + int n * missPollInterval"
        using Suc.prems assms(1) [unfolded paced_def, rule_format, of i] by (simp add: algebra_simps)
      from Suc.IH [OF this] obtain k r where
        "resolveLoop json polls (Suc i) deadline norm (?s (Suc i) s) = Some (?s k s, r)" "Suc i \<le> k" "k \<le> Suc i + n + 1"
        "r = lookup (?s k s) norm" "r = None \<longrightarrow> 0 < k \<and> (deadline \<le> pollNow (polls (k - 1)) \<or> pollDone (polls (k - 1)))"
        by (elim exE conjE)
      then show ?thesis
        using True None by (subst resolveLoop.simps) (auto simp: Let_def intro!: exI [of _ k])
    qed
  qed
qed

lemma resolveNode_ends:
  assumes "wfServer s" "paced polls" "start \<le> pollNow (polls 0)"
  shows "\<exists>k. resolveNode json start polls mac s =
      Some (reloads json polls k s, if normalizeKey mac = [] then None else lookup (reloads json polls k s) (normalizeKey mac))
    \<and> int k \<le> missWait s div missPollInterval + 2 \<and> wfServer (reloads json polls k s)
    \<and> (normalizeKey mac \<noteq> [] \<and> lookup (reloads json polls k s) (normalizeKey mac) = None \<longrightarrow>
        0 < k \<and> (start + missWait s \<le> pollNow (polls (k - 1)) \<or> pollDone (polls (k - 1))))"
proof (cases "normalizeKey mac = []")
  case True
  moreover have "0 \<le> missWait s div missPollInterval" using assms(1) by (simp add: wfServer_def missPollInterval_def pos_imp_zdiv_nonneg_iff)
  ultimately show ?thesis using assms(1) by (intro exI [of _ 0]) (simp add: resolveNode_def)
next
  case False
  let ?n = "nat (missWait s div missPollInterval) + 1"
  have q: "0 \<le> missWait s div missPollInterval" using assms(1) by (simp add: wfServer_def missPollInterval_def pos_imp_zdiv_nonneg_iff)
  have "missWait s mod missPollInterval < missPollInterval" by (simp add: missPollInterval_def)
  then have "missWait s \<le> (1 + missWait s div missPollInterval) * missPollInterval"
    using div_mult_mod_eq [of "missWait s" missPollInterval] unfolding distrib_right by linarith
  then have "start + missWait s \<le> pollNow (polls 0) + int ?n * missPollInterval" using assms(3) q by simp
  from resolveLoop_ends [OF assms(2) this, of json "normalizeKey mac" s] obtain k r where
    "resolveLoop json polls 0 (start + missWait s) (normalizeKey mac) s = Some (reloads json polls k s, r)" "k \<le> 0 + ?n + 1"
    "r = lookup (reloads json polls k s) (normalizeKey mac)"
    "r = None \<longrightarrow> 0 < k \<and> (start + missWait s \<le> pollNow (polls (k - 1)) \<or> pollDone (polls (k - 1)))"
    unfolding reloads.simps by (elim exE conjE)
  with False q reloads_wf [OF assms(1), of json polls k] show ?thesis
    by (intro exI [of _ k]) (simp add: resolveNode_def)
qed

section \<open>Lemmas on kernel arguments\<close>

definition plainField :: "string \<Rightarrow> bool" where
  "plainField s \<longleftrightarrow> CHR '':'' \<notin> set s \<and> CHR '' '' \<notin> set s"

definition netDevice :: "Node \<Rightarrow> string" where
  "netDevice n = (let d = (if bonded n then if BondName n = [] then ''bond0'' else BondName n else Dev n)
     in if VLAN n = [] then d else d @ ''.'' @ VLAN n)"

definition nameServers :: "Node \<Rightarrow> string list" where
  "nameServers n = (if DNS n = [] then [] else DNS n # (if DNS2 n = [] then [] else [DNS2 n]))"

lemma buildKernelNet_parts:
  assumes "KernelNet n = []"
  shows "\<exists>mid. buildKernelNet n = ipArg n (netDevice n) @ '' '' @ mid @ '' network-config=disabled'' \<or>
      buildKernelNet n = ipArg n (netDevice n) @ '' network-config=disabled''"
proof (cases "bonded n")
  case True
  show ?thesis using assms True by (simp add: buildKernelNet_def netDevice_def Let_def)
next
  case False
  show ?thesis
    using assms False by (cases "VLAN n = []") (simp_all add: buildKernelNet_def netDevice_def Let_def)
qed

lemma splitOn_last: "c \<notin> set t \<Longrightarrow> last (splitOn c (x @ c # t)) = t"
  by (simp add: splitOn_concat)

text \<open>A server, a decoder that takes the text as the upstream, and a clock, for the examples below.\<close>

definition sampleCodec :: codec where
  "sampleCodec = \<lparr>unmarshalConfig = (\<lambda>b. Inr (zeroConfig\<lparr>RackUpstream := b\<rparr>)), unmarshalNodes = Inl, marshalNode = IP\<rparr>"

definition samplePolls :: "nat \<Rightarrow> Poll" where
  "samplePolls i = \<lparr>pollFiles = (NotExist, NotExist), pollNow = int i * missPollInterval, pollDone = False\<rparr>"

definition sampleServer :: Server where
  "sampleServer = NewServer 0 zeroConfig ''config.json'' ''nodes.json'' 0 0"

lemma sampleServer_wf: "wfServer sampleServer"
  by (simp add: sampleServer_def wfServer_def NewServer_def zeroConfig_def wfStore_New inForce_def wfCache_New)

section \<open>Properties\<close>

text \<open>
  The config file is replaced only by a good one: \<open>reloadConfig\<close> changes the server exactly when a path is configured
  and the file was read, is not the one in force and decodes; then the configuration is the decoded document with
  normalised node keys and the environment settings on top. Otherwise the whole server is unchanged.
\<close>

lemma config_keeps_last_good:
  "case reloadConfig json file s of (s', logs) \<Rightarrow>
     settings s' = settings s \<and> srvNodes s' = srvNodes s
     \<and> (if cfgPath s \<noteq> [] \<and> (\<exists>b c. file = Contents b \<and> \<not> (cfgLoaded s \<and> sha256 (bytes_of b) = cfgHash s) \<and> unmarshalConfig json b = Inr c)
        then \<exists>b c. file = Contents b \<and> unmarshalConfig json b = Inr c \<and> cfgLoaded s' \<and> cfgHash s' = sha256 (bytes_of b)
          \<and> cfg s' = applyOverrides (c\<lparr>Nodes := normalizeNodeKeys (Nodes c)\<rparr>) (overrides s)
        else s' = s)"
  by (simp add: reloadConfig_def settings_def Let_def split: FileRead.splits sum.splits)

text \<open>
  Whatever the files hold while the watcher runs, the server keeps its invariant (distinct, normalised node keys
  in both tables, a well-formed cache), the settings given by the environment stay in force over the
  config file, and the watcher changes nothing but the configuration and the node table.
\<close>

lemma watch_invariant:
  assumes "wfServer s"
  shows "wfServer (Watch json evs s) \<and> inForce (overrides s) (cfg (Watch json evs s)) \<and> settings (Watch json evs s) = settings s"
proof -
  have "settings (Watch json evs s) = settings s" "wfServer (Watch json evs s)" using Watch_wf [OF assms] by auto
  moreover from this(1) have "overrides (Watch json evs s) = overrides s" by (simp add: settings_def)
  ultimately show ?thesis by (simp add: wfServer_def)
qed

text \<open>
  C12. Looking up a node always ends: while the clock advances by the poll interval between iterations, \<open>resolveNode\<close> returns
  after at most \<open>missWait / missPollInterval + 2\<close> reloads. Its answer is the entry of the tables it leaves behind,
  the nodes file before the static configuration, so a node that appears in a file during the wait is found; a miss
  is reported only after the window is over or the request is cancelled.
\<close>

theorem resolve_returns:
  assumes "wfServer s" "paced polls" "start \<le> pollNow (polls 0)"
  shows "\<exists>k. resolveNode json start polls mac s =
      Some (reloads json polls k s, if normalizeKey mac = [] then None else lookup (reloads json polls k s) (normalizeKey mac))
    \<and> int k \<le> missWait s div missPollInterval + 2 \<and> wfServer (reloads json polls k s)
    \<and> (normalizeKey mac \<noteq> [] \<and> lookup (reloads json polls k s) (normalizeKey mac) = None \<longrightarrow>
        0 < k \<and> (start + missWait s \<le> pollNow (polls (k - 1)) \<or> pollDone (polls (k - 1))))"
  using assms by (rule resolveNode_ends)

theorem resolve_returns_witness:
  "\<exists>k. resolveNode sampleCodec 0 samplePolls ''aa'' sampleServer =
      Some (reloads sampleCodec samplePolls k sampleServer,
        if normalizeKey ''aa'' = [] then None else lookup (reloads sampleCodec samplePolls k sampleServer) (normalizeKey ''aa''))
    \<and> int k \<le> missWait sampleServer div missPollInterval + 2 \<and> wfServer (reloads sampleCodec samplePolls k sampleServer)
    \<and> (normalizeKey ''aa'' \<noteq> [] \<and> lookup (reloads sampleCodec samplePolls k sampleServer) (normalizeKey ''aa'') = None \<longrightarrow>
        0 < k \<and> (0 + missWait sampleServer \<le> pollNow (samplePolls (k - 1)) \<or> pollDone (samplePolls (k - 1))))"
  by (rule resolve_returns)
    (simp_all add: sampleServer_wf paced_def samplePolls_def algebra_simps)

text \<open>
  C32. The generated kernel arguments follow the \<open>ip=\<close> syntax of the kernel: for a node without its own argument text
  and with fields free of colons and blanks, the first word splits at its colons into the client address, an empty
  server, the gateway, the mask, the host name, the bond or interface with its VLAN, \<open>none\<close>, and the name
  servers; the last word turns off the network configuration of cloud-init.
\<close>

theorem kernel_net_fields:
  assumes "KernelNet n = []"
    and "list_all plainField [IP n, GW n, Netmask n, Hostname n, VLAN n, Dev n, BondName n, DNS n, DNS2 n]"
  shows "\<exists>f ws. splitOn (CHR '' '') (buildKernelNet n) = (''ip='' @ f) # ws
    \<and> splitOn (CHR '':'') f = [IP n, [], GW n, Netmask n, Hostname n, netDevice n, ''none''] @ nameServers n
    \<and> last ws = ''network-config=disabled''"
proof -
  let ?f = "drop 3 (ipArg n (netDevice n))"
  obtain mid where net: "buildKernelNet n = ipArg n (netDevice n) @ '' '' @ mid @ '' network-config=disabled'' \<or>
      buildKernelNet n = ipArg n (netDevice n) @ '' network-config=disabled''"
    using assms(1) buildKernelNet_parts [of n] by blast
  have dev: "plainField (netDevice n)" using assms(2) by (auto simp: netDevice_def plainField_def Let_def)
  have f: "ipArg n (netDevice n) = ''ip='' @ ?f" by (simp add: ipArg_def)
  have "CHR '' '' \<notin> set (ipArg n (netDevice n))"
    using assms(2) dev by (auto simp: ipArg_def dnsPart_def plainField_def)
  then have words: "splitOn (CHR '' '') (ipArg n (netDevice n) @ CHR '' '' # r) = ipArg n (netDevice n) # splitOn (CHR '' '') r" for r
    by (rule splitOn_sep)
  have "splitOn (CHR '':'') ?f = [IP n, [], GW n, Netmask n, Hostname n, netDevice n, ''none''] @ nameServers n"
    using assms(2) dev by (simp add: ipArg_def dnsPart_def nameServers_def plainField_def)
  then show ?thesis
    using net words f splitOn_last [of "CHR '' ''" "''network-config=disabled''"] by fastforce
qed

theorem kernel_net_fields_witness:
  "\<exists>f ws. splitOn (CHR '' '') (buildKernelNet (zeroNode\<lparr>IP := ''192.0.2.10'', Netmask := ''255.255.255.0'', GW := ''192.0.2.1'', Dev := ''eno1'',
        VLAN := ''7'', DNS := ''192.0.2.53''\<rparr>)) = (''ip='' @ f) # ws
    \<and> splitOn (CHR '':'') f = [''192.0.2.10'', [], ''192.0.2.1'', ''255.255.255.0'', [], ''eno1.7'', ''none'', ''192.0.2.53'']
    \<and> last ws = ''network-config=disabled''"
  using kernel_net_fields [of "zeroNode\<lparr>IP := ''192.0.2.10'', Netmask := ''255.255.255.0'', GW := ''192.0.2.1'', Dev := ''eno1'',
        VLAN := ''7'', DNS := ''192.0.2.53''\<rparr>"]
  by (simp add: zeroNode_def plainField_def netDevice_def nameServers_def bonded_def)

end
