(* ===== verification/Fat_Image.thy ===== *)
theory Fat_Image
  imports Go_Prelude
begin

unbundle bit_operations_syntax

named_theorems nibbles

text \<open>
  The FAT12 EFI System Partition composer of \<^verbatim>\<open>images/maas-boot-proxy/isoimage.go\<close>
  (\<open>shortName\<close>, \<open>fatDirEntry\<close>, \<open>fatLFNEntry\<close>, \<open>setFAT12\<close>, \<open>buildESPImage\<close>) and, as its
  specification, the independent FAT12 reader of \<^verbatim>\<open>isoimage_test.go\<close> (\<open>readFAT12\<close>).
  Every index and slice operation that can leave its range is a \<open>Panic\<close> of the model, so that
  \<open>buildESPImage\<close> returning an image is itself a theorem.

  Go's \<open>int\<close> values are lengths and offsets here, never negative, and are natural numbers; the
  conversions \<open>uint16\<close>, \<open>uint32\<close> and \<open>byte\<close> truncate as in the source.
\<close>

section \<open>Definitions\<close>

definition fatSectorSize :: nat where [simp]: "fatSectorSize = 512"
definition fatClusterSectors :: nat where [simp]: "fatClusterSectors = 4"
definition fatClusterSize :: nat where [simp]: "fatClusterSize = fatSectorSize * fatClusterSectors"
definition fatRootEntries :: nat where [simp]: "fatRootEntries = 512"
definition fatRootSectors :: nat where [simp]: "fatRootSectors = fatRootEntries * 32 div fatSectorSize"
definition fatMaxClusters :: nat where [simp]: "fatMaxClusters = 4084"
definition fatDate :: u16 where
  [simp]: "fatDate = push_bit 9 (2000 - 1980) OR push_bit 5 1 OR 1"
definition attrDir :: byte where [simp]: "attrDir = 0x10"
definition attrLFN :: byte where [simp]: "attrLFN = 0x0F"
definition autoexecName :: string where "autoexecName = ''autoexec.ipxe''"

text \<open>The fixed array \<open>[11]byte\<close>: blanks, then \<open>copy\<close> into \<open>n[:8]\<close> and \<open>n[8:]\<close>.\<close>

definition shortName :: "string \<Rightarrow> string \<Rightarrow> bytes" where
  "shortName base ext =
     wr 8 (take 3 (bytes_of ext)) (wr 0 (take 8 (bytes_of base)) (replicate 11 0x20))"

definition fatDirEntry :: "bytes \<Rightarrow> byte \<Rightarrow> u16 \<Rightarrow> u32 \<Rightarrow> bytes outcome" where
  "fatDirEntry name attr first sz = run
     [copyTo 0 name,
      put 11 [attr],
      put 16 (le16 fatDate),
      put 18 (le16 fatDate),
      put 24 (le16 fatDate),
      put 26 (le16 first),
      put 28 (le32 sz)] (replicate 32 0)"

text \<open>The checksum of the short name that a long-file-name entry carries.\<close>

definition lfnChecksum :: "bytes \<Rightarrow> byte" where
  "lfnChecksum short = foldl (\<lambda>sum c. push_bit 7 (sum AND 1) + drop_bit 1 sum + c) 0 short"

text \<open>
  \<open>utf16.Encode([]rune(long))\<close> on an ASCII name (the composer only passes \<open>autoexecName\<close>):
  one code unit per character.
\<close>

definition utf16Encode :: "string \<Rightarrow> u16 list" where
  "utf16Encode long = map of_char long"

definition lfnChars :: "u16 list \<Rightarrow> u16 list" where
  "lfnChars u = map (\<lambda>i. if i < length u then u ! i else if i = length u then 0 else 0xFFFF) [0..<13]"

text \<open>The byte offsets of the thirteen characters: the slots \<open>{1, 5}, {14, 6}, {28, 2}\<close>.\<close>

definition lfnSlots :: "nat list" where
  "lfnSlots = concat (map (\<lambda>(s, n). map (\<lambda>i. s + 2 * i) [0..<n]) [(1, 5), (14, 6), (28, 2)])"

definition fatLFNEntry :: "string \<Rightarrow> bytes \<Rightarrow> bytes outcome" where
  "fatLFNEntry long short = run
     ([put 0 [0x41],
       put 11 [attrLFN],
       put 13 [lfnChecksum short]] @
      map (\<lambda>(off, c). put off (le16 c)) (zip lfnSlots (lfnChars (utf16Encode long))))
     (replicate 32 0)"

definition setFAT12 :: "nat \<Rightarrow> u16 \<Rightarrow> stmt" where
  "setFAT12 i v fat =
     (let off = i * 3 div 2 in
      if off + 1 < length fat then
        Ok (if i mod 2 = 0
            then fat[off := ucast v,
                     off + 1 := (fat ! (off + 1) AND 0xF0) OR (ucast (drop_bit 8 v) AND 0x0F)]
            else fat[off := (fat ! off AND 0x0F) OR push_bit 4 (ucast (v AND 0x0F)),
                     off + 1 := ucast (drop_bit 4 v)])
      else Panic)"

text \<open>The closures of \<open>buildESPImage\<close>: \<open>chainLen\<close>, \<open>chain\<close>, \<open>cluster\<close> and \<open>put\<close>.\<close>

definition chainLen :: "nat \<Rightarrow> nat" where
  "chainLen n = (let c = (n + fatClusterSize - 1) div fatClusterSize in if c = 0 then 1 else c)"

definition chain :: "nat \<Rightarrow> nat \<Rightarrow> stmt" where
  "chain first n = run (map (\<lambda>i. setFAT12 (first + i)
     (if i = n - 1 then 0xFFF else of_nat (first + i + 1))) [0..<n])"

definition clusterOff :: "nat \<Rightarrow> nat \<Rightarrow> nat" where
  "clusterOff dataStart n = (dataStart + (n - 2) * fatClusterSectors) * fatSectorSize"

primrec putEntries :: "nat \<Rightarrow> bytes list \<Rightarrow> stmt" where
  "putEntries off [] b = Ok b"
| "putEntries off (e # es) b =
     obind (copyTo off e b) (putEntries (off + min (length e) (length b - off)) es)"

primrec collect :: "'a outcome list \<Rightarrow> 'a list outcome" where
  "collect [] = Ok []"
| "collect (r # rs) = obind r (\<lambda>x. obind (collect rs) (\<lambda>xs. Ok (x # xs)))"

definition putDir :: "nat \<Rightarrow> bytes outcome list \<Rightarrow> stmt" where
  "putDir off entries b = obind (collect entries) (\<lambda>es. if off \<le> length b then putEntries off es b else Panic)"

definition bootSector :: "nat \<Rightarrow> nat \<Rightarrow> stmt" where
  "bootSector totalSectors fatSectors = run
     [copyTo 0 [0xEB, 0x3C, 0x90],
      copyTo 3 (bytes_of ''IPXEBOOT''),
      put 11 (le16 (of_nat fatSectorSize)),
      put 13 [of_nat fatClusterSectors],
      put 14 (le16 1),
      put 16 [2],
      put 17 (le16 (of_nat fatRootEntries)),
      put 19 (le16 (of_nat totalSectors)),
      put 21 [0xF8],
      put 22 (le16 (of_nat fatSectors)),
      put 24 (le16 32),
      put 26 (le16 64),
      put 36 [0x80],
      put 38 [0x29],
      put 39 (le32 0x1A2B3C4D),
      copyTo 43 (bytes_of ''IPXEBOOT   ''),
      copyTo 54 (bytes_of ''FAT12   ''),
      put 510 [0x55], put 511 [0xAA]]"

definition fatTable :: "nat \<Rightarrow> nat \<Rightarrow> nat \<Rightarrow> nat \<Rightarrow> nat \<Rightarrow> bytes outcome" where
  "fatTable fatSectors efiFirst efiCl scriptFirst scriptCl = run
     [setFAT12 0 0xFF8,
      setFAT12 1 0xFFF,
      setFAT12 2 0xFFF,
      setFAT12 3 0xFFF,
      chain efiFirst efiCl,
      chain scriptFirst scriptCl] (replicate (fatSectors * fatSectorSize) 0)"

definition buildESPImage :: "bytes \<Rightarrow> bytes \<Rightarrow> bytes outcome" where
  "buildESPImage efi script =
     (if length script = 0 then Err ''empty iPXE script'' else
      let efiCl = chainLen (length efi);
          scriptCl = chainLen (length script);
          efiDir = 2; bootDir = 3;
          efiFirst = 4;
          scriptFirst = efiFirst + efiCl;
          clusters = scriptFirst + scriptCl - 2
      in if clusters > fatMaxClusters
         then Err (''ESP content needs '' @ show_nat clusters @ '' clusters, FAT12 limit is '' @
                   show_nat fatMaxClusters)
         else
      let fatBytes = ((clusters + 2) * 3 + 1) div 2;
          fatSectors = (fatBytes + fatSectorSize - 1) div fatSectorSize;
          rootStart = 1 + 2 * fatSectors;
          dataStart = rootStart + fatRootSectors;
          totalSectors = dataStart + clusters * fatClusterSectors;
          dot = shortName ''.'' [];
          dotdot = shortName ''..'' [];
          scriptShort = shortName ''AUTOEXEC'' ''IPX''
      in obind (fatTable fatSectors efiFirst efiCl scriptFirst scriptCl) (\<lambda>fat. run
           [window 0 fatSectorSize (bootSector totalSectors fatSectors),
            copyTo fatSectorSize fat,
            copyTo ((1 + fatSectors) * fatSectorSize) fat,
            putDir (rootStart * fatSectorSize)
              [fatLFNEntry autoexecName scriptShort,
               fatDirEntry scriptShort 0x20 (of_nat scriptFirst) (of_nat (length script)),
               fatDirEntry (shortName ''EFI'' []) attrDir (of_nat efiDir) 0],
            putDir (clusterOff dataStart efiDir)
              [fatDirEntry dot attrDir (of_nat efiDir) 0,
               fatDirEntry dotdot attrDir 0 0,
               fatDirEntry (shortName ''BOOT'' []) attrDir (of_nat bootDir) 0],
            putDir (clusterOff dataStart bootDir)
              [fatDirEntry dot attrDir (of_nat bootDir) 0,
               fatDirEntry dotdot attrDir (of_nat efiDir) 0,
               fatDirEntry (shortName ''BOOTX64'' ''EFI'') 0x20 (of_nat efiFirst) (of_nat (length efi))],
            copyTo (clusterOff dataStart efiFirst) efi,
            copyTo (clusterOff dataStart scriptFirst) script]
           (replicate (totalSectors * fatSectorSize) 0)))"

section \<open>The independent reader\<close>

text \<open>
  \<open>readFAT12\<close> of the test suite. \<open>None\<close> is a reader failure: a bad boot sector, a missing name, a
  checksum mismatch, a path through a file, or a read past the end of the image.
\<close>

definition slice :: "nat \<Rightarrow> nat \<Rightarrow> bytes \<Rightarrow> bytes option" where
  "slice off n b = (if off + n \<le> length b then Some (rd off n b) else None)"

definition u16At :: "nat \<Rightarrow> bytes \<Rightarrow> nat option" where
  "u16At off b = map_option (\<lambda>s. unat (of_le16 s)) (slice off 2 b)"

definition u8At :: "nat \<Rightarrow> bytes \<Rightarrow> nat option" where
  "u8At off b = map_option (\<lambda>s. unat (s ! 0)) (slice off 1 b)"

definition nextFAT12 :: "bytes \<Rightarrow> nat \<Rightarrow> nat option" where
  "nextFAT12 fat c = map_option (\<lambda>v. if c mod 2 = 0 then v mod 4096 else v div 16)
     (u16At (c * 3 div 2) fat)"

text \<open>
  The loop appends one cluster per round and stops when \<open>size\<close> bytes are collected, so
  \<open>size\<close> rounds always suffice for clusters of at least one byte.
\<close>

fun readChain :: "nat \<Rightarrow> bytes \<Rightarrow> bytes \<Rightarrow> nat \<Rightarrow> nat \<Rightarrow> nat \<Rightarrow> nat \<Rightarrow> bytes option" where
  "readChain fuel img fat dataStart csize c sz =
     (if c < 0xFF8 \<and> 0 < sz then
        (case fuel of 0 \<Rightarrow> None | Suc fuel' \<Rightarrow>
          (case slice (dataStart + (c - 2) * csize) csize img of None \<Rightarrow> None
           | Some d \<Rightarrow> (case nextFAT12 fat c of None \<Rightarrow> None
              | Some c' \<Rightarrow> map_option (\<lambda>r. take sz d @ r)
                   (readChain fuel' img fat dataStart csize c' (sz - csize)))))
      else if sz = 0 then Some [] else None)"

declare readChain.simps [simp del]

definition trimBlanks :: "bytes \<Rightarrow> bytes" where
  "trimBlanks b = rev (dropWhile (\<lambda>c. c = 0x20) (rev b))"

definition shortOf :: "bytes \<Rightarrow> bytes" where
  "shortOf e = (let base = trimBlanks (rd 0 8 e); ext = trimBlanks (rd 8 3 e)
     in if ext \<noteq> [] then base @ [0x2E] @ ext else base)"

definition longOf :: "bytes \<Rightarrow> u16 list" where
  "longOf e = concat (map (\<lambda>(s, n).
     takeWhile (\<lambda>c. c \<noteq> 0 \<and> c \<noteq> 0xFFFF) (map (\<lambda>k. of_le16 (rd (s + 2 * k) 2 e)) [0..<n]))
     [(1, 5), (14, 6), (28, 2)])"

function lookupDir :: "bytes \<Rightarrow> string \<Rightarrow> u16 list \<Rightarrow> byte \<Rightarrow> (nat \<times> nat \<times> bool) option" where
  "lookupDir dir name long lfnSum =
     (if length dir < 32 \<or> dir ! 0 = 0 then None else
      let e = rd 0 32 dir in
      if e ! 11 = attrLFN then lookupDir (drop 32 dir) name (longOf e) (e ! 13)
      else if long \<noteq> [] \<and> lfnChecksum (rd 0 11 e) \<noteq> lfnSum then None
      else if shortOf e = bytes_of name \<or> long = utf16Encode name
      then Some (unat (of_le16 (rd 26 2 e)), unat (of_le32 (rd 28 4 e)), (e ! 11 AND attrDir) \<noteq> 0)
      else lookupDir (drop 32 dir) name [] lfnSum)"
  by pat_completeness auto
termination
  by (relation "measure (\<lambda>(dir, _). length dir)") auto

declare lookupDir.simps [simp del]

fun walkFAT12 :: "bytes \<Rightarrow> bytes \<Rightarrow> nat \<Rightarrow> nat \<Rightarrow> bytes \<Rightarrow> string list \<Rightarrow> bytes option" where
  "walkFAT12 img fat dataStart csize dir [] = Some []"
| "walkFAT12 img fat dataStart csize dir (name # path) =
     (case lookupDir dir name [] 0 of None \<Rightarrow> None
      | Some (first, sz, isDir) \<Rightarrow>
          if path = [] then readChain sz img fat dataStart csize first sz
          else if \<not> isDir then None
          else (case readChain fatClusterSize img fat dataStart csize first fatClusterSize of
                  None \<Rightarrow> None | Some dir' \<Rightarrow> walkFAT12 img fat dataStart csize dir' path))"

definition readFAT12 :: "bytes \<Rightarrow> string list \<Rightarrow> bytes option" where
  "readFAT12 img path =
     (case (u16At 11 img, u8At 13 img, u16At 14 img, u8At 16 img, u16At 17 img, u16At 22 img) of
        (Some bps, Some spc, Some reserved, Some nfats, Some rootEntries, Some fatSectors) \<Rightarrow>
          if slice 54 8 img \<noteq> Some (bytes_of ''FAT12   '') \<or> slice 510 2 img \<noteq> Some [0x55, 0xAA]
          then None
          else let rootStart = (reserved + nfats * fatSectors) * bps;
                   dataStart = rootStart + rootEntries * 32
               in (case slice rootStart (rootEntries * 32) img of None \<Rightarrow> None
                   | Some dir \<Rightarrow> walkFAT12 img (drop (reserved * bps) img) dataStart (spc * bps) dir path)
      | _ \<Rightarrow> None)"

text \<open>The value of table cell \<open>i\<close>: twelve bits packed over one and a half bytes.\<close>

definition getFAT12 :: "bytes \<Rightarrow> nat \<Rightarrow> u16" where
  "getFAT12 fat i = (let off = i * 3 div 2 in
     if i mod 2 = 0 then ucast (fat ! off) OR push_bit 8 (ucast (fat ! (off + 1)) AND 0x0F)
     else drop_bit 4 (ucast (fat ! off)) OR push_bit 4 (ucast (fat ! (off + 1))))"

section \<open>Cells of the file allocation table\<close>

text \<open>
  The simplifier reads a bit of a word numeral off the integer numeral; the masks of the composer
  are runs of ones.
\<close>

lemma bit_masks [nibbles]:
  "bit (15 :: int) n \<longleftrightarrow> n < 4" "bit (240 :: int) n \<longleftrightarrow> 4 \<le> n \<and> n < 8"
  "bit (4095 :: int) n \<longleftrightarrow> n < 12" "bit (3840 :: int) n \<longleftrightarrow> 8 \<le> n \<and> n < 12"
proof -
  have eqs: "(15 :: int) = mask 4" "(240 :: int) = push_bit 4 (mask 4)"
    "(4095 :: int) = mask 12" "(3840 :: int) = push_bit 8 (mask 4)"
    by (simp_all add: mask_eq_exp_minus_1)
  show "bit (15 :: int) n \<longleftrightarrow> n < 4" "bit (240 :: int) n \<longleftrightarrow> 4 \<le> n \<and> n < 8"
    "bit (4095 :: int) n \<longleftrightarrow> n < 12" "bit (3840 :: int) n \<longleftrightarrow> 8 \<le> n \<and> n < 12"
    unfolding eqs bit_push_bit_iff bit_mask_iff by auto
qed

lemma bit_byte_bound [dest]: "bit (w :: byte) n \<Longrightarrow> n < 8"
  using bit_imp_le_length by fastforce

text \<open>The two ways a cell is packed give its low twelve bits back and keep the neighbour's nibble.\<close>

lemma cell_even:
  "(ucast (ucast v :: byte) OR
     (push_bit 8 (ucast ((w AND 0xF0) OR (ucast (drop_bit 8 v) AND 0x0F) :: byte)) AND 3840) :: u16) =
   v AND 0xFFF"
  by (rule bit_word_eqI) (auto simp: bit_simps nibbles)

lemma cell_odd:
  "(drop_bit 4 (ucast ((w AND 0x0F) OR push_bit 4 (ucast (v AND 0x0F)) :: byte)) OR
     push_bit 4 (ucast (ucast (drop_bit 4 v) :: byte)) :: u16) = v AND 0xFFF" (is "?l = ?r")
proof (rule bit_word_eqI)
  fix n
  show "bit ?l n = bit ?r n"
    by (cases "n < 4") (auto simp: bit_simps nibbles)
qed

lemma cell_keep_low:
  "(push_bit 8 (ucast ((w AND 0x0F) OR push_bit 4 x :: byte)) AND 3840 :: u16) =
   push_bit 8 (ucast w) AND 3840"
  by (rule bit_word_eqI) (auto simp: bit_simps nibbles)

lemma cell_keep_high:
  "(drop_bit 4 (ucast ((w AND 0xF0) OR (x AND 0x0F) :: byte)) :: u16) = drop_bit 4 (ucast w)"
  by (rule bit_word_eqI) (auto simp: bit_simps nibbles)

lemma length_setFAT12: "setFAT12 i v fat = Ok fat' \<Longrightarrow> length fat' = length fat"
  by (auto simp: setFAT12_def Let_def split: if_splits)

lemma getFAT12_same:
  assumes "setFAT12 i v fat = Ok fat'"
  shows "getFAT12 fat' i = v AND 0xFFF"
  using assms
  by (auto simp: setFAT12_def getFAT12_def Let_def cell_even cell_odd split: if_splits)

lemma parity_cases:
  fixes i :: nat
  obtains (even) k where "i = 2 * k" | (odd) k where "i = 2 * k + 1"
  by (cases "even i") (auto elim: evenE oddE)

lemma getFAT12_other:
  assumes set: "setFAT12 i v fat = Ok fat'" and ne: "i \<noteq> j" and j: "j * 3 div 2 + 1 < length fat"
  shows "getFAT12 fat' j = getFAT12 fat j"
proof (cases i rule: parity_cases)
  case i: (even k)
  show ?thesis
  proof (cases j rule: parity_cases)
    case (even l)
    with i ne have "k \<noteq> l" by simp
    then have "3 * k \<noteq> 3 * l" "3 * k \<noteq> Suc (3 * l)" "Suc (3 * k) \<noteq> 3 * l" "Suc (3 * k) \<noteq> Suc (3 * l)"
      by presburger+
    with i even set j show ?thesis
      by (auto simp: setFAT12_def getFAT12_def Let_def split: if_splits)
  next
    case (odd l)
    have "3 * k \<noteq> Suc (3 * l)" "3 * k \<noteq> Suc (Suc (3 * l))" "Suc (3 * k) \<noteq> Suc (Suc (3 * l))"
      by presburger+
    with i odd set j show ?thesis
      by (cases "k = l")
        (auto simp: setFAT12_def getFAT12_def Let_def cell_keep_high nth_list_update split: if_splits)
  qed
next
  case i: (odd k)
  show ?thesis
  proof (cases j rule: parity_cases)
    case (even l)
    have "Suc (3 * k) \<noteq> 3 * l" "Suc (Suc (3 * k)) \<noteq> 3 * l" "Suc (Suc (3 * k)) \<noteq> Suc (3 * l)"
      by presburger+
    with i even set j show ?thesis
      by (cases "k = l")
        (auto simp: setFAT12_def getFAT12_def Let_def cell_keep_low nth_list_update split: if_splits)
  next
    case (odd l)
    with i ne have "k \<noteq> l" by simp
    then have "Suc (3 * k) \<noteq> Suc (3 * l)" "Suc (Suc (3 * k)) \<noteq> Suc (3 * l)" "Suc (3 * k) \<noteq> Suc (Suc (3 * l))"
      by presburger+
    with i odd set j show ?thesis
      by (auto simp: setFAT12_def getFAT12_def Let_def split: if_splits)
  qed
qed

lemma nextFAT12_get:
  assumes "c * 3 div 2 + 1 < length fat"
  shows "nextFAT12 fat c = Some (unat (getFAT12 fat c))"
proof -
  let ?o = "c * 3 div 2"
  have rd: "rd ?o 2 fat = [fat ! ?o, fat ! (?o + 1)]"
    using assms by (intro nth_equalityI) (auto simp: rd_def less_2_cases_iff)
  define a b where "a = fat ! ?o" and "b = fat ! (?o + 1)"
  have "(ucast a OR push_bit 8 (ucast b) AND 3840 :: u16) = take_bit 12 (of_le16 [a, b])"
    by (rule bit_word_eqI) (auto simp: of_le16_def bit_simps nibbles)
  then have even: "unat (of_le16 [a, b]) mod 4096 = unat (ucast a OR push_bit 8 (ucast b) AND 3840 :: u16)"
    by (simp only: unsigned_take_bit_eq) (simp add: take_bit_eq_mod)
  have "(drop_bit 4 (ucast a) OR push_bit 4 (ucast b) :: u16) = drop_bit 4 (of_le16 [a, b])"
    by (rule bit_word_eqI) (auto simp: of_le16_def bit_simps)
  then have odd: "unat (of_le16 [a, b]) div 16 = unat (drop_bit 4 (ucast a) OR push_bit 4 (ucast b) :: u16)"
    by (simp only: unat_drop_bit_eq) (simp add: drop_bit_eq_div)
  show ?thesis
    using assms unfolding nextFAT12_def getFAT12_def u16At_def slice_def Let_def
    by (simp add: rd a_def [symmetric] b_def [symmetric, simplified] even odd)
qed

definition hasFAT12 :: "bytes \<Rightarrow> nat \<Rightarrow> bool" where
  "hasFAT12 fat i \<longleftrightarrow> i * 3 div 2 + 1 < length fat"

interpretation fat12: cell_array getFAT12 setFAT12 hasFAT12 "\<lambda>v. v AND 0xFFF"
proof unfold_locales
  fix t i v
  show "hasFAT12 t i \<Longrightarrow> \<exists>t'. setFAT12 i v t = Ok t'"
    by (simp add: hasFAT12_def setFAT12_def Let_def)
next
  fix t t' i j v
  assume set: "setFAT12 i v t = Ok t'"
  show "hasFAT12 t' j \<longleftrightarrow> hasFAT12 t j"
    using length_setFAT12 [OF set] by (simp add: hasFAT12_def)
  show "getFAT12 t' i = v AND 0xFFF" by (rule getFAT12_same [OF set])
  show "i \<noteq> j \<Longrightarrow> hasFAT12 t j \<Longrightarrow> getFAT12 t' j = getFAT12 t j"
    using getFAT12_other [OF set] by (simp add: hasFAT12_def)
qed


section \<open>Directory entries\<close>

definition dirEntryBytes :: "bytes \<Rightarrow> byte \<Rightarrow> u16 \<Rightarrow> u32 \<Rightarrow> bytes" where
  "dirEntryBytes name attr first sz =
     name @ [attr, 0, 0, 0, 0] @ le16 fatDate @ le16 fatDate @ [0, 0, 0, 0] @ le16 fatDate @
     le16 first @ le32 sz"

lemma length_11_cases:
  assumes "length xs = 11"
  obtains a b c d e f g h i j k where "xs = [a, b, c, d, e, f, g, h, i, j, k]"
  using assms by (auto simp: numeral_eq_Suc length_Suc_conv)

lemma replicate_32: "replicate 32 (0 :: byte) =
   [0, 0, 0, 0, 0, 0, 0, 0, 0, 0, 0, 0, 0, 0, 0, 0, 0, 0, 0, 0, 0, 0, 0, 0, 0, 0, 0, 0, 0, 0, 0, 0]"
  by (simp add: numeral_eq_Suc)

lemma fatDirEntry_Ok:
  assumes "length name = 11"
  shows "fatDirEntry name attr first sz = Ok (dirEntryBytes name attr first sz)"
  using assms
  by (rule length_11_cases)
    (simp add: fatDirEntry_def dirEntryBytes_def put_Ok copyTo_Ok replicate_32 wr_def le16_def le32_def)

lemma length_shortName [simp]: "length (shortName base ext) = 11"
  by (simp add: shortName_def wr_def)

definition autoexecLFN :: bytes where
  "autoexecLFN = [65, 97, 0, 117, 0, 116, 0, 111, 0, 101, 0, 15, 0, 51, 120, 0, 101, 0, 99, 0, 46, 0, 105, 0, 112, 0, 0, 0, 120, 0, 101, 0]"

lemma fatLFN_autoexec: "fatLFNEntry autoexecName (shortName ''AUTOEXEC'' ''IPX'') = Ok autoexecLFN"
  by code_simp

lemma longOf_autoexec: "longOf autoexecLFN = utf16Encode autoexecName"
  by code_simp

lemma checksum_autoexec: "lfnChecksum (shortName ''AUTOEXEC'' ''IPX'') = autoexecLFN ! 13"
  by code_simp

lemma putEntries_Ok:
  "off + length (concat es) \<le> length b \<Longrightarrow> putEntries off es b = Ok (wr off (concat es) b)"
proof (induction es arbitrary: off b)
  case Nil
  then show ?case by simp
next
  case (Cons e es)
  then show ?case by (simp add: buffer_simps wr_wr_append)
qed


section \<open>The two cluster chains in the table\<close>

definition chainCells :: "nat \<Rightarrow> nat \<Rightarrow> (nat \<times> u16) list" where
  "chainCells first n = map (\<lambda>i. (first + i, if i = n - 1 then 0xFFF else of_nat (first + i + 1))) [0..<n]"

definition tableCells :: "nat \<Rightarrow> nat \<Rightarrow> nat \<Rightarrow> nat \<Rightarrow> (nat \<times> u16) list" where
  "tableCells efiFirst efiCl scriptFirst scriptCl =
     [(0, 0xFF8), (1, 0xFFF), (2, 0xFFF), (3, 0xFFF)] @
     chainCells efiFirst efiCl @ chainCells scriptFirst scriptCl"

lemma chain_cells: "chain first n = run (map (\<lambda>(i, v). setFAT12 i v) (chainCells first n))"
  by (simp add: chain_def chainCells_def comp_def)

lemma fatTable_cells:
  "fatTable fs ef ec sf sc =
   run (map (\<lambda>(i, v). setFAT12 i v) (tableCells ef ec sf sc)) (replicate (fs * 512) 0)"
  by (simp add: fatTable_def tableCells_def chain_cells run_flatten [of "[_, _, _, _]", simplified])

lemma fst_chainCells [simp]: "map fst (chainCells first n) = [first..<first + n]"
  using map_add_upt [of first n] by (simp add: chainCells_def comp_def add.commute)

lemma fst_tableCells: "map fst (tableCells 4 m (4 + m) n) = [0..<4 + m + n]"
proof -
  have "[0..<4 + m + n] = [0..<4] @ [4..<4 + m] @ [4 + m..<4 + m + n]"
    by (metis add.assoc le_add1 upt_add_eq_append zero_le)
  then show ?thesis by (simp add: tableCells_def upt_rec)
qed

lemma run_setFAT12_length:
  "run (map (\<lambda>(i, v). setFAT12 i v) us) fat = Ok fat' \<Longrightarrow> length fat' = length fat"
proof (induction us arbitrary: fat)
  case (Cons u us)
  then show ?case
    by (auto simp: obind_Ok_iff split: prod.splits dest!: length_setFAT12)
qed simp

text \<open>What the table of an image has to satisfy for the reader: every cluster has a cell, the cells hold the chains.\<close>

definition fatHolds :: "bytes \<Rightarrow> nat \<Rightarrow> nat \<Rightarrow> nat \<Rightarrow> bool" where
  "fatHolds fat fs m n \<longleftrightarrow> length fat = fs * 512 \<and> (\<forall>i < 4 + m + n. hasFAT12 fat i) \<and>
     (\<forall>(i, v) \<in> set (tableCells 4 m (4 + m) n). getFAT12 fat i = v AND 0xFFF)"

lemma fatTable_Ok:
  assumes "((4 + m + n) * 3 + 1) div 2 \<le> fs * 512"
  shows "\<exists>fat. fatTable fs 4 m (4 + m) n = Ok fat \<and> fatHolds fat fs m n"
proof -
  let ?us = "tableCells 4 m (4 + m) n" and ?z = "replicate (fs * 512) (0::byte)"
  have has: "hasFAT12 ?z i" if "i < 4 + m + n" for i
    using that assms by (simp add: hasFAT12_def)
  have "distinct (map fst ?us)" by (simp add: fst_tableCells)
  moreover have "\<forall>u \<in> set ?us. hasFAT12 ?z (fst u)"
  proof
    fix u assume "u \<in> set ?us"
    then have "fst u \<in> set (map fst ?us)" by simp
    then show "hasFAT12 ?z (fst u)" unfolding fst_tableCells by (auto intro: has)
  qed
  ultimately obtain fat where fat: "run (map (\<lambda>(i, v). setFAT12 i v) ?us) ?z = Ok fat"
    "\<forall>j. hasFAT12 fat j \<longleftrightarrow> hasFAT12 ?z j" "\<forall>(i, v) \<in> set ?us. getFAT12 fat i = v AND 0xFFF"
    using fat12.set_all by blast
  then show ?thesis
    using has run_setFAT12_length [OF fat(1)] by (simp add: fatTable_cells fatHolds_def)
qed

section \<open>The layout of the image\<close>

lemma chainLen_pos: "1 \<le> chainLen n"
  by (simp add: chainLen_def Let_def)

lemma chainLen_enough: "n \<le> chainLen n * 2048"
proof -
  have "n \<le> (n + 2047) div 2048 * 2048" using round_up [of 2048 n] by simp
  then show ?thesis by (simp add: chainLen_def Let_def add.commute)
qed

definition bootBytes :: "nat \<Rightarrow> nat \<Rightarrow> bytes" where
  "bootBytes ts fs = fold (\<lambda>(off, s). wr off s)
     [(0, [0xEB, 0x3C, 0x90]), (3, bytes_of ''IPXEBOOT''), (11, le16 512), (13, [4]), (14, le16 1),
      (16, [2]), (17, le16 512), (19, le16 (of_nat ts)), (21, [0xF8]), (22, le16 (of_nat fs)),
      (24, le16 32), (26, le16 64), (36, [0x80]), (38, [0x29]), (39, le32 0x1A2B3C4D),
      (43, bytes_of ''IPXEBOOT   ''), (54, bytes_of ''FAT12   ''), (510, [0x55]), (511, [0xAA])]
     (replicate 512 0)"

lemma bootSector_Ok: "bootSector ts fs (replicate 512 0) = Ok (bootBytes ts fs)"
  by (simp add: bootSector_def bootBytes_def put_Ok copyTo_Ok)
lemma length_bootBytes [simp]: "length (bootBytes ts fs) = 512"
  by (simp add: bootBytes_def)

lemma boot_fields [buffer_simps]:
  "rd 11 2 (bootBytes ts fs) = le16 512" "rd 13 (Suc 0) (bootBytes ts fs) = [4]"
  "rd 14 2 (bootBytes ts fs) = le16 1" "rd 16 (Suc 0) (bootBytes ts fs) = [2]"
  "rd 17 2 (bootBytes ts fs) = le16 512" "rd 19 2 (bootBytes ts fs) = le16 (of_nat ts)"
  "rd 22 2 (bootBytes ts fs) = le16 (of_nat fs)" "rd 54 8 (bootBytes ts fs) = bytes_of ''FAT12   ''"
  "rd 510 (Suc 0) (bootBytes ts fs) = [0x55]" "rd 511 (Suc 0) (bootBytes ts fs) = [0xAA]"
  by (simp_all add: bootBytes_def buffer_simps rd_self)

definition rootBytes :: "nat \<Rightarrow> nat \<Rightarrow> bytes" where
  "rootBytes first n = autoexecLFN @
     dirEntryBytes (shortName ''AUTOEXEC'' ''IPX'') 0x20 (of_nat first) (of_nat n) @
     dirEntryBytes (shortName ''EFI'' []) attrDir 2 0"

definition efiDirBytes :: bytes where
  "efiDirBytes = dirEntryBytes (shortName ''.'' []) attrDir 2 0 @
     dirEntryBytes (shortName ''..'' []) attrDir 0 0 @
     dirEntryBytes (shortName ''BOOT'' []) attrDir 3 0"

definition bootDirBytes :: "nat \<Rightarrow> bytes" where
  "bootDirBytes n = dirEntryBytes (shortName ''.'' []) attrDir 3 0 @
     dirEntryBytes (shortName ''..'' []) attrDir 2 0 @
     dirEntryBytes (shortName ''BOOTX64'' ''EFI'') 0x20 4 (of_nat n)"

lemma length_dirEntryBytes [simp]: "length (dirEntryBytes name attr first sz) = length name + 21"
  by (simp add: dirEntryBytes_def)

lemma length_dirs [simp]: "length (rootBytes f n) = 96" "length efiDirBytes = 96" "length (bootDirBytes n) = 96"
  by (simp_all add: rootBytes_def efiDirBytes_def bootDirBytes_def autoexecLFN_def)

definition fatSectorsFor :: "nat \<Rightarrow> nat" where
  "fatSectorsFor cells = ((cells * 3 + 1) div 2 + 511) div 512"

lemma putDir_root:
  "off + 96 \<le> length b \<Longrightarrow> putDir off
     [fatLFNEntry autoexecName (shortName ''AUTOEXEC'' ''IPX''),
      fatDirEntry (shortName ''AUTOEXEC'' ''IPX'') 0x20 (of_nat f) (of_nat k),
      fatDirEntry (shortName ''EFI'' []) attrDir (of_nat 2) 0] b = Ok (wr off (rootBytes f k) b)"
  using length_dirs(1) [of f k]
  by (simp add: putDir_def putEntries_Ok fatLFN_autoexec fatDirEntry_Ok rootBytes_def del: putEntries.simps)

lemma putDir_efi:
  "off + 96 \<le> length b \<Longrightarrow> putDir off
     [fatDirEntry (shortName ''.'' []) attrDir (of_nat 2) 0,
      fatDirEntry (shortName ''..'' []) attrDir 0 0,
      fatDirEntry (shortName ''BOOT'' []) attrDir (of_nat 3) 0] b = Ok (wr off efiDirBytes b)"
  using length_dirs(2)
  by (simp add: putDir_def putEntries_Ok fatDirEntry_Ok efiDirBytes_def del: putEntries.simps)

lemma putDir_boot:
  "off + 96 \<le> length b \<Longrightarrow> putDir off
     [fatDirEntry (shortName ''.'' []) attrDir (of_nat 3) 0,
      fatDirEntry (shortName ''..'' []) attrDir (of_nat 2) 0,
      fatDirEntry (shortName ''BOOTX64'' ''EFI'') 0x20 (of_nat 4) (of_nat k)] b = Ok (wr off (bootDirBytes k) b)"
  using length_dirs(3) [of k]
  by (simp add: putDir_def putEntries_Ok fatDirEntry_Ok bootDirBytes_def del: putEntries.simps)

text \<open>The image as a sequence of writes on zeros: \<open>m\<close> and \<open>n\<close> clusters of files, \<open>fs\<close> table sectors.\<close>

definition espImage :: "nat \<Rightarrow> nat \<Rightarrow> nat \<Rightarrow> bytes \<Rightarrow> bytes \<Rightarrow> bytes \<Rightarrow> bytes" where
  "espImage fs m n fat efi script =
      wr ((41 + 2 * fs + 4 * m) * 512) script
     (wr ((41 + 2 * fs) * 512) efi
     (wr ((37 + 2 * fs) * 512) (bootDirBytes (length efi))
     (wr ((33 + 2 * fs) * 512) efiDirBytes
     (wr ((1 + 2 * fs) * 512) (rootBytes (4 + m) (length script))
     (wr ((1 + fs) * 512) fat
     (wr 512 fat
     (wr 0 (bootBytes (41 + 2 * fs + 4 * m + 4 * n) fs)
     (replicate ((41 + 2 * fs + 4 * m + 4 * n) * 512) 0))))))))"

lemma run_esp:
  assumes "length z = tot * 512" "rd 0 512 z = replicate 512 0" "1 \<le> tot"
    and "o1 \<le> length z" "o2 \<le> length z" "o3 + 96 \<le> length z" "o4 + 96 \<le> length z" "o5 + 96 \<le> length z"
    and "o6 \<le> length z" "o7 \<le> length z"
  shows "run [window 0 512 (bootSector tot fs), copyTo o1 fat, copyTo o2 fat,
      putDir o3 [fatLFNEntry autoexecName (shortName ''AUTOEXEC'' ''IPX''),
        fatDirEntry (shortName ''AUTOEXEC'' ''IPX'') 0x20 (of_nat f) (of_nat k),
        fatDirEntry (shortName ''EFI'' []) attrDir (of_nat 2) 0],
      putDir o4 [fatDirEntry (shortName ''.'' []) attrDir (of_nat 2) 0,
        fatDirEntry (shortName ''..'' []) attrDir 0 0,
        fatDirEntry (shortName ''BOOT'' []) attrDir (of_nat 3) 0],
      putDir o5 [fatDirEntry (shortName ''.'' []) attrDir (of_nat 3) 0,
        fatDirEntry (shortName ''..'' []) attrDir (of_nat 2) 0,
        fatDirEntry (shortName ''BOOTX64'' ''EFI'') 0x20 (of_nat 4) (of_nat l)],
      copyTo o6 efi, copyTo o7 script] z =
    Ok (wr o7 script (wr o6 efi (wr o5 (bootDirBytes l) (wr o4 efiDirBytes (wr o3 (rootBytes f k)
      (wr o2 fat (wr o1 fat (wr 0 (bootBytes tot fs) z))))))))"
proof -
  have "window 0 512 (bootSector tot fs) z = Ok (wr 0 (bootBytes tot fs) z)"
    using assms by (intro window_Ok) (simp_all add: bootSector_Ok)
  then show ?thesis using assms
    by (simp only: run.simps obind.simps copyTo_Ok putDir_root putDir_efi putDir_boot length_wr run_Nil)
qed

lemma buildESPImage_layout:
  assumes "script \<noteq> []" "m = chainLen (length efi)" "n = chainLen (length script)"
    and le: "2 + m + n \<le> 4084" and fs: "fs = fatSectorsFor (4 + m + n)"
    and fat: "fatTable fs 4 m (4 + m) n = Ok fat"
  shows "buildESPImage efi script = Ok (espImage fs m n fat efi script)"
proof -
  have offs: "4 + m + n - 2 = 2 + m + n" "(((2 + m + n + 2) * 3 + 1) div 2 + 512 - 1) div 512 = fs"
    "(1 + 2 * fs + 512 * 32 div 512 + (2 + m + n) * 4) = 41 + 2 * fs + 4 * m + 4 * n"
    "(1 + 2 * fs + 512 * 32 div 512 + (2 - 2) * 4) * 512 = (33 + 2 * fs) * 512"
    "(1 + 2 * fs + 512 * 32 div 512 + (3 - 2) * 4) * 512 = (37 + 2 * fs) * 512"
    "(1 + 2 * fs + 512 * 32 div 512 + (4 - 2) * 4) * 512 = (41 + 2 * fs) * 512"
    "(1 + 2 * fs + 512 * 32 div 512 + (4 + m - 2) * 4) * 512 = (41 + 2 * fs + 4 * m) * 512"
    by (simp_all add: fs fatSectorsFor_def)
  have g: "\<not> length script = 0" "\<not> 2 + m + n > 4084" using assms(1) le by simp_all
  have "1 \<le> m" "1 \<le> n" using assms(2,3) chainLen_pos by auto
  then show ?thesis
    unfolding buildESPImage_def Let_def assms(2,3)[symmetric] fatSectorSize_def fatClusterSectors_def
      fatRootSectors_def fatRootEntries_def fatMaxClusters_def clusterOff_def offs fat
      if_not_P [OF g(1)] if_not_P [OF g(2)] obind.simps espImage_def
    by (intro run_esp) (simp_all add: rd_replicate)
qed


section \<open>Reading the image back\<close>

lemma lookup_lfn:
  assumes "length e = 32" "e ! 0 \<noteq> 0" "e ! 11 = attrLFN"
  shows "lookupDir (e @ rest) name long k = lookupDir rest name (longOf e) (e ! 13)"
  using assms by (subst lookupDir.simps) (simp add: rd_def nth_append)

lemma lookup_entry:
  assumes "length e = 32" "e ! 0 \<noteq> 0" "e ! 11 \<noteq> attrLFN" "long = [] \<or> lfnChecksum (rd 0 11 e) = k"
  shows "lookupDir (e @ rest) name long k =
    (if shortOf e = bytes_of name \<or> long = utf16Encode name
     then Some (unat (of_le16 (rd 26 2 e)), unat (of_le32 (rd 28 4 e)), (e ! 11 AND attrDir) \<noteq> 0)
     else lookupDir rest name [] k)"
  using assms by (subst lookupDir.simps) (auto simp: rd_def nth_append Let_def)

lemma dirEntry_fields:
  assumes "length name = 11"
  shows "rd 0 8 (dirEntryBytes name attr f k) = rd 0 8 name" "rd 8 3 (dirEntryBytes name attr f k) = rd 8 3 name"
    "rd 0 11 (dirEntryBytes name attr f k) = name"
    "dirEntryBytes name attr f k ! 0 = name ! 0" "dirEntryBytes name attr f k ! 11 = attr"
    "rd 26 2 (dirEntryBytes name attr f k) = le16 f" "rd 28 4 (dirEntryBytes name attr f k) = le32 k"
  using assms by (simp_all add: dirEntryBytes_def rd_def nth_append)

lemma lookup_dirEntry:
  assumes "length nm = 11" "nm ! 0 \<noteq> 0" "attr \<noteq> attrLFN" "long = [] \<or> lfnChecksum nm = k"
  shows "lookupDir (dirEntryBytes nm attr f sz @ rest) name long k =
    (if shortOf nm = bytes_of name \<or> long = utf16Encode name
     then Some (unat f, unat sz, (attr AND attrDir) \<noteq> 0)
     else lookupDir rest name [] k)"
proof -
  have "shortOf (dirEntryBytes nm attr f sz) = shortOf nm"
    using assms(1) by (simp add: shortOf_def dirEntry_fields)
  then show ?thesis
    using assms by (subst lookup_entry) (simp_all add: dirEntry_fields)
qed

lemma shortOf_names:
  "shortOf (shortName ''AUTOEXEC'' ''IPX'') = bytes_of ''AUTOEXEC.IPX''"
  "shortOf (shortName ''EFI'' []) = bytes_of ''EFI''"
  "shortOf (shortName ''BOOT'' []) = bytes_of ''BOOT''"
  "shortOf (shortName ''BOOTX64'' ''EFI'') = bytes_of ''BOOTX64.EFI''"
  "shortOf (shortName ''.'' []) = bytes_of ''.''"
  "shortOf (shortName ''..'' []) = bytes_of ''..''"
  by code_simp+

lemma shortName_start:
  "shortName ''AUTOEXEC'' ''IPX'' ! 0 \<noteq> 0" "shortName ''EFI'' [] ! 0 \<noteq> 0" "shortName ''BOOT'' [] ! 0 \<noteq> 0"
  "shortName ''BOOTX64'' ''EFI'' ! 0 \<noteq> 0" "shortName ''.'' [] ! 0 \<noteq> 0" "shortName ''..'' [] ! 0 \<noteq> 0"
  by code_simp+

lemmas lookup_simps = lookup_dirEntry shortOf_names shortName_start bytes_of_inject

lemma autoexecLFN_entry: "length autoexecLFN = 32" "autoexecLFN ! 0 \<noteq> 0" "autoexecLFN ! 11 = attrLFN"
  by (simp_all add: autoexecLFN_def)

lemma lookup_script:
  "lookupDir (rootBytes f k @ rest) autoexecName [] 0 = Some (unat (of_nat f :: u16), unat (of_nat k :: u32), False)"
  by (simp add: rootBytes_def lookup_lfn autoexecLFN_entry longOf_autoexec lookup_simps checksum_autoexec)

lemma lookup_EFI: "lookupDir (rootBytes f k @ rest) ''EFI'' [] 0 = Some (2, 0, True)"
  by (simp add: rootBytes_def lookup_lfn autoexecLFN_entry longOf_autoexec lookup_simps checksum_autoexec
      autoexecName_def utf16Encode_def)

lemma lookup_BOOT: "lookupDir (efiDirBytes @ rest) ''BOOT'' [] 0 = Some (3, 0, True)"
  by (simp add: efiDirBytes_def lookup_simps utf16Encode_def)

lemma lookup_BOOTX64:
  "lookupDir (bootDirBytes k @ rest) ''BOOTX64.EFI'' [] 0 = Some (4, unat (of_nat k :: u32), False)"
  by (simp add: bootDirBytes_def lookup_simps utf16Encode_def)

lemma readChain_linear:
  assumes next_cell: "\<And>i. i < n \<Longrightarrow> nextFAT12 fat (first + i) = Some (if i = n - 1 then 0xFFF else first + i + 1)"
    and "2 \<le> first" "first + n \<le> 0xFF8" "0 < csize"
    and "data + (first - 2 + n) * csize \<le> length img" "sz \<le> n * csize" "sz \<le> fuel"
  shows "readChain fuel img fat data csize first sz = Some (rd (data + (first - 2) * csize) sz img)"
  using assms
proof (induction n arbitrary: fuel first sz)
  case 0
  then show ?case by (simp add: readChain.simps rd_def)
next
  case (Suc n)
  show ?case
  proof (cases "sz = 0")
    case True
    then show ?thesis by (simp add: readChain.simps rd_def)
  next
    case False
    then obtain fuel' where fuel: "fuel = Suc fuel'" using Suc.prems by (cases fuel) auto
    let ?o = "data + (first - 2) * csize"
    have fits: "?o + csize \<le> length img" using Suc.prems by (simp add: algebra_simps)
    have "readChain fuel' img fat data csize (if n = 0 then 0xFFF else first + 1) (sz - csize) =
      Some (rd (?o + csize) (sz - csize) img)"
    proof (cases "n = 0")
      case True
      then show ?thesis using Suc.prems by (simp add: readChain.simps rd_def)
    next
      case n: False
      have "readChain fuel' img fat data csize (Suc first) (sz - csize) =
        Some (rd (data + (Suc first - 2) * csize) (sz - csize) img)"
      proof (rule Suc.IH)
        fix i assume "i < n"
        then show "nextFAT12 fat (Suc first + i) = Some (if i = n - 1 then 0xFFF else Suc first + i + 1)"
          using Suc.prems(1) [of "Suc i"] n by auto
      qed (use Suc.prems fuel in \<open>auto simp: algebra_simps\<close>)
      moreover have "Suc first - 2 = Suc (first - 2)" using Suc.prems(2) by simp
      then have "data + (Suc first - 2) * csize = ?o + csize" by simp
      ultimately show ?thesis using n by (simp add: add.assoc)
    qed
    moreover have "take sz (rd ?o csize img) @ rd (?o + csize) (sz - csize) img = rd ?o sz img"
      using rd_append [of ?o csize img "sz - csize"]
      by (cases "csize \<le> sz") (auto simp: rd_def)
    ultimately show ?thesis
      using False Suc.prems(1) [of 0] Suc.prems(3) fits
      by (subst readChain.simps) (auto simp: fuel slice_def split: if_splits)
  qed
qed


lemma chainCells_nth:
  "i < n \<Longrightarrow> (first + i, if i = n - 1 then 0xFFF else of_nat (first + i + 1)) \<in> set (chainCells first n)"
  by (auto simp: chainCells_def)

lemma chain_next:
  assumes "i < n" "first + n \<le> 4086" "hasFAT12 fat (first + i)"
    and "\<And>j v. (j, v) \<in> set (chainCells first n) \<Longrightarrow> getFAT12 fat j = v AND 0xFFF"
  shows "nextFAT12 fat (first + i) = Some (if i = n - 1 then 0xFFF else first + i + 1)"
proof -
  have m: "unat ((of_nat k :: u16) AND 0xFFF) = k" if "k < 4096" for k
  proof -
    have "(of_nat k :: u16) AND 0xFFF = take_bit 12 (of_nat k)"
      by (rule bit_word_eqI) (auto simp: bit_simps nibbles)
    also have "unat \<dots> = k"
      using that by (simp only: unsigned_take_bit_eq) (simp add: unat_of_nat take_bit_eq_mod)
    finally show ?thesis .
  qed
  show ?thesis
    using nextFAT12_get assms(3) assms(4) [OF chainCells_nth [OF assms(1)]] assms(1,2) m [of "first + i + 1"]
    by (auto simp: hasFAT12_def)
qed

lemma length_espImage [simp]: "length (espImage fs m n fat efi script) = (41 + 2 * fs + 4 * m + 4 * n) * 512"
  by (simp add: espImage_def)

lemma esp_boot_fields:
  assumes "length fat = fs * 512" "off + k \<le> 512"
  shows "rd off k (espImage fs m n fat efi script) = rd off k (bootBytes (41 + 2 * fs + 4 * m + 4 * n) fs)"
  using assms by (simp add: espImage_def buffer_simps)

lemma esp_fat:
  assumes "length fat = fs * 512" "off + k \<le> fs * 512"
  shows "rd (512 + off) k (espImage fs m n fat efi script) = rd off k fat"
  using assms by (simp add: espImage_def buffer_simps)

lemma esp_dirs:
  assumes "length fat = fs * 512" 
  shows "rd ((1 + 2 * fs) * 512) 96 (espImage fs m n fat efi script) = rootBytes (4 + m) (length script)"
   and "rd ((33 + 2 * fs) * 512) 96 (espImage fs m n fat efi script) = efiDirBytes"
   and "rd ((37 + 2 * fs) * 512) 96 (espImage fs m n fat efi script) = bootDirBytes (length efi)"
  using assms by (simp_all add: espImage_def buffer_simps rd_self)

lemma esp_files:
  assumes "length fat = fs * 512" "length efi \<le> m * 2048" "length script \<le> n * 2048"
  shows "rd ((41 + 2 * fs) * 512) (length efi) (espImage fs m n fat efi script) = efi"
   and "rd ((41 + 2 * fs + 4 * m) * 512) (length script) (espImage fs m n fat efi script) = script"
  using assms by (simp_all add: espImage_def buffer_simps rd_self)

lemma esp_nextFAT12:
  assumes "length fat = fs * 512" "hasFAT12 fat c"
  shows "nextFAT12 (drop 512 (espImage fs m n fat efi script)) c = nextFAT12 fat c"
  using assms esp_fat [OF assms(1), of "c * 3 div 2" 2]
  by (simp add: nextFAT12_def u16At_def slice_def rd_drop hasFAT12_def)

lemma esp_dir_prefix:
  assumes "rd off 96 img = d" "96 \<le> k"
  shows "\<exists>rest. rd off k img = d @ rest"
  using assms rd_append [of off 96 img "k - 96"] by (metis le_add_diff_inverse)

text \<open>The geometry the boot sector announces is the one the image has.\<close>

lemma readFAT12_esp:
  assumes "length fat = fs * 512" "fs < 65536"
  shows "readFAT12 (espImage fs m n fat efi script) path =
    walkFAT12 (espImage fs m n fat efi script) (drop 512 (espImage fs m n fat efi script))
      ((33 + 2 * fs) * 512) 2048 (rd ((1 + 2 * fs) * 512) 16384 (espImage fs m n fat efi script)) path"
proof -
  let ?img = "espImage fs m n fat efi script"
  have f: "rd off k ?img = rd off k (bootBytes (41 + 2 * fs + 4 * m + 4 * n) fs)" if "off + k \<le> 512" for off k
    using esp_boot_fields [OF assms(1) that] .
  have len: "512 \<le> length ?img" by simp
  have u16: "u16At off ?img = Some (unat v)" if "off + 2 \<le> 512" "rd off 2 (bootBytes (41 + 2 * fs + 4 * m + 4 * n) fs) = le16 v" for off v
    using that len by (simp add: u16At_def slice_def f del: length_espImage)
  have u8: "u8At off ?img = Some (unat v)" if "off < 512" "rd off (Suc 0) (bootBytes (41 + 2 * fs + 4 * m + 4 * n) fs) = [v]" for off v
    using that len by (simp add: u8At_def slice_def f del: length_espImage)
  have "rd 510 (1 + 1) ?img = [0x55, 0xAA]"
    unfolding rd_append [symmetric] by (simp add: f boot_fields)
  then have magic: "slice 510 2 ?img = Some [0x55, 0xAA]"
    using len by (simp add: slice_def numeral_2_eq_2 del: length_espImage)
  have fat12: "slice 54 8 ?img = Some (bytes_of ''FAT12   '')"
    using len by (simp add: slice_def f boot_fields del: length_espImage)
  have "unat (of_nat fs :: u16) = fs" using assms(2) by (simp add: unat_of_nat take_bit_eq_mod)
  then have geo: "u16At 11 ?img = Some 512" "u8At 13 ?img = Some 4" "u16At 14 ?img = Some 1" "u8At 16 ?img = Some 2"
     "u16At 17 ?img = Some 512" "u16At 22 ?img = Some fs"
    by (simp_all add: u16 [OF _ boot_fields(1)] u8 [OF _ boot_fields(2)] u16 [OF _ boot_fields(3)]
        u8 [OF _ boot_fields(4)] u16 [OF _ boot_fields(5)] u16 [OF _ boot_fields(7)])
  have root: "slice ((1 + 2 * fs) * 512) 16384 ?img = Some (rd ((1 + 2 * fs) * 512) 16384 ?img)"
    by (simp add: slice_def)
  show ?thesis
    using root by (simp add: readFAT12_def geo magic fat12 Let_def algebra_simps)
qed

lemma esp_next_dir:
  assumes "fatHolds fat fs m n" "c \<in> {2, 3}"
  shows "nextFAT12 (drop 512 (espImage fs m n fat efi script)) c = Some 0xFFF"
proof -
  have "hasFAT12 fat c" "getFAT12 fat c = 0xFFF" "length fat = fs * 512"
    using assms by (auto simp: fatHolds_def tableCells_def)
  then show ?thesis
    using nextFAT12_get [of c fat] by (simp add: esp_nextFAT12 hasFAT12_def)
qed

lemma esp_next_chain:
  assumes "fatHolds fat fs m n" "2 + m + n \<le> 4084" "i < k" "(first, k) \<in> {(4, m), (4 + m, n)}"
  shows "nextFAT12 (drop 512 (espImage fs m n fat efi script)) (first + i) =
    Some (if i = k - 1 then 0xFFF else first + i + 1)"
proof -
  have fat: "hasFAT12 fat (first + i)" "length fat = fs * 512"
    using assms by (auto simp: fatHolds_def)
  have "getFAT12 fat j = v AND 0xFFF" if "(j, v) \<in> set (chainCells first k)" for j v
    using that assms by (auto simp: fatHolds_def tableCells_def)
  then show ?thesis
    using assms chain_next [of i k first fat] fat by (auto simp: esp_nextFAT12)
qed

lemma esp_read_dir:
  assumes "fatHolds fat fs m n" "c \<in> {2, 3}" "1 \<le> m"
  shows "readChain 2048 (espImage fs m n fat efi script) (drop 512 (espImage fs m n fat efi script))
      ((33 + 2 * fs) * 512) 2048 c 2048 =
    Some (rd ((33 + 2 * fs) * 512 + (c - 2) * 2048) 2048 (espImage fs m n fat efi script))"
  using assms esp_next_dir [OF assms(1,2)] by (intro readChain_linear [where n = 1]) auto

lemma esp_read_file:
  assumes "fatHolds fat fs m n" "2 + m + n \<le> 4084" "(first, k) \<in> {(4, m), (4 + m, n)}" "sz \<le> k * 2048"
  shows "readChain sz (espImage fs m n fat efi script) (drop 512 (espImage fs m n fat efi script))
      ((33 + 2 * fs) * 512) 2048 first sz =
    Some (rd ((33 + 2 * fs) * 512 + (first - 2) * 2048) sz (espImage fs m n fat efi script))"
  using assms esp_next_chain [OF assms(1,2) _ assms(3)]
  by (intro readChain_linear [where n = k]) auto

lemma walk_script:
  assumes "fatHolds fat fs m n" "2 + m + n \<le> 4084" "length script \<le> n * 2048" "length efi \<le> m * 2048" "fs < 65536"
  shows "readFAT12 (espImage fs m n fat efi script) [autoexecName] = Some script"
proof -
  let ?img = "espImage fs m n fat efi script"
  have fat: "length fat = fs * 512" using assms(1) by (simp add: fatHolds_def)
  obtain r where root: "rd ((1 + 2 * fs) * 512) 16384 ?img = rootBytes (4 + m) (length script) @ r"
    using esp_dir_prefix [OF esp_dirs(1) [OF fat]] by fastforce
  have "unat (of_nat (length script) :: u32) = length script" "unat (of_nat (4 + m) :: u16) = 4 + m"
    using assms(2,3) by (simp_all only: unat_of_nat) (simp_all add: take_bit_eq_mod)
  then have look: "lookupDir (rootBytes (4 + m) (length script) @ r) autoexecName [] 0 = Some (4 + m, length script, False)"
    by (simp only: lookup_script)
  have "readChain (length script) ?img (drop 512 ?img) ((33 + 2 * fs) * 512) 2048 (4 + m) (length script) = Some script"
    using esp_read_file [OF assms(1,2), of "4 + m" n "length script" efi script] assms(3)
      esp_files(2) [OF fat assms(4,3)] by (simp add: algebra_simps)
  then show ?thesis
    by (simp only: readFAT12_esp [OF fat assms(5)] root walkFAT12.simps look option.case prod.case refl if_True)
qed

lemma walk_three:
  assumes "lookupDir dir a [] 0 = Some (c, x, True)" "readChain 2048 img fat data cs c 2048 = Some d"
    "lookupDir d b [] 0 = Some (c', y, True)" "readChain 2048 img fat data cs c' 2048 = Some d'"
    "lookupDir d' f [] 0 = Some (c'', sz, z)" "readChain sz img fat data cs c'' sz = Some r"
  shows "walkFAT12 img fat data cs dir [a, b, f] = Some r"
  using assms by simp

lemma walk_efi:
  assumes "fatHolds fat fs m n" "2 + m + n \<le> 4084" "length script \<le> n * 2048" "length efi \<le> m * 2048" "fs < 65536" "1 \<le> m"
  shows "readFAT12 (espImage fs m n fat efi script) [''EFI'', ''BOOT'', ''BOOTX64.EFI''] = Some efi"
proof -
  let ?img = "espImage fs m n fat efi script" and ?data = "(33 + 2 * fs) * 512"
  have fat: "length fat = fs * 512" using assms(1) by (simp add: fatHolds_def)
  obtain r where root: "rd ((1 + 2 * fs) * 512) 16384 ?img = rootBytes (4 + m) (length script) @ r"
    using esp_dir_prefix [OF esp_dirs(1) [OF fat]] by fastforce
  obtain r2 where d2: "rd ?data 2048 ?img = efiDirBytes @ r2"
    using esp_dir_prefix [OF esp_dirs(2) [OF fat]] by fastforce
  obtain r3 where d3: "rd ((37 + 2 * fs) * 512) 2048 ?img = bootDirBytes (length efi) @ r3"
    using esp_dir_prefix [OF esp_dirs(3) [OF fat]] by fastforce
  have "unat (of_nat (length efi) :: u32) = length efi"
    using assms(2,4) by (simp only: unat_of_nat) (simp add: take_bit_eq_mod)
  then have look: "lookupDir (bootDirBytes (length efi) @ r3) ''BOOTX64.EFI'' [] 0 = Some (4, length efi, False)"
    by (simp only: lookup_BOOTX64)
  have c2: "readChain 2048 ?img (drop 512 ?img) ?data 2048 2 2048 = Some (efiDirBytes @ r2)"
    using esp_read_dir [OF assms(1) _ assms(6), of 2] d2 by simp
  have c3: "readChain 2048 ?img (drop 512 ?img) ?data 2048 3 2048 = Some (bootDirBytes (length efi) @ r3)"
    using esp_read_dir [OF assms(1) _ assms(6), of 3] d3 by (simp add: algebra_simps)
  have "readChain (length efi) ?img (drop 512 ?img) ?data 2048 4 (length efi) = Some efi"
    using esp_read_file [OF assms(1,2), of 4 m "length efi" efi script] assms(4)
      esp_files(1) [OF fat assms(4,3)] by (simp add: algebra_simps)
  then show ?thesis
    unfolding readFAT12_esp [OF fat assms(5)] root
    by (rule walk_three [OF lookup_EFI c2 lookup_BOOT c3 look])
qed

lemma buildESPImage_Ok:
  assumes "script \<noteq> []" "2 + chainLen (length efi) + chainLen (length script) \<le> fatMaxClusters"
  defines "m \<equiv> chainLen (length efi)" and "n \<equiv> chainLen (length script)"
  obtains fs fat where "buildESPImage efi script = Ok (espImage fs m n fat efi script)"
    and "fatHolds fat fs m n" and "fs \<le> 12" and "2 + m + n \<le> 4084"
proof -
  define fs where "fs = fatSectorsFor (4 + m + n)"
  have cl: "2 + m + n \<le> 4084" using assms(2) by (simp add: m_def n_def)
  have small: "fs \<le> 12" using cl by (simp add: fs_def fatSectorsFor_def)
  have "k \<le> (k + 511) div 512 * 512" for k :: nat using round_up [of 512 k] by simp
  then obtain fat where fat: "fatTable fs 4 m (4 + m) n = Ok fat" "fatHolds fat fs m n"
    using fatTable_Ok [of m n fs] unfolding fs_def fatSectorsFor_def by blast
  have "buildESPImage efi script = Ok (espImage fs m n fat efi script)"
    using buildESPImage_layout [OF assms(1) m_def [THEN meta_eq_to_obj_eq] n_def [THEN meta_eq_to_obj_eq] cl fs_def fat(1)] .
  then show thesis using fat(2) small cl by (rule that)
qed

lemma esp_sector_count:
  assumes "fatHolds fat fs m n" "fs \<le> 12" "2 + m + n \<le> 4084"
  shows "u16At 19 (espImage fs m n fat efi script) = Some (41 + 2 * fs + 4 * m + 4 * n)"
proof -
  have "41 + 2 * fs + 4 * m + 4 * n < 65536" using assms(2,3) by simp
  then have "unat (of_nat (41 + 2 * fs + 4 * m + 4 * n) :: u16) = 41 + 2 * fs + 4 * m + 4 * n"
    by (simp add: unat_of_nat take_bit_eq_mod del: of_nat_add of_nat_mult)
  moreover have "rd 19 2 (espImage fs m n fat efi script) = le16 (of_nat (41 + 2 * fs + 4 * m + 4 * n))"
    using esp_boot_fields [of fat fs 19 2] assms(1) boot_fields unfolding fatHolds_def by simp
  moreover have "19 + 2 \<le> length (espImage fs m n fat efi script)" by simp
  ultimately show ?thesis by (simp add: u16At_def slice_def del: length_espImage)
qed

lemma buildESPImage_empty: "buildESPImage efi [] = Err ''empty iPXE script''"
  by (simp add: buildESPImage_def)

lemma buildESPImage_too_large:
  assumes "script \<noteq> []" "2 + chainLen (length efi) + chainLen (length script) > fatMaxClusters"
  shows "buildESPImage efi script = Err (''ESP content needs '' @
    show_nat (2 + chainLen (length efi) + chainLen (length script)) @
    '' clusters, FAT12 limit is '' @ show_nat fatMaxClusters)"
proof -
  have "4 + chainLen (length efi) + chainLen (length script) - 2 =
    2 + chainLen (length efi) + chainLen (length script)" by simp
  moreover have "\<not> length script = 0" using assms(1) by simp
  ultimately show ?thesis
    unfolding buildESPImage_def Let_def using assms(2) by (simp only: if_True if_False)
qed

text \<open>The three ways a call of \<open>buildESPImage\<close> can end.\<close>

lemma buildESPImage_cases:
  obtains (empty) "script = []" "buildESPImage efi script = Err ''empty iPXE script''"
  | (large) e where "script \<noteq> []" "fatMaxClusters < 2 + chainLen (length efi) + chainLen (length script)"
      "buildESPImage efi script = Err e"
  | (image) fs fat where "script \<noteq> []" "2 + chainLen (length efi) + chainLen (length script) \<le> fatMaxClusters"
      "buildESPImage efi script = Ok (espImage fs (chainLen (length efi)) (chainLen (length script)) fat efi script)"
      "fatHolds fat fs (chainLen (length efi)) (chainLen (length script))" "fs \<le> 12"
proof (cases "script = []")
  case True
  then show thesis using empty by (simp add: buildESPImage_empty)
next
  case False
  show thesis
  proof (cases "2 + chainLen (length efi) + chainLen (length script) \<le> fatMaxClusters")
    case True
    show thesis by (rule buildESPImage_Ok [OF False True]) (rule image [OF False True])
  next
    case big: False
    then show thesis
      by (intro large [OF False _ buildESPImage_too_large [OF False]]) simp_all
  qed
qed

section \<open>Properties\<close>

text \<open>
  C4. The composed EFI System Partition is readable: for every non-empty script and every EFI
  binary that fit in the 4084 clusters of a FAT12 volume, \<open>buildESPImage\<close> returns an image, and an
  independent FAT12 reader that follows the boot sector, the directories, the long file name with
  its checksum and the cluster chains gets the binary at \<open>EFI/BOOT/BOOTX64.EFI\<close> and the script at
  \<open>autoexec.ipxe\<close>, byte for byte.
\<close>

theorem esp_image_readable:
  assumes "script \<noteq> []" "2 + chainLen (length efi) + chainLen (length script) \<le> fatMaxClusters"
  shows "\<exists>img. buildESPImage efi script = Ok img
    \<and> readFAT12 img [''EFI'', ''BOOT'', ''BOOTX64.EFI''] = Some efi
    \<and> readFAT12 img [autoexecName] = Some script"
proof -
  let ?m = "chainLen (length efi)" and ?n = "chainLen (length script)"
  obtain fs fat where img: "buildESPImage efi script = Ok (espImage fs ?m ?n fat efi script)"
    and fat: "fatHolds fat fs ?m ?n" and "fs \<le> 12" and cl: "2 + ?m + ?n \<le> 4084"
    using assms by (rule buildESPImage_Ok)
  then have "fs < 65536" by simp
  then show ?thesis
    using img walk_efi [OF fat cl chainLen_enough chainLen_enough _ chainLen_pos]
      walk_script [OF fat cl chainLen_enough chainLen_enough] by blast
qed

theorem esp_image_readable_witness:
  "\<exists>img. buildESPImage [0x4D, 0x5A] [0x23] = Ok img
    \<and> readFAT12 img [''EFI'', ''BOOT'', ''BOOTX64.EFI''] = Some [0x4D, 0x5A]
    \<and> readFAT12 img [autoexecName] = Some [0x23]"
  by (rule esp_image_readable) (simp_all add: chainLen_def)

text \<open>
  C19. \<open>buildESPImage\<close> never indexes out of range, whatever its arguments: it rejects the empty
  script, rejects content of more than 4084 clusters, and otherwise returns an image that is a whole
  number of sectors whose count the 16-bit field at offset 19 of the boot sector carries
  without truncation.
\<close>

theorem esp_image_outcome:
  "case buildESPImage efi script of
     Panic \<Rightarrow> False
   | Err e \<Rightarrow> (if script = [] then e = ''empty iPXE script''
              else fatMaxClusters < 2 + chainLen (length efi) + chainLen (length script))
   | Ok img \<Rightarrow> script \<noteq> [] \<and> 2 + chainLen (length efi) + chainLen (length script) \<le> fatMaxClusters
       \<and> length img mod fatSectorSize = 0 \<and> u16At 19 img = Some (length img div fatSectorSize)"
  by (cases rule: buildESPImage_cases [of script efi]) (simp_all add: esp_sector_count)

text \<open>
  The 12-bit cells of the allocation table do not disturb each other: after any sequence of
  \<open>setFAT12\<close> calls on distinct cells inside the table, none of which panics, the reader gets at
  each cell the low twelve bits of the value written there, and the table keeps its length.
\<close>

lemma setFAT12_cells:
  assumes "distinct (map fst us)" "\<forall>u \<in> set us. fst u * 3 div 2 + 1 < length fat"
  shows "\<exists>fat'. run (map (\<lambda>(i, v). setFAT12 i v) us) fat = Ok fat' \<and> length fat' = length fat
    \<and> (\<forall>(i, v) \<in> set us. nextFAT12 fat' i = Some (unat (v AND 0xFFF)))"
proof -
  obtain fat' where run: "run (map (\<lambda>(i, v). setFAT12 i v) us) fat = Ok fat'"
    and get: "\<forall>(i, v) \<in> set us. getFAT12 fat' i = v AND 0xFFF"
    using fat12.set_all [of us fat] assms by (auto simp: hasFAT12_def)
  have len: "length fat' = length fat" by (rule run_setFAT12_length [OF run])
  have "nextFAT12 fat' i = Some (unat (v AND 0xFFF))" if "(i, v) \<in> set us" for i v
    using nextFAT12_get [of i fat'] get assms(2) that len by fastforce
  with run len show ?thesis by blast
qed

end
