(* ===== verification/Iso_Image.thy ===== *)
theory Iso_Image
  imports Fat_Image
begin

unbundle bit_operations_syntax

text \<open>
  The ISO 9660 composer of \<^verbatim>\<open>images/maas-boot-proxy/isoimage.go\<close> (\<open>putBoth16\<close>, \<open>putBoth32\<close>,
  \<open>padText\<close>, \<open>isoDirRecord\<close>, \<open>isoDate\<close>, \<open>pathTableBytes\<close>, \<open>buildBootISO\<close>), and two readers that
  specify it: the firmware's view (the El Torito boot record, the boot catalog with its checksum and
  the boot image it points at), after \<open>TestBootISOStructure\<close> of \<^verbatim>\<open>isoimage_test.go\<close>, and the
  view of an ISO 9660 file system (the root directory reached from the primary volume descriptor).
\<close>

section \<open>Definitions\<close>

definition isoSectorSize :: nat where [simp]: "isoSectorSize = 2048"
definition espBootPath :: string where "espBootPath = ''ESP.IMG;1''"
definition lbaPVD :: nat where [simp]: "lbaPVD = 16"
definition lbaBoot :: nat where [simp]: "lbaBoot = 17"
definition lbaTerm :: nat where [simp]: "lbaTerm = 18"
definition lbaCatalog :: nat where [simp]: "lbaCatalog = 19"
definition lbaRoot :: nat where [simp]: "lbaRoot = 20"
definition lbaPathL :: nat where [simp]: "lbaPathL = 21"
definition lbaPathM :: nat where [simp]: "lbaPathM = 22"
definition lbaESP :: nat where [simp]: "lbaESP = 23"

definition putBoth16 :: "nat \<Rightarrow> u16 \<Rightarrow> stmt" where
  "putBoth16 off v = run [put off (le16 v), put (off + 2) (be16 v)]"

definition putBoth32 :: "nat \<Rightarrow> u32 \<Rightarrow> stmt" where
  "putBoth32 off v = run [put off (le32 v), put (off + 4) (be32 v)]"

definition padText :: "string \<Rightarrow> stmt" where
  "padText s dst = copyTo 0 (bytes_of s) (replicate (length dst) 0x20)"

definition isoDirRecord :: "bytes \<Rightarrow> u32 \<Rightarrow> u32 \<Rightarrow> byte \<Rightarrow> bytes outcome" where
  "isoDirRecord ident extent sz flags =
     (let n = 33 + length ident; n = (if n mod 2 = 1 then n + 1 else n) in
      run [put 0 [of_nat n],
           putBoth32 2 extent,
           putBoth32 10 sz,
           copyTo 18 [100, 1, 1, 0, 0, 0, 0],
           put 25 [flags],
           putBoth16 28 1,
           put 32 [of_nat (length ident)],
           copyTo 33 ident] (replicate n 0))"

definition isoDate :: "bool \<Rightarrow> bytes" where
  "isoDate unset = (if unset then bytes_of ''0000000000000000'' @ [0] else bytes_of ''2000010100000000'' @ [0])"

datatype byteOrder = LittleEndian | BigEndian

fun putUint32 :: "byteOrder \<Rightarrow> nat \<Rightarrow> u32 \<Rightarrow> stmt" where
  "putUint32 LittleEndian off v = put off (le32 v)"
| "putUint32 BigEndian off v = put off (be32 v)"

fun putUint16 :: "byteOrder \<Rightarrow> nat \<Rightarrow> u16 \<Rightarrow> stmt" where
  "putUint16 LittleEndian off v = put off (le16 v)"
| "putUint16 BigEndian off v = put off (be16 v)"

definition pathTableBytes :: "byteOrder \<Rightarrow> bytes outcome" where
  "pathTableBytes order = run
     [put 0 [1],
      putUint32 order 2 (of_nat lbaRoot),
      putUint16 order 6 1] (replicate 10 0)"

text \<open>The closure \<open>sector\<close> of \<open>buildBootISO\<close>: statements on one sector of the image.\<close>

definition sector :: "nat \<Rightarrow> stmt \<Rightarrow> stmt" where
  "sector lba = window (lba * isoSectorSize) ((lba + 1) * isoSectorSize)"

definition volumeDescriptor :: "nat \<Rightarrow> bytes \<Rightarrow> bytes \<Rightarrow> stmt" where
  "volumeDescriptor isoTotal rootRec pathTable = run
     [put 0 [1],
      copyTo 1 (bytes_of ''CD001''),
      put 6 [1],
      window 8 40 (padText []),
      window 40 72 (padText ''IPXE_BOOT''),
      putBoth32 80 (of_nat isoTotal),
      putBoth16 120 1,
      putBoth16 124 1,
      putBoth16 128 (of_nat isoSectorSize),
      putBoth32 132 (of_nat (length pathTable)),
      put 140 (le32 (of_nat lbaPathL)),
      put 148 (be32 (of_nat lbaPathM)),
      copyTo 156 rootRec,
      window 190 318 (padText []),
      window 318 446 (padText []),
      window 446 574 (padText []),
      window 574 702 (padText []),
      window 702 739 (padText []),
      window 739 776 (padText []),
      window 776 813 (padText []),
      copyTo 813 (isoDate False),
      copyTo 830 (isoDate False),
      copyTo 847 (isoDate True),
      copyTo 864 (isoDate False),
      put 881 [1]]"

definition bootRecord :: stmt where
  "bootRecord = run
     [copyTo 1 (bytes_of ''CD001''),
      put 6 [1],
      copyTo 7 (bytes_of ''EL TORITO SPECIFICATION''),
      put 71 (le32 (of_nat lbaCatalog))]"

definition terminator :: stmt where
  "terminator = run
     [put 0 [255],
      copyTo 1 (bytes_of ''CD001''),
      put 6 [1]]"

text \<open>The sum of the sixteen little endian words of the validation entry, modulo \<open>2 ^ 16\<close>.\<close>

definition catalogSum :: "bytes \<Rightarrow> u16" where
  "catalogSum cat = sum_list (map (\<lambda>i. of_le16 (rd (2 * i) 2 cat)) [0..<16])"

definition bootCatalog :: "nat \<Rightarrow> stmt" where
  "bootCatalog espLen = run
     [put 0 [1],
      put 1 [0xEF],
      window 4 28 (copyTo 0 (bytes_of ''IPXE UEFI BOOT'')),
      put 30 [0x55], put 31 [0xAA],
      (\<lambda>cat. if length cat < 32 then Panic else put 28 (le16 (- catalogSum cat)) cat),
      put 32 [0x88],
      put 38 (le16 (of_nat (espLen div 512))),
      put 40 (le32 (of_nat lbaESP))]"

definition buildBootISO :: "bytes \<Rightarrow> bytes \<Rightarrow> bytes outcome" where
  "buildBootISO efi script =
     (if length efi = 0 then Err ''empty iPXE EFI binary'' else
      obind (buildESPImage efi script) (\<lambda>esp.
      let espSectors = (length esp + isoSectorSize - 1) div isoSectorSize;
          isoTotal = lbaESP + espSectors
      in obind (isoDirRecord [0] (of_nat lbaRoot) (of_nat isoSectorSize) 2) (\<lambda>rootRec.
         obind (pathTableBytes LittleEndian) (\<lambda>pathTable.
         obind (pathTableBytes BigEndian) (\<lambda>pathTableM. run
           [sector lbaPVD (volumeDescriptor isoTotal rootRec pathTable),
            sector lbaBoot bootRecord,
            sector lbaTerm terminator,
            sector lbaCatalog (bootCatalog (length esp)),
            sector lbaRoot (putDir 0
              [isoDirRecord [0] (of_nat lbaRoot) (of_nat isoSectorSize) 2,
               isoDirRecord [1] (of_nat lbaRoot) (of_nat isoSectorSize) 2,
               isoDirRecord (bytes_of espBootPath) (of_nat lbaESP) (of_nat (length esp)) 0]),
            sector lbaPathL (copyTo 0 pathTable),
            sector lbaPathM (copyTo 0 pathTableM),
            copyTo (lbaESP * isoSectorSize) esp]
           (replicate (isoTotal * isoSectorSize) 0))))))"

section \<open>The readers\<close>

definition u32At :: "nat \<Rightarrow> bytes \<Rightarrow> nat option" where
  "u32At off b = map_option (\<lambda>s. unat (of_le32 s)) (slice off 4 b)"

text \<open>
  The firmware: it checks the descriptors, follows the boot record to the catalog, checks the
  validation entry and its checksum, and returns the boot image of the default entry together with
  its length in 512-byte sectors.
\<close>

definition elTorito :: "bytes \<Rightarrow> (bytes \<times> nat) option" where
  "elTorito img =
     (case (u32At (lbaPVD * isoSectorSize + 80) img, u32At (lbaBoot * isoSectorSize + 71) img) of
        (Some space, Some catLBA) \<Rightarrow>
          (case slice (catLBA * isoSectorSize) isoSectorSize img of None \<Rightarrow> None
           | Some cat \<Rightarrow>
              if slice (lbaPVD * isoSectorSize) 6 img = Some (1 # bytes_of ''CD001'')
                \<and> space * isoSectorSize = length img
                \<and> slice (lbaTerm * isoSectorSize) 6 img = Some (255 # bytes_of ''CD001'')
                \<and> slice (lbaBoot * isoSectorSize) 6 img = Some (0 # bytes_of ''CD001'')
                \<and> slice (lbaBoot * isoSectorSize + 7) 23 img = Some (bytes_of ''EL TORITO SPECIFICATION'')
                \<and> rd 0 2 cat = [1, 0xEF] \<and> rd 30 2 cat = [0x55, 0xAA]
                \<and> catalogSum cat = 0
                \<and> rd 32 2 cat = [0x88, 0]
              then Some (drop (unat (of_le32 (rd 40 4 cat)) * isoSectorSize) img, unat (of_le16 (rd 38 2 cat)))
              else None)
      | _ \<Rightarrow> None)"

text \<open>
  An ISO 9660 directory extent is a sequence of records, each led by its own length. \<open>isoLookup\<close>
  returns the extent and the size of the record with the given identifier; \<open>isoFile\<close> goes through
  the root record of the primary volume descriptor.
\<close>

function isoLookup :: "bytes \<Rightarrow> bytes \<Rightarrow> (nat \<times> nat) option" where
  "isoLookup dir ident =
     (if dir = [] \<or> hd dir = 0 \<or> length dir < unat (hd dir) then None
      else if rd 33 (unat (dir ! 32)) dir = ident
      then Some (unat (of_le32 (rd 2 4 dir)), unat (of_le32 (rd 10 4 dir)))
      else isoLookup (drop (unat (hd dir)) dir) ident)"
  by pat_completeness auto
termination
  by (relation "measure (\<lambda>(dir, _). length dir)") (auto simp: unat_gt_0)

declare isoLookup.simps [simp del]

definition isoFile :: "bytes \<Rightarrow> string \<Rightarrow> bytes option" where
  "isoFile img name =
     (case (u32At (lbaPVD * isoSectorSize + 158) img, u32At (lbaPVD * isoSectorSize + 166) img) of
        (Some extent, Some sz) \<Rightarrow>
          (case slice (extent * isoSectorSize) sz img of None \<Rightarrow> None
           | Some dir \<Rightarrow> (case isoLookup dir (bytes_of name) of None \<Rightarrow> None
              | Some (lba, n) \<Rightarrow> slice (lba * isoSectorSize) n img))
      | _ \<Rightarrow> None)"

section \<open>The readers on an image with trailing bytes\<close>

lemma slice_append: "slice off n b = Some s \<Longrightarrow> slice off n (b @ z) = Some s"
  by (auto simp: slice_def rd_def split: if_splits)

lemma u16At_append: "u16At off b = Some v \<Longrightarrow> u16At off (b @ z) = Some v"
  using slice_append [of off 2 b _ z] by (fastforce simp: u16At_def)

lemma u8At_append: "u8At off b = Some v \<Longrightarrow> u8At off (b @ z) = Some v"
  using slice_append [of off 1 b _ z] by (fastforce simp: u8At_def)

lemma nextFAT12_append: "nextFAT12 fat c = Some v \<Longrightarrow> nextFAT12 (fat @ z) c = Some v"
  unfolding nextFAT12_def map_option_eq_Some using u16At_append [of "c * 3 div 2" fat _ z] by blast

lemma readChain_append:
  "readChain fuel img fat dataStart csize c sz = Some d
    \<Longrightarrow> readChain fuel (img @ y) (fat @ z) dataStart csize c sz = Some d"
proof (induction fuel arbitrary: c sz d)
  case 0
  then show ?case by (simp add: readChain.simps [of 0] split: if_splits)
next
  case (Suc fuel)
  show ?case
  proof (cases "c < 0xFF8 \<and> 0 < sz")
    case True
    with Suc.prems obtain e c' r where e: "slice (dataStart + (c - 2) * csize) csize img = Some e"
      and c': "nextFAT12 fat c = Some c'"
      and r: "readChain fuel img fat dataStart csize c' (sz - csize) = Some r" "d = take sz e @ r"
      by (auto simp: readChain.simps [of "Suc fuel"] split: option.splits)
    show ?thesis
      using True r(2) slice_append [OF e] nextFAT12_append [OF c'] Suc.IH [OF r(1)]
      by (simp add: readChain.simps [of "Suc fuel"])
  next
    case False
    with Suc.prems show ?thesis by (auto simp: readChain.simps [of "Suc fuel"])
  qed
qed

lemma walkFAT12_append:
  "walkFAT12 img fat dataStart csize dir path = Some d
    \<Longrightarrow> walkFAT12 (img @ y) (fat @ z) dataStart csize dir path = Some d"
proof (induction path arbitrary: dir)
  case (Cons name path)
  from Cons.prems obtain c sz isDir where look: "lookupDir dir name [] 0 = Some (c, sz, isDir)"
    by (auto split: option.splits)
  show ?case
  proof (cases "path = []")
    case True
    with Cons.prems look show ?thesis by (simp add: readChain_append)
  next
    case False
    with Cons.prems look obtain dir' where isDir
      and r: "readChain fatClusterSize img fat dataStart csize c fatClusterSize = Some dir'"
      and w: "walkFAT12 img fat dataStart csize dir' path = Some d"
      by (auto split: option.splits if_splits)
    with False look readChain_append [OF r, of y z] Cons.IH [OF w] show ?thesis by simp
  qed
qed simp

lemma readFAT12_append:
  assumes "readFAT12 img path = Some d"
  shows "readFAT12 (img @ z) path = Some d"
proof -
  from assms obtain bps spc reserved nfats rootEntries fatSectors dir where
    geo: "u16At 11 img = Some bps" "u8At 13 img = Some spc" "u16At 14 img = Some reserved"
      "u8At 16 img = Some nfats" "u16At 17 img = Some rootEntries" "u16At 22 img = Some fatSectors"
    and magic: "slice 54 8 img = Some (bytes_of ''FAT12   '')" "slice 510 2 img = Some [0x55, 0xAA]"
    and dir: "slice ((reserved + nfats * fatSectors) * bps) (rootEntries * 32) img = Some dir"
    and walk: "walkFAT12 img (drop (reserved * bps) img)
      ((reserved + nfats * fatSectors) * bps + rootEntries * 32) (spc * bps) dir path = Some d"
    by (auto simp: readFAT12_def Let_def split: option.splits if_splits)
  from walkFAT12_append [OF walk, of z "drop (reserved * bps - length img) z"] show ?thesis
    by (simp only: readFAT12_def u16At_append [OF geo(1)] u8At_append [OF geo(2)] u16At_append [OF geo(3)]
      u8At_append [OF geo(4)] u16At_append [OF geo(5)] u16At_append [OF geo(6)] slice_append [OF magic(1)]
      slice_append [OF magic(2)] slice_append [OF dir] prod.case option.case Let_def if_False simp_thms drop_append)
qed

section \<open>Directory records\<close>

lemma wr_append_left: "off + length s \<le> length a \<Longrightarrow> wr off s (a @ b) = wr off s a @ b"
  by (simp add: wr_def)

lemma wr_append_right: "length a = off \<Longrightarrow> wr off s (a @ b) = a @ wr 0 s b"
  by (simp add: wr_def)

lemma wr_replicate: "length s \<le> n \<Longrightarrow> wr 0 s (replicate n v) = s @ replicate (n - length s) v"
  by (simp add: wr_def)

lemma putBoth32_Ok [buffer_simps]: "off + 8 \<le> length b \<Longrightarrow> putBoth32 off v b = Ok (wr off (le32 v @ be32 v) b)"
  using wr_wr_append [of off "le32 v" "be32 v" b] by (simp add: putBoth32_def put_Ok)

lemma putBoth16_Ok [buffer_simps]: "off + 4 \<le> length b \<Longrightarrow> putBoth16 off v b = Ok (wr off (le16 v @ be16 v) b)"
  using wr_wr_append [of off "le16 v" "be16 v" b] by (simp add: putBoth16_def put_Ok)

definition recordHead :: "nat \<Rightarrow> u32 \<Rightarrow> u32 \<Rightarrow> byte \<Rightarrow> nat \<Rightarrow> bytes" where
  "recordHead n extent sz flags k = [of_nat n, 0] @ (le32 extent @ be32 extent) @ (le32 sz @ be32 sz) @
     [100, 1, 1, 0, 0, 0, 0] @ [flags, 0, 0] @ (le16 1 @ be16 1) @ [of_nat k]"

definition recordBytes :: "bytes \<Rightarrow> u32 \<Rightarrow> u32 \<Rightarrow> byte \<Rightarrow> bytes" where
  "recordBytes ident extent sz flags =
     (let n = 33 + length ident + (33 + length ident) mod 2
      in recordHead n extent sz flags (length ident) @ ident @ replicate ((33 + length ident) mod 2) 0)"

lemma length_recordHead [simp]: "length (recordHead n extent sz flags k) = 33"
  by (simp add: recordHead_def)

lemma replicate_33: "replicate 33 (0::byte) = [0,0,0,0,0,0,0,0,0,0,0,0,0,0,0,0,0,0,0,0,0,0,0,0,0,0,0,0,0,0,0,0,0]"
  by (simp add: numeral_eq_Suc)

lemma recordHead_Ok:
  "run [put 0 [of_nat n], putBoth32 2 extent, putBoth32 10 sz, copyTo 18 [100, 1, 1, 0, 0, 0, 0],
       put 25 [flags], putBoth16 28 1, put 32 [of_nat k]] (replicate 33 0 @ r)
    = Ok (recordHead n extent sz flags k @ r)"
  by (simp add: recordHead_def put_Ok copyTo_Ok putBoth32_Ok putBoth16_Ok wr_append_left replicate_33)
    (simp add: wr_def le32_def be32_def le16_def be16_def)

lemma isoDirRecord_Ok: "isoDirRecord ident extent sz flags = Ok (recordBytes ident extent sz flags)"
proof -
  define p where "p = (33 + length ident) mod 2"
  let ?n = "33 + length ident + p"
  have n: "(if (33 + length ident) mod 2 = 1 then 33 + length ident + 1 else 33 + length ident) = ?n"
    unfolding p_def by (cases "(33 + length ident) mod 2 = 1") auto
  have rep: "replicate ?n (0::byte) = replicate 33 0 @ replicate (length ident + p) 0"
    by (simp only: replicate_add append_assoc)
  have "isoDirRecord ident extent sz flags = run
      ([put 0 [of_nat ?n], putBoth32 2 extent, putBoth32 10 sz, copyTo 18 [100, 1, 1, 0, 0, 0, 0],
       put 25 [flags], putBoth16 28 1, put 32 [of_nat (length ident)]] @ [copyTo 33 ident]) (replicate ?n 0)"
    unfolding isoDirRecord_def Let_def n by (simp only: append.simps)
  also have "\<dots> = Ok (recordBytes ident extent sz flags)"
    unfolding run_append rep recordHead_Ok recordBytes_def Let_def p_def [symmetric]
    by (simp add: copyTo_Ok wr_append_right wr_replicate)
  finally show ?thesis .
qed

lemma isoLookup_record:
  assumes "length ident \<le> 200"
  shows "isoLookup (recordBytes ident extent sz flags @ rest) name =
    (if ident = name then Some (unat extent, unat sz) else isoLookup rest name)"
proof -
  define p where "p = (33 + length ident) mod 2"
  let ?n = "33 + length ident + p" and ?d = "recordBytes ident extent sz flags @ rest"
  have p: "p \<le> 1" by (simp add: p_def)
  have d: "?d = recordHead ?n extent sz flags (length ident) @ ident @ replicate p 0 @ rest"
    by (simp add: recordBytes_def Let_def p_def)
  have n: "unat (of_nat ?n :: byte) = ?n" "unat (of_nat (length ident) :: byte) = length ident"
    using assms p by (simp_all only: unat_of_nat take_bit_eq_mod, simp_all)
  have hd: "?d \<noteq> []" "hd ?d = of_nat ?n" "?d ! 32 = of_nat (length ident)"
    unfolding d by (simp_all add: recordHead_def le32_def be32_def le16_def be16_def)
  have len: "?n \<le> length ?d" unfolding d by simp
  have fields: "rd 33 (length ident) ?d = ident" "rd 2 4 ?d = le32 extent" "rd 10 4 ?d = le32 sz" "drop ?n ?d = rest"
    unfolding d by (simp_all add: rd_def) (simp_all add: recordHead_def le32_def be32_def le16_def be16_def)
  have "(of_nat ?n :: byte) \<noteq> 0" using n(1) by (metis add_is_0 unat_0 zero_neq_numeral)
  then show ?thesis
    using len by (subst isoLookup.simps) (simp only: hd n fields of_le32_le32 not_less [symmetric] simp_thms if_False refl)
qed

section \<open>The sectors\<close>

lemma window_padText [buffer_simps]:
  assumes "lo \<le> hi" "hi \<le> length b" "length s \<le> hi - lo"
  shows "window lo hi (padText s) b = Ok (wr lo (bytes_of s @ replicate (hi - lo - length s) 0x20) b)"
  using assms by (intro window_Ok) (simp_all add: padText_def copyTo_Ok wr_replicate length_rd)

lemma head_tag: "rd 0 6 b = rd 0 (Suc 0) b @ rd 1 5 b"
  using rd_append [of 0 1 b 5] by simp

definition pvdBytes :: "nat \<Rightarrow> bytes \<Rightarrow> bytes \<Rightarrow> bytes" where
  "pvdBytes tot rec pt = fold (\<lambda>(off, s). wr off s)
     [(0, [1]), (1, bytes_of ''CD001''), (6, [1]), (8, replicate 32 0x20),
      (40, bytes_of ''IPXE_BOOT'' @ replicate 23 0x20), (80, le32 (of_nat tot) @ be32 (of_nat tot)),
      (120, le16 1 @ be16 1), (124, le16 1 @ be16 1), (128, le16 2048 @ be16 2048),
      (132, le32 (of_nat (length pt)) @ be32 (of_nat (length pt))), (140, le32 21), (148, be32 22),
      (156, rec), (190, replicate 128 0x20), (318, replicate 128 0x20), (446, replicate 128 0x20),
      (574, replicate 128 0x20), (702, replicate 37 0x20), (739, replicate 37 0x20), (776, replicate 37 0x20),
      (813, isoDate False), (830, isoDate False), (847, isoDate True), (864, isoDate False), (881, [1])]
     (replicate 2048 0)"

lemma length_isoDate [simp]: "length (isoDate u) = 17"
  by (simp add: isoDate_def)

lemma volumeDescriptor_Ok:
  "volumeDescriptor tot rec pt (replicate 2048 0) = Ok (pvdBytes tot rec pt)"
  by (simp add: volumeDescriptor_def pvdBytes_def put_Ok copyTo_Ok putBoth32_Ok putBoth16_Ok window_padText)

lemma pvd_fields:
  assumes "length rec = 34"
  shows "length (pvdBytes tot rec pt) = 2048" "rd 0 6 (pvdBytes tot rec pt) = 1 # bytes_of ''CD001''"
    "rd 80 4 (pvdBytes tot rec pt) = le32 (of_nat tot)" "rd 156 34 (pvdBytes tot rec pt) = rec"
  using assms by (simp_all add: pvdBytes_def head_tag buffer_simps rd_self rd_prefix)

definition bootBlock :: bytes where
  "bootBlock = fold (\<lambda>(off, s). wr off s)
     [(1, bytes_of ''CD001''), (6, [1]), (7, bytes_of ''EL TORITO SPECIFICATION''), (71, le32 19)] (replicate 2048 0)"

lemma bootRecord_Ok: "bootRecord (replicate 2048 0) = Ok bootBlock"
  by (simp add: bootRecord_def bootBlock_def put_Ok copyTo_Ok)

lemma boot_block_fields:
  "length bootBlock = 2048" "rd 0 6 bootBlock = 0 # bytes_of ''CD001''"
  "rd 7 23 bootBlock = bytes_of ''EL TORITO SPECIFICATION''" "rd 71 4 bootBlock = le32 19"
  by (simp_all add: bootBlock_def head_tag buffer_simps rd_self)

definition termBlock :: bytes where
  "termBlock = fold (\<lambda>(off, s). wr off s) [(0, [255]), (1, bytes_of ''CD001''), (6, [1])] (replicate 2048 0)"

lemma terminator_Ok: "terminator (replicate 2048 0) = Ok termBlock"
  by (simp add: terminator_def termBlock_def put_Ok copyTo_Ok)

lemma term_block_fields: "length termBlock = 2048" "rd 0 6 termBlock = 255 # bytes_of ''CD001''"
  by (simp_all add: termBlock_def head_tag buffer_simps rd_self)

text \<open>
  The checksum word at offset 28 is written over a zero word, so that all sixteen words of the
  validation entry sum to zero; the default entry behind it is outside the sum.
\<close>

lemma catalogSum_fix:
  assumes "32 \<le> length cat" "rd 28 2 cat = [0, 0]"
  shows "catalogSum (wr 28 (le16 (- catalogSum cat)) cat) = 0"
proof -
  have 0: "of_le16 [0, 0] = 0" by (simp add: of_le16_def)
  have split: "[0..<16] = [0..<14] @ [14, 15]" by (simp add: upt_rec)
  have m: "map (\<lambda>i. of_le16 (rd (2 * i) 2 (wr 28 (le16 v) cat))) [0..<14] =
      map (\<lambda>i. of_le16 (rd (2 * i) 2 cat)) [0..<14]" for v
    by (intro map_cong) (simp_all add: rd_wr_before)
  have "catalogSum (wr 28 (le16 v) cat) = catalogSum cat + v" for v
    using assms unfolding catalogSum_def split map_append m by (simp add: buffer_simps rd_self 0 add_ac)
  then show ?thesis by simp
qed

lemma catalogSum_outside: "32 \<le> off \<Longrightarrow> catalogSum (wr off s cat) = catalogSum cat"
  unfolding catalogSum_def by (intro arg_cong [where f = sum_list] map_cong) (simp_all add: rd_wr_before)

definition validationBlock :: bytes where
  "validationBlock = fold (\<lambda>(off, s). wr off s)
     [(0, [1]), (1, [0xEF]), (4, bytes_of ''IPXE UEFI BOOT''), (30, [0x55]), (31, [0xAA])] (replicate 2048 0)"

definition catalogBlock :: "nat \<Rightarrow> bytes" where
  "catalogBlock k = fold (\<lambda>(off, s). wr off s)
     [(28, le16 (- catalogSum validationBlock)), (32, [0x88]), (38, le16 (of_nat k)), (40, le32 23)] validationBlock"

lemma length_validationBlock [simp]: "length validationBlock = 2048"
  by (simp add: validationBlock_def)

lemma bootCatalog_Ok: "bootCatalog n (replicate 2048 0) = Ok (catalogBlock (n div 512))"
proof -
  have w: "window 4 28 (copyTo 0 (bytes_of ''IPXE UEFI BOOT'')) b = Ok (wr 4 (bytes_of ''IPXE UEFI BOOT'') b)"
    if "28 \<le> length b" for b
  proof -
    have "wr 4 (wr 0 s (rd 4 24 b)) b = wr 4 s b" if "length s \<le> 24" for s
      using \<open>28 \<le> length b\<close> that by (intro nth_equalityI) (auto simp: nth_wr nth_rd length_rd)
    then show ?thesis using that by (simp add: window_def copyTo_Ok)
  qed
  show ?thesis
    by (simp add: bootCatalog_def catalogBlock_def validationBlock_def put_Ok w)
qed

lemma rd_two: "rd off 2 b = rd off (Suc 0) b @ rd (Suc off) (Suc 0) b"
  using rd_append [of off 1 b 1] by (simp add: numeral_2_eq_2)

lemma catalog_fields:
  "length (catalogBlock k) = 2048" "rd 0 2 (catalogBlock k) = [1, 0xEF]" "rd 30 2 (catalogBlock k) = [0x55, 0xAA]"
  "rd 32 2 (catalogBlock k) = [0x88, 0]" "rd 38 2 (catalogBlock k) = le16 (of_nat k)"
  "rd 40 4 (catalogBlock k) = le32 23"
  by (simp_all add: catalogBlock_def validationBlock_def buffer_simps rd_self)
    (simp_all add: rd_two buffer_simps rd_self)

lemma catalog_sum: "catalogSum (catalogBlock k) = 0"
proof -
  have "rd 28 2 validationBlock = [0, 0]"
    by (simp add: validationBlock_def buffer_simps numeral_2_eq_2)
  then show ?thesis by (simp add: catalogBlock_def catalogSum_outside catalogSum_fix)
qed

section \<open>The image\<close>

definition rootExtent :: "nat \<Rightarrow> bytes" where
  "rootExtent n = recordBytes [0] 20 2048 2 @ recordBytes [1] 20 2048 2 @
     recordBytes (bytes_of espBootPath) 23 (of_nat n) 0"

definition pathBytes :: "byteOrder \<Rightarrow> bytes" where
  "pathBytes order = (case order of
     LittleEndian \<Rightarrow> [1, 0] @ le32 20 @ le16 1 @ [0, 0] | BigEndian \<Rightarrow> [1, 0] @ be32 20 @ be16 1 @ [0, 0])"

lemma pathTableBytes_Ok: "pathTableBytes order = Ok (pathBytes order)"
proof -
  have "replicate 10 (0::byte) = [0,0,0,0,0,0,0,0,0,0]" by (simp add: numeral_eq_Suc)
  then show ?thesis
    by (cases order) (simp_all add: pathTableBytes_def pathBytes_def put_Ok wr_def le32_def be32_def le16_def be16_def)
qed

lemma length_pathBytes [simp]: "length (pathBytes order) = 10"
  by (cases order) (simp_all add: pathBytes_def)

lemma length_records [simp]: "length (recordBytes [v] e s f) = 34"
  "length (recordBytes (bytes_of espBootPath) e s f) = 42" "length (rootExtent n) = 110"
  by (simp_all add: recordBytes_def rootExtent_def espBootPath_def Let_def)

lemma root_Ok:
  "putDir 0 [Ok (recordBytes [0] 20 2048 2), Ok (recordBytes [1] 20 2048 2),
     Ok (recordBytes (bytes_of espBootPath) 23 (of_nat n) 0)] (replicate 2048 0)
   = Ok (wr 0 (rootExtent n) (replicate 2048 0))"
  using length_records(3) [of n]
  by (simp add: putDir_def putEntries_Ok rootExtent_def del: putEntries.simps)

definition isoBytes :: "nat \<Rightarrow> bytes \<Rightarrow> bytes" where
  "isoBytes k esp =
      wr 47104 esp
     (wr 45056 (wr 0 (pathBytes BigEndian) (replicate 2048 0))
     (wr 43008 (wr 0 (pathBytes LittleEndian) (replicate 2048 0))
     (wr 40960 (wr 0 (rootExtent (length esp)) (replicate 2048 0))
     (wr 38912 (catalogBlock (length esp div 512))
     (wr 36864 termBlock
     (wr 34816 bootBlock
     (wr 32768 (pvdBytes (23 + k) (recordBytes [0] 20 2048 2) (pathBytes LittleEndian))
     (replicate ((23 + k) * 2048) 0))))))))"

lemma sector_Ok:
  assumes "(l + 1) * 2048 \<le> length b" "rd (l * 2048) 2048 b = replicate 2048 0" "c (replicate 2048 0) = Ok s"
  shows "sector l c b = Ok (wr (l * 2048) s b)"
  using assms unfolding sector_def isoSectorSize_def by (intro window_Ok) simp_all

lemma buildBootISO_layout:
  assumes "efi \<noteq> []" "buildESPImage efi script = Ok esp"
  shows "buildBootISO efi script = Ok (isoBytes ((length esp + 2047) div 2048) esp)"
proof -
  define k where "k = (length esp + 2047) div 2048"
  have k: "(length esp + 2048 - 1) div 2048 = k" by (simp add: k_def)
  have fields: "length (pvdBytes tot (recordBytes [0] 20 2048 2) pt) = 2048" for tot pt by (rule pvd_fields) simp
  show ?thesis
    using assms(1) unfolding buildBootISO_def assms(2) obind.simps Let_def k_def [symmetric] isoSectorSize_def k
      lbaPVD_def lbaBoot_def lbaTerm_def lbaCatalog_def lbaRoot_def lbaPathL_def lbaPathM_def lbaESP_def
      isoDirRecord_Ok pathTableBytes_Ok run.simps
    by (simp add: sector_Ok root_Ok volumeDescriptor_Ok bootRecord_Ok terminator_Ok bootCatalog_Ok copyTo_Ok
        fields boot_block_fields(1) term_block_fields(1) catalog_fields(1) rd_wr_after rd_replicate isoBytes_def)
qed

lemma length_isoBytes [simp]: "length (isoBytes k esp) = (23 + k) * 2048"
  by (simp add: isoBytes_def)

lemma iso_sectors:
  shows "rd 32768 2048 (isoBytes k esp) = pvdBytes (23 + k) (recordBytes [0] 20 2048 2) (pathBytes LittleEndian)"
    and "rd 34816 2048 (isoBytes k esp) = bootBlock" and "rd 36864 2048 (isoBytes k esp) = termBlock"
    and "rd 38912 2048 (isoBytes k esp) = catalogBlock (length esp div 512)"
    and "rd 40960 2048 (isoBytes k esp) = wr 0 (rootExtent (length esp)) (replicate 2048 0)"
proof -
  have len: "length (pvdBytes tot (recordBytes [0] 20 2048 2) pt) = 2048" for tot pt by (rule pvd_fields) simp
  note sizes = len boot_block_fields(1) term_block_fields(1) catalog_fields(1)
  show "rd 32768 2048 (isoBytes k esp) = pvdBytes (23 + k) (recordBytes [0] 20 2048 2) (pathBytes LittleEndian)"
    "rd 34816 2048 (isoBytes k esp) = bootBlock" "rd 36864 2048 (isoBytes k esp) = termBlock"
    "rd 38912 2048 (isoBytes k esp) = catalogBlock (length esp div 512)"
    "rd 40960 2048 (isoBytes k esp) = wr 0 (rootExtent (length esp)) (replicate 2048 0)"
    by (simp_all add: isoBytes_def rd_wr_before rd_wr_inside sizes rd_self)
qed

lemma iso_field:
  assumes "off + n \<le> 2048" "lba < 23"
  shows "slice (lba * 2048 + off) n (isoBytes k esp) = Some (rd off n (rd (lba * 2048) 2048 (isoBytes k esp)))"
  using assms by (simp add: slice_def rd_rd)

lemma drop_wr_at: "drop off (wr off s b) = wr 0 s (drop off b)"
  by (rule nth_equalityI) (auto simp: nth_wr)

lemma drop_wr_after: "off' + length s \<le> off \<Longrightarrow> drop off (wr off' s b) = drop off b"
  by (rule nth_equalityI) (auto simp: nth_wr)

lemma iso_esp:
  assumes "length esp \<le> k * 2048"
  shows "drop 47104 (isoBytes k esp) = esp @ replicate (k * 2048 - length esp) 0"
proof -
  have len: "length (pvdBytes tot (recordBytes [0] 20 2048 2) pt) = 2048" for tot pt by (rule pvd_fields) simp
  show ?thesis
    using assms by (simp add: isoBytes_def drop_wr_at drop_wr_after len boot_block_fields(1) term_block_fields(1)
        catalog_fields(1) wr_replicate)
qed

lemma iso_pvd:
  "slice 32768 6 (isoBytes k esp) = Some (1 # bytes_of ''CD001'')"
  "u32At 32848 (isoBytes k esp) = Some (unat (of_nat (23 + k) :: u32))"
  "u32At 32926 (isoBytes k esp) = Some 20" "u32At 32934 (isoBytes k esp) = Some 2048"
proof -
  let ?pvd = "pvdBytes (23 + k) (recordBytes [0] 20 2048 2) (pathBytes LittleEndian)"
  have f: "slice (32768 + off) n (isoBytes k esp) = Some (rd off n ?pvd)" if "off + n \<le> 2048" for off n
    using iso_field [OF that, of 16 k esp] by (simp add: iso_sectors)
  have pvd: "rd 0 6 ?pvd = 1 # bytes_of ''CD001''" "rd 80 4 ?pvd = le32 (of_nat (23 + k))" "rd 156 34 ?pvd = recordBytes [0] 20 2048 2"
    by (rule pvd_fields, simp)+
  have rec: "rd (156 + off) n ?pvd = rd off n (recordBytes [0] 20 2048 2)" if "off + n \<le> 34" for off n
    using that rd_rd [of off n 34 156 ?pvd] by (simp add: pvd(3))
  have "rd 158 4 ?pvd = le32 20" "rd 166 4 ?pvd = le32 2048"
    using rec [of 2 4] rec [of 10 4]
    by (simp_all add: recordBytes_def recordHead_def rd_def Let_def le32_def be32_def)
  with f [of 0 6] f [of 80 4] f [of 158 4] f [of 166 4] pvd(1,2)
  show "slice 32768 6 (isoBytes k esp) = Some (1 # bytes_of ''CD001'')"
    "u32At 32848 (isoBytes k esp) = Some (unat (of_nat (23 + k) :: u32))"
    "u32At 32926 (isoBytes k esp) = Some 20" "u32At 32934 (isoBytes k esp) = Some 2048"
    by (simp_all add: u32At_def)
qed

lemma elTorito_iso:
  assumes "23 + k < 2 ^ 32"
  shows "elTorito (isoBytes k esp) = Some (drop 47104 (isoBytes k esp), unat (of_nat (length esp div 512) :: u16))"
proof -
  note f = iso_field [of _ _ 17 k esp] iso_field [of _ _ 18 k esp] iso_field [of _ _ 19 k esp]
  have "unat (of_nat (23 + k) :: u32) = 23 + k"
    using assms by (simp only: unat_of_nat take_bit_eq_mod) simp
  moreover have "slice 34816 6 (isoBytes k esp) = Some (0 # bytes_of ''CD001'')"
    "slice 34823 23 (isoBytes k esp) = Some (bytes_of ''EL TORITO SPECIFICATION'')"
    "u32At 34887 (isoBytes k esp) = Some 19"
    "slice 36864 6 (isoBytes k esp) = Some (255 # bytes_of ''CD001'')"
    "slice 38912 2048 (isoBytes k esp) = Some (catalogBlock (length esp div 512))"
    using f(1) [of 0 6] f(1) [of 7 23] f(1) [of 71 4] f(2) [of 0 6] f(3) [of 0 2048]
    by (simp_all add: u32At_def iso_sectors boot_block_fields term_block_fields catalog_fields(1) rd_self)
  ultimately show ?thesis
    by (simp add: elTorito_def iso_pvd catalog_fields catalog_sum)
qed

lemma isoFile_iso:
  assumes "length esp \<le> k * 2048" "length esp < 2 ^ 32"
  shows "isoFile (isoBytes k esp) espBootPath = Some esp"
proof -
  have "rd 47104 (length esp) (isoBytes k esp) = esp"
    using iso_esp [OF assms(1)] by (simp add: rd_def)
  then have esp: "slice 47104 (length esp) (isoBytes k esp) = Some esp"
    using assms(1) by (simp add: slice_def)
  have dir: "slice 40960 2048 (isoBytes k esp) = Some (rootExtent (length esp) @ replicate 1938 0)"
    using iso_field [of 0 2048 20 k esp] by (simp add: iso_sectors rd_self wr_replicate)
  have "unat (of_nat (length esp) :: u32) = length esp"
    using assms(2) by (simp add: unat_of_nat take_bit_eq_mod)
  then have "isoLookup (rootExtent (length esp) @ replicate 1938 0) (bytes_of espBootPath) = Some (23, length esp)"
    by (simp add: rootExtent_def isoLookup_record) (simp add: espBootPath_def isoLookup_record bytes_of_def)
  with esp dir show ?thesis by (simp add: isoFile_def iso_pvd)
qed

text \<open>Whatever image the composer returns, the firmware's reader gets both files back from it.\<close>

lemma buildBootISO_reads:
  assumes "buildBootISO efi script = Ok img"
  obtains vol n where "elTorito img = Some (vol, n)" "buildESPImage efi script = Ok (take (n * 512) vol)"
    "readFAT12 vol [''EFI'', ''BOOT'', ''BOOTX64.EFI''] = Some efi" "readFAT12 vol [autoexecName] = Some script"
proof (cases rule: buildESPImage_cases [of script efi])
  case (image fs fat)
  define m n where "m = chainLen (length efi)" and "n = chainLen (length script)"
  define esp where "esp = espImage fs m n fat efi script"
  define k where "k = (length esp + 2047) div 2048"
  have cl: "2 + m + n \<le> 4084" and fat: "fatHolds fat fs m n" and fs: "fs < 65536"
    using image by (simp_all add: m_def n_def)
  have len: "length esp = (41 + 2 * fs + 4 * m + 4 * n) * 512" by (simp add: esp_def)
  have k: "length esp \<le> k * 2048" using round_up [of 2048 "length esp"] by (simp add: k_def)
  have small: "41 + 2 * fs + 4 * m + 4 * n < 65536" using cl image(5) by simp
  then have "23 + k < 2 ^ 32" unfolding k_def len by simp
  moreover have "unat (of_nat (length esp div 512) :: u16) = length esp div 512"
    unfolding len using small by (simp only: unat_of_nat take_bit_eq_mod) simp
  moreover have "take (length esp div 512 * 512) (esp @ z) = esp" for z by (simp add: len)
  moreover have "readFAT12 esp [''EFI'', ''BOOT'', ''BOOTX64.EFI''] = Some efi" "readFAT12 esp [autoexecName] = Some script"
    using walk_efi [OF fat cl _ _ fs] walk_script [OF fat cl _ _ fs] chainLen_enough chainLen_pos
    unfolding esp_def m_def n_def by blast+
  moreover have esp: "buildESPImage efi script = Ok esp" using image(3) by (simp add: esp_def m_def n_def)
  moreover have "efi \<noteq> []" using assms by (auto simp: buildBootISO_def)
  then have "img = isoBytes k esp" using buildBootISO_layout [OF _ esp] assms by (simp add: k_def)
  ultimately show thesis
    using elTorito_iso [of k esp] iso_esp [OF k] readFAT12_append
    by (intro that [of "esp @ replicate (k * 2048 - length esp) 0" "length esp div 512"])
      (simp_all only: simp_thms)
qed (use assms in \<open>auto simp: buildBootISO_def split: if_splits\<close>)

lemma buildBootISO_Ok:
  assumes "efi \<noteq> []" "script \<noteq> []" "2 + chainLen (length efi) + chainLen (length script) \<le> fatMaxClusters"
  obtains img where "buildBootISO efi script = Ok img"
  using assms buildBootISO_layout by (cases rule: buildESPImage_cases [of script efi]) auto

section \<open>Properties\<close>

text \<open>
  C3. The composed boot ISO boots the given binary with the given script: for every non-empty
  binary and script that fit in a FAT12 volume, \<open>buildBootISO\<close> returns an image on which the
  firmware's reader succeeds (descriptors, volume size, boot record, catalog checksum); the boot
  image it finds, whose length the 16-bit sector count of the catalog gives without truncation, is a
  FAT12 volume holding exactly the binary at \<open>EFI/BOOT/BOOTX64.EFI\<close> and the script at
  \<open>autoexec.ipxe\<close>.
\<close>

theorem boot_iso_bootable:
  assumes "efi \<noteq> []" "script \<noteq> []"
    and "2 + chainLen (length efi) + chainLen (length script) \<le> fatMaxClusters"
  shows "\<exists>img vol n. buildBootISO efi script = Ok img \<and> elTorito img = Some (vol, n)
    \<and> buildESPImage efi script = Ok (take (n * 512) vol)
    \<and> readFAT12 vol [''EFI'', ''BOOT'', ''BOOTX64.EFI''] = Some efi
    \<and> readFAT12 vol [autoexecName] = Some script"
  using buildBootISO_Ok [OF assms] buildBootISO_reads by metis

theorem boot_iso_bootable_witness:
  "\<exists>img vol n. buildBootISO [0x4D, 0x5A] [0x23] = Ok img \<and> elTorito img = Some (vol, n)
    \<and> buildESPImage [0x4D, 0x5A] [0x23] = Ok (take (n * 512) vol)
    \<and> readFAT12 vol [''EFI'', ''BOOT'', ''BOOTX64.EFI''] = Some [0x4D, 0x5A]
    \<and> readFAT12 vol [autoexecName] = Some [0x23]"
  by (rule boot_iso_bootable) (simp_all add: chainLen_def)

text \<open>
  C20. The same volume is listed as a regular file: an ISO 9660 reader that starts at the root
  record of the primary volume descriptor finds \<open>ESP.IMG;1\<close> in the root directory, with
  contents equal to what \<open>buildESPImage\<close> returns.
\<close>

theorem boot_iso_lists_esp:
  assumes "buildBootISO efi script = Ok img"
  shows "\<exists>esp. buildESPImage efi script = Ok esp \<and> isoFile img espBootPath = Some esp"
proof (cases rule: buildESPImage_cases [of script efi])
  case (image fs fat)
  let ?esp = "espImage fs (chainLen (length efi)) (chainLen (length script)) fat efi script"
  have "efi \<noteq> []" using assms by (auto simp: buildBootISO_def)
  then have "img = isoBytes ((length ?esp + 2047) div 2048) ?esp"
    using buildBootISO_layout [OF _ image(3)] assms by simp
  moreover have "length ?esp < 2 ^ 32" using image(2,5) by simp
  moreover have "length ?esp \<le> (length ?esp + 2047) div 2048 * 2048"
    using round_up [of 2048 "length ?esp"] by simp
  ultimately show ?thesis using image(3) isoFile_iso by metis
qed (use assms in \<open>auto simp: buildBootISO_def split: if_splits\<close>)

theorem boot_iso_lists_esp_witness:
  "\<exists>img esp. buildBootISO [1] [2] = Ok img \<and> buildESPImage [1] [2] = Ok esp \<and> isoFile img espBootPath = Some esp"
proof -
  obtain esp where "buildESPImage [1] [2] = Ok esp"
    by (cases rule: buildESPImage_cases [of "[2]" "[1]"]) (simp_all add: chainLen_def)
  then obtain img where "buildBootISO [1] [2] = Ok img" using buildBootISO_layout [of "[1]" "[2]"] by blast
  with boot_iso_lists_esp [of "[1]" "[2]"] show ?thesis by blast
qed

text \<open>
  \<open>buildBootISO\<close> never indexes out of range; it returns an error exactly when the binary is
  empty or \<open>buildESPImage\<close> returns that error, and otherwise a whole number of 2048-byte sectors.
\<close>

lemma boot_iso_outcome:
  "case buildBootISO efi script of
     Panic \<Rightarrow> False
   | Err e \<Rightarrow> (if efi = [] then e = ''empty iPXE EFI binary'' else buildESPImage efi script = Err e)
   | Ok img \<Rightarrow> efi \<noteq> [] \<and> (\<exists>esp. buildESPImage efi script = Ok esp) \<and> length img mod isoSectorSize = 0"
proof (cases "efi = []")
  case False
  then show ?thesis
    by (cases rule: buildESPImage_cases [of script efi])
      (simp_all add: buildBootISO_layout, simp_all add: buildBootISO_def)
qed (simp add: buildBootISO_def)

end
