(* ===== verification/Iso_Builder.thy ===== *)
theory Iso_Builder
  imports Iso_Image Nodes_Store
begin

text \<open>
  The boot scripts and boot ISOs of \<^verbatim>\<open>images/maas-boot-proxy/iso_builder.go\<close>: the configuration
  hash that names an ISO in the cache, the PCI address formatter, the two iPXE script renderers and
  the two ISO builders. A script is the concatenation of the lines that the source writes one by one.
\<close>

section \<open>Definitions\<close>

definition hashInput :: "Node \<Rightarrow> string \<Rightarrow> string \<Rightarrow> string" where
  "hashInput n mac proxyBase = concat (map (\<lambda>(k, v). k @ ''='' @ v @ [newline])
     [(''mac'', mac),
      (''ip'', IP n),
      (''netmask'', Netmask n),
      (''gw'', GW n),
      (''vlan'', VLAN n),
      (''dev'', Dev n),
      (''hostname'', Hostname n),
      (''dns'', DNS n),
      (''dns2'', DNS2 n),
      (''bond_members'', join (BondMembers n) '',''),
      (''bond_name'', BondName n),
      (''bond_mode'', BondMode n),
      (''lacp_rate'', LACPRate n),
      (''hash_policy'', HashPolicy n),
      (''kernel_net'', KernelNet n),
      (''proxy_base'', trimRight (CHR ''/'') proxyBase)])"

definition ComputeNodeConfigHash :: "Node \<Rightarrow> string \<Rightarrow> string \<Rightarrow> string" where
  "ComputeNodeConfigHash n mac proxyBase = take 16 (hexEncode (sha256 (bytes_of (hashInput n mac proxyBase))))"

definition printPCI :: "nat \<Rightarrow> nat \<Rightarrow> nat \<Rightarrow> nat \<Rightarrow> string" where
  "printPCI seg bus dev fn = padHex hexDigit 4 seg @ '':'' @ padHex hexDigit 2 bus @ '':'' @
     padHex hexDigit 2 dev @ ''.'' @ showHex hexDigit fn"

definition formatIPXEPCI :: "string \<Rightarrow> string" where
  "formatIPXEPCI p =
     (let pci = trimSpace p in
      if countChar pci (CHR '':'') = 2 then
        (case scanHexes pci ''::.'' of [seg, bus, dev, fn] \<Rightarrow> printPCI seg bus dev fn | _ \<Rightarrow> toLower pci)
      else if countChar pci (CHR '':'') = 1 \<and> contains pci ''.'' then
        (case scanHexes pci '':.'' of [bus, dev, fn] \<Rightarrow> printPCI 0 bus dev fn | _ \<Rightarrow> toLower pci)
      else toLower pci)"

definition hasPCIs :: "Node \<Rightarrow> bool" where
  "hasPCIs n \<longleftrightarrow> list_ex isPCIAddr (BondMembers n)"

definition effIface :: "Node \<Rightarrow> string" where
  "effIface n = (if VLAN n \<noteq> [] then ''net${nic}-${vlan}'' else ''net${nic}'')"

definition pciLines :: "Node \<Rightarrow> (nat \<Rightarrow> string \<Rightarrow> string) \<Rightarrow> string list" where
  "pciLines n f = concat (map (\<lambda>(i, member). if isPCIAddr member then [f i member] else []) (enumerate 0 (BondMembers n)))"

definition setLine :: "Node \<Rightarrow> string \<Rightarrow> string \<Rightarrow> string list" where
  "setLine n opt v = (if v \<noteq> [] then [''set '' @ effIface n @ ''/'' @ opt @ '' '' @ v] else [])"

definition nodeScriptLines :: "Node \<Rightarrow> string \<Rightarrow> string \<Rightarrow> string list" where
  "nodeScriptLines n mac proxyBase =
     [''#!ipxe'',
      ''# Dynamic boot script for '' @ Hostname n @ '' ('' @ mac @ '')''] @
     (if VLAN n \<noteq> [] then [''set vlan '' @ VLAN n] else []) @
     pciLines n (\<lambda>i member. ''set pci'' @ show_nat i @ '' '' @ formatIPXEPCI member) @
     (if \<not> hasPCIs n \<and> mac \<noteq> [] then [''set target_mac '' @ toLower mac] else []) @
     ['':top'',
      ''set nic:int32 0'',
      '':loop'',
      ''isset ${net${nic}/mac} || goto endpass'',
      ''echo Checking net${nic} (${net${nic}/mac} ${net${nic}/busloc:busdevfn})...''] @
     (if hasPCIs n then
        pciLines n (\<lambda>i member. ''iseq ${net${nic}/busloc:busdevfn} ${pci'' @ show_nat i @ ''} && goto hit ||'') @
        [''goto next'',
         '':hit'']
      else if mac \<noteq> [] then
        [''iseq ${net${nic}/mac} ${target_mac} && goto hit ||'',
         ''goto next'',
         '':hit'']
      else []) @
     [''echo Configuring net${nic} (${net${nic}/mac})...'',
      ''ifclose net${nic} ||'',
      ''ifopen net${nic} ||''] @
     (if VLAN n \<noteq> [] then [''vcreate --tag ${vlan} net${nic} ||''] else []) @
     setLine n ''ip'' (IP n) @
     setLine n ''netmask'' (Netmask n) @
     setLine n ''gateway'' (GW n) @
     setLine n ''dns'' (DNS n) @
     [''ifopen '' @ effIface n @ '' ||'',
      ''chain --autofree '' @ trimRight (CHR ''/'') proxyBase @ ''/ipxe.cfg-${net${nic}/mac} && goto os_done ||''] @
     (if VLAN n \<noteq> [] then
        [''ifclose '' @ effIface n @ '' ||'',
         ''vdestroy '' @ effIface n @ '' ||'']
      else []) @
     [''ifclose net${nic} ||''] @
     (if hasPCIs n \<or> mac \<noteq> [] then ['':next''] else []) @
     [''inc nic && goto loop'',
      '':endpass'',
      ''echo no matching uplink reached proxy; retry in 3s'',
      ''sleep 3'',
      ''goto top'',
      '':os_done'',
      ''exit 0'']"

definition unlines :: "string list \<Rightarrow> string" where
  "unlines ls = concat (map (\<lambda>l. l @ [newline]) ls)"

definition RenderNodeIPXEScript :: "Node \<Rightarrow> string \<Rightarrow> string \<Rightarrow> string" where
  "RenderNodeIPXEScript n mac proxyBase = unlines (nodeScriptLines n mac proxyBase)"

definition BuildNodeISO :: "bytes \<Rightarrow> Node \<Rightarrow> string \<Rightarrow> string \<Rightarrow> bytes outcome" where
  "BuildNodeISO ipxeEFI n mac proxyBase = buildBootISO ipxeEFI (bytes_of (RenderNodeIPXEScript n mac proxyBase))"

definition genericScriptLines :: "string \<Rightarrow> string list" where
  "genericScriptLines proxyBase =
     [''#!ipxe'',
      ''# Generic discovery & boot script'',
      '':top'',
      ''set nic:int32 0'',
      '':loop'',
      ''isset ${net${nic}/mac} || goto endpass'',
      ''ifclose net${nic} ||'',
      ''ifopen net${nic} ||'',
      ''dhcp net${nic} || goto next'',
      ''chain --autofree '' @ trimRight (CHR ''/'') proxyBase @ ''/ipxe.cfg-${net${nic}/mac} && exit 0 ||'',
      '':next'',
      ''ifclose net${nic} ||'',
      ''inc nic && goto loop'',
      '':endpass'',
      ''echo no uplink reached proxy; retrying in 3s'',
      ''sleep 3'',
      ''goto top'']"

definition RenderGenericIPXEScript :: "string \<Rightarrow> string" where
  "RenderGenericIPXEScript proxyBase = unlines (genericScriptLines proxyBase)"

definition BuildGenericISO :: "bytes \<Rightarrow> string \<Rightarrow> bytes outcome" where
  "BuildGenericISO ipxeEFI proxyBase = buildBootISO ipxeEFI (bytes_of (RenderGenericIPXEScript proxyBase))"

definition GenericConfigHash :: "string \<Rightarrow> string" where
  "GenericConfigHash proxyBase = take 16 (hexEncode (sha256 (bytes_of
     (''generic'' @ [newline] @ ''proxy_base='' @ trimRight (CHR ''/'') proxyBase))))"

section \<open>Reading a script\<close>

text \<open>Lines, words, the labels a script defines and the labels its commands jump to.\<close>

fun jumps :: "string list \<Rightarrow> string list" where
  "jumps (v # w # ws) = (if v = ''goto'' then [w] else []) @ jumps (w # ws)"
| "jumps _ = []"

definition isComment :: "string \<Rightarrow> bool" where
  "isComment l \<longleftrightarrow> hasPrefix l ''#''"

definition gotoTargets :: "string list \<Rightarrow> string list" where
  "gotoTargets ls = concat (map (\<lambda>l. if isComment l then [] else jumps (splitOn (CHR '' '') l)) ls)"

definition labelsOf :: "string list \<Rightarrow> string list" where
  "labelsOf ls = map tl (filter (\<lambda>l. hasPrefix l '':'') ls)"

text \<open>Texts without blanks and line breaks, and nodes whose fields are such texts.\<close>

definition clean :: "string \<Rightarrow> bool" where
  "clean s \<longleftrightarrow> newline \<notin> set s \<and> CHR '' '' \<notin> set s"

definition cleanNode :: "Node \<Rightarrow> bool" where
  "cleanNode n \<longleftrightarrow> list_all clean ([IP n, Netmask n, GW n, VLAN n, Dev n, Hostname n, DNS n, DNS2 n, BondName n,
     BondMode n, LACPRate n, HashPolicy n] @ BondMembers n)"

section \<open>Lemmas on scripts\<close>

lemma splitOn_unlines:
  "\<forall>l \<in> set ls. newline \<notin> set l \<Longrightarrow> splitOn newline (unlines ls) = ls @ [[]]"
  by (induction ls) (simp_all add: unlines_def)

lemma gotoTargets_simps [simp]: "gotoTargets [] = []" "gotoTargets (ls @ ks) = gotoTargets ls @ gotoTargets ks"
  "gotoTargets (l # ls) = (if isComment l then [] else jumps (splitOn (CHR '' '') l)) @ gotoTargets ls"
  by (simp_all add: gotoTargets_def)

lemma labelsOf_mem: "CHR '':'' # l \<in> set ls \<Longrightarrow> l \<in> set (labelsOf ls)"
  by (force simp: labelsOf_def hasPrefix_def)

lemma isSpace_blank: "isSpace newline" "isSpace (CHR '' '')"
  by (simp_all add: isSpace_def newline_def code_def)

lemma clean_nonspace: "\<forall>c \<in> set s. \<not> isSpace c \<Longrightarrow> clean s"
  using isSpace_blank by (auto simp: clean_def)

lemma clean_simps [simp]: "clean []" "clean (s @ t) \<longleftrightarrow> clean s \<and> clean t"
  "clean (c # s) \<longleftrightarrow> c \<noteq> newline \<and> c \<noteq> CHR '' '' \<and> clean s"
  by (auto simp: clean_def)

lemma clean_toLower [simp]: "clean (toLower s) \<longleftrightarrow> clean s"
proof -
  have "lowerChar c = newline \<longleftrightarrow> c = newline" "lowerChar c = CHR '' '' \<longleftrightarrow> c = CHR '' ''" for c
    by (rule lowerChar_sep; simp add: newline_def code_def)+
  then show ?thesis by (induction s) simp_all
qed

lemma set_trimSpace: "set (trimSpace s) \<subseteq> set s"
  unfolding trimSpace_def by (metis set_dropWhileD set_rev subsetI)

lemma clean_trimSpace: "clean s \<Longrightarrow> clean (trimSpace s)"
  using set_trimSpace [of s] by (auto simp: clean_def)

lemma clean_trimRight: "clean s \<Longrightarrow> clean (trimRight c s)"
  unfolding clean_def trimRight_def by (metis set_dropWhileD set_rev)

lemma clean_hex: "list_all isHex s \<Longrightarrow> clean s"
  by (rule clean_nonspace) (auto simp: list_all_iff dest: isHex_not_space)

lemma clean_printPCI: "clean (printPCI seg bus dev fn)"
proof -
  have "clean (padHex hexDigit w n)" "clean (showHex hexDigit n)" for w n
    by (rule clean_hex, simp add: padHex_facts showHex_isHex)+
  then show ?thesis by (simp add: printPCI_def newline_def)
qed

lemma clean_formatIPXEPCI: "clean p \<Longrightarrow> clean (formatIPXEPCI p)"
  using clean_trimSpace [of p] clean_printPCI
  by (simp add: formatIPXEPCI_def Let_def split: list.splits)

lemma clean_show_nat: "clean (show_nat n)"
proof (induction n rule: show_nat.induct)
  case (1 n)
  have d: "clean [char_of (48 + d)]" if "d < 10" for d :: nat
    using that by (intro clean_nonspace) (auto simp: isSpace_def)
  show ?case
  proof (cases "n < 10")
    case True
    with d [of n] show ?thesis by (simp add: show_nat.simps [of n])
  next
    case False
    with 1 d [of "n mod 10"] show ?thesis by (simp add: show_nat.simps [of n])
  qed
qed

lemma jumps_set:
  assumes "clean v"
  shows "jumps (splitOn (CHR '' '') (''set vlan '' @ v)) = []" "jumps (splitOn (CHR '' '') (''set target_mac '' @ v)) = []"
  using assms by (simp_all add: clean_def)

lemma gotos_setLine:
  assumes "clean v" "clean opt"
  shows "gotoTargets (setLine n opt v) = []"
  using assms by (simp add: setLine_def effIface_def clean_def isComment_def hasPrefix_def)

lemma gotos_pciLines:
  assumes "\<And>i m. m \<in> set (BondMembers n) \<Longrightarrow> isPCIAddr m \<Longrightarrow> set (gotoTargets [f i m]) \<subseteq> T"
  shows "set (gotoTargets (pciLines n f)) \<subseteq> T"
proof -
  have "\<exists>i m. m \<in> set (BondMembers n) \<and> isPCIAddr m \<and> l = f i m" if "l \<in> set (pciLines n f)" for l
    using that by (auto simp: pciLines_def in_set_enumerate_eq split: if_splits) (metis nth_mem)
  then show ?thesis using assms by (fastforce simp: gotoTargets_def split: if_splits)
qed

lemma gotos_pci_set:
  assumes "cleanNode n"
  shows "gotoTargets (pciLines n (\<lambda>i member. ''set pci'' @ show_nat i @ '' '' @ formatIPXEPCI member)) = []"
proof -
  have "gotoTargets [''set pci'' @ show_nat i @ '' '' @ formatIPXEPCI m] = []" if "m \<in> set (BondMembers n)" for i m
  proof -
    have "clean (formatIPXEPCI m)" "clean (show_nat i)"
      using assms that by (simp_all add: cleanNode_def list_all_iff clean_formatIPXEPCI clean_show_nat)
    then show ?thesis by (simp add: clean_def)
  qed
  then have "set (gotoTargets (pciLines n (\<lambda>i member. ''set pci'' @ show_nat i @ '' '' @ formatIPXEPCI member))) \<subseteq> {}"
    by (intro gotos_pciLines) (simp del: gotoTargets_simps)
  then show ?thesis by simp
qed

lemma gotos_pci_hit:
  "set (gotoTargets (pciLines n (\<lambda>i member. ''iseq ${net${nic}/busloc:busdevfn} ${pci'' @ show_nat i @ ''} && goto hit ||''))) \<subseteq> {''hit''}"
proof (rule gotos_pciLines)
  fix i m
  have "CHR '' '' \<notin> set (show_nat i)" using clean_show_nat [of i] by (simp add: clean_def)
  then show "set (gotoTargets [''iseq ${net${nic}/busloc:busdevfn} ${pci'' @ show_nat i @ ''} && goto hit ||'']) \<subseteq> {''hit''}"
    by (simp add: isComment_def hasPrefix_def)
qed

lemma gotos_chain:
  assumes "clean base"
  shows "gotoTargets [''chain --autofree '' @ base @ ''/ipxe.cfg-${net${nic}/mac} && goto os_done ||''] = [''os_done'']"
    "gotoTargets [''chain --autofree '' @ base @ ''/ipxe.cfg-${net${nic}/mac} && exit 0 ||''] = []"
  using assms by (simp_all add: clean_def isComment_def hasPrefix_def append_eq_Cons_conv)

lemma set_pciLines:
  "l \<in> set (pciLines n f) \<longleftrightarrow> (\<exists>i < length (BondMembers n). isPCIAddr (BondMembers n ! i) \<and> l = f i (BondMembers n ! i))"
proof -
  let ?e = "set (enumerate 0 (BondMembers n))"
  have "(i, m) \<in> ?e \<longleftrightarrow> i < length (BondMembers n) \<and> m = BondMembers n ! i" for i m
    by (auto simp: in_set_enumerate_eq)
  moreover have "l \<in> set (pciLines n f) \<longleftrightarrow> (\<exists>i m. (i, m) \<in> ?e \<and> isPCIAddr m \<and> l = f i m)"
    unfolding pciLines_def by (auto split: if_splits)
  ultimately show ?thesis by simp
qed

lemma gotos_concrete:
  "gotoTargets ['':top'', ''set nic:int32 0'', '':loop'', ''isset ${net${nic}/mac} || goto endpass'',
     ''echo Checking net${nic} (${net${nic}/mac} ${net${nic}/busloc:busdevfn})...''] = [''endpass'']"
  "gotoTargets [''goto next'', '':hit''] = [''next'']"
  "gotoTargets [''iseq ${net${nic}/mac} ${target_mac} && goto hit ||'', ''goto next'', '':hit''] = [''hit'', ''next'']"
  "gotoTargets [''echo Configuring net${nic} (${net${nic}/mac})...'', ''ifclose net${nic} ||'', ''ifopen net${nic} ||''] = []"
  "gotoTargets [''vcreate --tag ${vlan} net${nic} ||''] = []" "gotoTargets [''ifclose net${nic} ||''] = []"
  "gotoTargets ['':next''] = []"
  "gotoTargets [''inc nic && goto loop'', '':endpass'', ''echo no matching uplink reached proxy; retry in 3s'',
     ''sleep 3'', ''goto top'', '':os_done'', ''exit 0''] = [''loop'', ''top'']"
  "gotoTargets [''ifopen '' @ effIface n @ '' ||''] = []"
  "gotoTargets [''ifclose '' @ effIface n @ '' ||'', ''vdestroy '' @ effIface n @ '' ||''] = []"
  by (simp_all add: isComment_def hasPrefix_def effIface_def)

lemma gotos_head: "gotoTargets [''#!ipxe'', ''# Dynamic boot script for '' @ h @ '' ('' @ mac @ '')''] = []"
  by (simp add: isComment_def hasPrefix_def)

lemma node_jumps:
  assumes "cleanNode n" "clean mac" "clean base"
  shows "set (gotoTargets (nodeScriptLines n mac base)) \<subseteq> {''endpass'', ''loop'', ''top'', ''os_done''} \<union>
    (if hasPCIs n \<or> mac \<noteq> [] then {''hit'', ''next''} else {})"
proof -
  let ?b = "trimRight (CHR ''/'') base"
  have c: "clean (IP n)" "clean (Netmask n)" "clean (GW n)" "clean (DNS n)" "clean (VLAN n)" "clean (toLower mac)" "clean ?b"
    using assms by (simp_all add: cleanNode_def clean_trimRight)
  have opts: "clean ''ip''" "clean ''netmask''" "clean ''gateway''" "clean ''dns''" by (simp_all add: newline_def)
  have vlan: "gotoTargets [''set vlan '' @ VLAN n] = []" "gotoTargets [''set target_mac '' @ toLower mac] = []"
    using jumps_set [OF c(5)] jumps_set [OF c(6)] unfolding gotoTargets_def by simp_all
  have tail: "gotoTargets [''ifopen '' @ effIface n @ '' ||'', ''chain --autofree '' @ ?b @ ''/ipxe.cfg-${net${nic}/mac} && goto os_done ||'']
      = [''os_done'']"
    using gotos_concrete(9) [of n] gotos_chain(1) [OF c(7)] unfolding gotoTargets_def by simp
  show ?thesis
    unfolding nodeScriptLines_def gotoTargets_simps(2) gotos_head gotos_pci_set [OF assms(1)] tail
      gotos_setLine [OF c(1) opts(1)] gotos_setLine [OF c(2) opts(2)] gotos_setLine [OF c(3) opts(3)] gotos_setLine [OF c(4) opts(4)]
    using gotos_pci_hit [of n]
    by (simp only: if_distrib [of gotoTargets] gotoTargets_simps(1,2) gotos_concrete vlan split: if_split) auto
qed

lemma no_newline_lines:
  assumes "cleanNode n" "clean mac" "clean base"
  shows "\<forall>l \<in> set (nodeScriptLines n mac base). newline \<notin> set l"
proof -
  have f: "newline \<notin> set (IP n)" "newline \<notin> set (Netmask n)" "newline \<notin> set (GW n)" "newline \<notin> set (VLAN n)"
    "newline \<notin> set (Hostname n)" "newline \<notin> set (DNS n)" "newline \<notin> set mac" "newline \<notin> set (toLower mac)"
    "newline \<notin> set (trimRight (CHR ''/'') base)"
    using assms clean_toLower [of mac] clean_trimRight [of base "CHR ''/''"] by (simp_all add: cleanNode_def clean_def del: clean_toLower)
  have m: "newline \<notin> set (formatIPXEPCI (BondMembers n ! i))" if "i < length (BondMembers n)" for i
    using assms(1) that clean_formatIPXEPCI [of "BondMembers n ! i"] by (simp add: cleanNode_def list_all_iff clean_def)
  have s: "newline \<notin> set (show_nat i)" for i using clean_show_nat [of i] by (simp add: clean_def)
  have e: "newline \<notin> set (effIface n)" by (simp add: effIface_def newline_def)
  have lit: "newline \<noteq> c" if "c \<noteq> CHR 0x0A" for c using that by (simp add: newline_def)
  show ?thesis
    unfolding nodeScriptLines_def setLine_def
    by (auto simp: set_pciLines f m s e lit split: if_splits)
qed

text \<open>The jumps and labels of the rendered text are those of the lines it is made of.\<close>

lemma unlines_jumps:
  assumes "\<forall>l \<in> set ls. newline \<notin> set l"
  shows "gotoTargets (splitOn newline (unlines ls)) = gotoTargets ls" "labelsOf (splitOn newline (unlines ls)) = labelsOf ls"
  using assms by (simp_all add: splitOn_unlines labelsOf_def hasPrefix_def)

section \<open>Lemmas on PCI addresses\<close>

lemma hex_ends:
  assumes "list_all isHex s" "s \<noteq> []"
  shows "\<not> isSpace (hd s)" "\<not> isSpace (last s)"
  using assms by (auto simp: list_all_iff intro!: isHex_not_space)

lemma printPCI_trim: "trimSpace (printPCI seg bus dev fn) = printPCI seg bus dev fn"
proof -
  have s: "\<not> isSpace (hd (padHex hexDigit 4 seg))" "padHex hexDigit 4 seg \<noteq> []" "\<not> isSpace (last (showHex hexDigit fn))"
    using hex_ends [of "padHex hexDigit 4 seg"] hex_ends [of "showHex hexDigit fn"]
    by (simp_all add: padHex_facts showHex_isHex)
  then show ?thesis by (intro trimSpace_id) (simp add: printPCI_def)
qed

lemma showHex_padHex: "showHex dig n = padHex dig 0 n"
  by (simp add: padHex_def)

lemma hex_no_sep: "list_all isHex s \<Longrightarrow> \<not> isHex c \<Longrightarrow> c \<notin> set s"
  by (auto simp: list_all_iff)

lemma printPCI_scan:
  assumes "seg < 2 ^ 32" "bus < 2 ^ 32" "dev < 2 ^ 32" "fn < 2 ^ 32"
  shows "scanHexes (printPCI seg bus dev fn) ''::.'' = [seg, bus, dev, fn]" "countChar (printPCI seg bus dev fn) (CHR '':'') = 2"
proof -
  have step: "scanHexes (padHex hexDigit w n @ c # rest) (c # seps) = n # scanHexes rest seps" if "n < 2 ^ 32" "\<not> isHex c" for w n c rest seps
    using scanHex_padHex [of hexDigit n "c # rest" w] that by (simp add: scanHexes.simps [of _ "c # seps"])
  have final: "scanHexes (padHex hexDigit w n) [] = [n]" if "n < 2 ^ 32" for w n
    using scanHex_padHex [of hexDigit n "[]" w] that by (simp add: scanHexes.simps)
  show "scanHexes (printPCI seg bus dev fn) ''::.'' = [seg, bus, dev, fn]"
    unfolding printPCI_def showHex_padHex using assms by (simp add: step final)
  have "countChar (padHex hexDigit w n) (CHR '':'') = 0" for w n
    by (intro countChar_none hex_no_sep padHex_facts) simp_all
  then show "countChar (printPCI seg bus dev fn) (CHR '':'') = 2" by (simp add: printPCI_def showHex_padHex)
qed

lemma formatIPXEPCI_cases:
  obtains (pci) seg bus dev fn where "formatIPXEPCI p = printPCI seg bus dev fn"
      "seg < 2 ^ 32" "bus < 2 ^ 32" "dev < 2 ^ 32" "fn < 2 ^ 32"
  | (other) "formatIPXEPCI p = toLower (trimSpace p)"
proof -
  let ?q = "trimSpace p"
  have four: "seg < 2 ^ 32 \<and> bus < 2 ^ 32 \<and> dev < 2 ^ 32 \<and> fn < 2 ^ 32" if "scanHexes ?q ''::.'' = [seg, bus, dev, fn]" for seg bus dev fn
    using scanHexes_less [of _ ?q "''::.''"] unfolding that by simp
  have three: "bus < 2 ^ 32 \<and> dev < 2 ^ 32 \<and> fn < 2 ^ 32" if "scanHexes ?q '':.'' = [bus, dev, fn]" for bus dev fn
    using scanHexes_less [of _ ?q "'':.''"] unfolding that by simp
  show thesis
    using other four three
    by (cases "formatIPXEPCI p = toLower ?q")
      (auto simp: formatIPXEPCI_def Let_def split: if_splits list.splits intro!: pci)
qed

section \<open>Lemmas on the hash input\<close>

text \<open>The texts that keep the lines and the member list of the hash input unambiguous.\<close>

definition hashable :: "Node \<Rightarrow> bool" where
  "hashable n \<longleftrightarrow> list_all (\<lambda>s. newline \<notin> set s) ([IP n, Netmask n, GW n, VLAN n, Dev n, Hostname n, DNS n, DNS2 n,
     BondName n, BondMode n, LACPRate n, HashPolicy n, KernelNet n] @ BondMembers n)
     \<and> list_all (\<lambda>m. m \<noteq> [] \<and> CHR '','' \<notin> set m) (BondMembers n)"

definition hashLines :: "Node \<Rightarrow> string \<Rightarrow> string \<Rightarrow> string list" where
  "hashLines n mac base =
     [''mac='' @ mac, ''ip='' @ IP n, ''netmask='' @ Netmask n, ''gw='' @ GW n, ''vlan='' @ VLAN n, ''dev='' @ Dev n,
      ''hostname='' @ Hostname n, ''dns='' @ DNS n, ''dns2='' @ DNS2 n, ''bond_members='' @ join (BondMembers n) '','',
      ''bond_name='' @ BondName n, ''bond_mode='' @ BondMode n, ''lacp_rate='' @ LACPRate n,
      ''hash_policy='' @ HashPolicy n, ''kernel_net='' @ KernelNet n, ''proxy_base='' @ trimRight (CHR ''/'') base]"

lemma hashInput_lines: "hashInput n mac base = unlines (hashLines n mac base)"
  by (simp add: hashInput_def hashLines_def unlines_def)

lemma set_join: "set (join ms sep) \<subseteq> \<Union> (set ` set ms) \<union> set sep"
  by (induction ms sep rule: join.induct) auto

lemma join_inject:
  assumes "\<forall>m \<in> set ms. m \<noteq> [] \<and> c \<notin> set m" "\<forall>m \<in> set ms'. m \<noteq> [] \<and> c \<notin> set m" "join ms [c] = join ms' [c]"
  shows "ms = ms'"
proof -
  have "join ms [c] = [] \<longleftrightarrow> ms = []" if "\<forall>m \<in> set ms. m \<noteq> []" for ms :: "string list"
    using that by (cases "(ms, [c])" rule: join.cases) auto
  with assms splitOn_join show ?thesis by metis
qed

lemma hashLines_no_newline:
  assumes "hashable n" "newline \<notin> set mac" "newline \<notin> set base"
  shows "\<forall>l \<in> set (hashLines n mac base). newline \<notin> set l"
proof -
  have "newline \<notin> set (join (BondMembers n) '','')"
    using assms(1) set_join [of "BondMembers n" "'',''"] by (auto simp: hashable_def list_all_iff newline_def)
  moreover have "newline \<notin> set (trimRight (CHR ''/'') base)"
    using assms(3) by (auto simp: trimRight_def dest: set_dropWhileD)
  moreover have "newline \<noteq> c" if "c \<noteq> CHR 0x0A" for c using that by (simp add: newline_def)
  ultimately show ?thesis using assms(1,2) by (simp add: hashLines_def hashable_def)
qed

lemma hashLines_inject:
  assumes "hashable n" "hashable n'" "hashLines n mac base = hashLines n' mac' base'"
  shows "n = n'" "mac = mac'" "trimRight (CHR ''/'') base = trimRight (CHR ''/'') base'"
proof -
  have "join (BondMembers n) '','' = join (BondMembers n') '',''" using assms(3) by (simp add: hashLines_def)
  then have "BondMembers n = BondMembers n'"
    by (rule join_inject [rotated 2]) (use assms in \<open>auto simp: hashable_def list_all_iff\<close>)
  with assms(3) show "n = n'" "mac = mac'" "trimRight (CHR ''/'') base = trimRight (CHR ''/'') base'"
    by (simp_all add: hashLines_def)
qed

lemma hashInput_inject:
  assumes "hashable n" "hashable n'" "\<forall>t \<in> {mac, mac', base, base'}. newline \<notin> set t"
    and "hashInput n mac base = hashInput n' mac' base'"
  shows "n = n' \<and> mac = mac' \<and> trimRight (CHR ''/'') base = trimRight (CHR ''/'') base'"
proof -
  have "splitOn newline (unlines (hashLines n mac base)) = splitOn newline (unlines (hashLines n' mac' base'))"
    using assms(4) unfolding hashInput_lines by (rule arg_cong)
  moreover have "\<forall>l \<in> set (hashLines n mac base). newline \<notin> set l" "\<forall>l \<in> set (hashLines n' mac' base'). newline \<notin> set l"
    using assms(3) by (intro hashLines_no_newline assms(1,2); simp)+
  ultimately have "hashLines n mac base @ [[]] = hashLines n' mac' base' @ [[]]" by (simp only: splitOn_unlines)
  then have "hashLines n mac base = hashLines n' mac' base'" by (rule append_same_eq [THEN iffD1])
  from hashLines_inject [OF assms(1,2) this] show ?thesis by blast
qed

lemma script_by_base:
  assumes "trimRight (CHR ''/'') base = trimRight (CHR ''/'') base'"
  shows "RenderNodeIPXEScript n mac base = RenderNodeIPXEScript n mac base'"
  unfolding RenderNodeIPXEScript_def nodeScriptLines_def assms by (rule refl)

section \<open>Properties\<close>

text \<open>
  C26. Every jump of a rendered node script has its label: for any node, MAC and proxy base without
  blanks or line breaks in their texts, each \<open>goto\<close> of the script (comments aside) names a label that the
  script defines.
\<close>

theorem node_script_labels:
  assumes "cleanNode n" "clean mac" "clean base"
  shows "set (gotoTargets (splitOn newline (RenderNodeIPXEScript n mac base)))
    \<subseteq> set (labelsOf (splitOn newline (RenderNodeIPXEScript n mac base)))"
proof -
  let ?ls = "nodeScriptLines n mac base"
  have "{''endpass'', ''loop'', ''top'', ''os_done''} \<subseteq> set (labelsOf ?ls)"
    by (simp add: labelsOf_mem nodeScriptLines_def)
  moreover have "{''hit'', ''next''} \<subseteq> set (labelsOf ?ls)" if "hasPCIs n \<or> mac \<noteq> []"
    using that by (auto intro!: labelsOf_mem simp: nodeScriptLines_def)
  ultimately show ?thesis
    using node_jumps [OF assms] unfolding RenderNodeIPXEScript_def unlines_jumps [OF no_newline_lines [OF assms]]
    by (auto split: if_splits)
qed

theorem node_script_labels_witness:
  "set (gotoTargets (splitOn newline (RenderNodeIPXEScript (zeroNode\<lparr>VLAN := ''120'', BondMembers := [''3b:00.0'']\<rparr>) [] ''http://p/'')))
    \<subseteq> set (labelsOf (splitOn newline (RenderNodeIPXEScript (zeroNode\<lparr>VLAN := ''120'', BondMembers := [''3b:00.0'']\<rparr>) [] ''http://p/'')))"
  by (rule node_script_labels) (simp_all add: cleanNode_def zeroNode_def newline_def)

text \<open>
  The same holds for the generic discovery script.
\<close>

lemma generic_script_labels:
  assumes "clean base"
  shows "set (gotoTargets (splitOn newline (RenderGenericIPXEScript base)))
    \<subseteq> set (labelsOf (splitOn newline (RenderGenericIPXEScript base)))"
proof -
  let ?ls = "genericScriptLines base" and ?b = "trimRight (CHR ''/'') base"
  have b: "newline \<notin> set ?b" "clean ?b" using clean_trimRight [OF assms, of "CHR ''/''"] by (simp_all add: clean_def)
  have "\<forall>l \<in> set ?ls. newline \<notin> set l" by (auto simp: genericScriptLines_def b(1), auto simp: newline_def)
  note rendered = unlines_jumps [OF this]
  have "{''endpass'', ''loop'', ''top'', ''next''} \<subseteq> set (labelsOf ?ls)"
    by (simp add: labelsOf_mem genericScriptLines_def)
  moreover have "set (gotoTargets ?ls) \<subseteq> {''endpass'', ''loop'', ''top'', ''next''}"
    using b(2) by (simp add: genericScriptLines_def isComment_def hasPrefix_def clean_def)
  ultimately show ?thesis unfolding RenderGenericIPXEScript_def rendered by blast
qed

text \<open>
  C15. The hash of an ISO covers everything its script depends on: for nodes, MACs and bases whose texts
  have no line break and whose bond members are non-empty and free of commas, two configurations with
  the same hash input are the same node, MAC and base (up to trailing slashes), so they have the same
  script. Different hash inputs share a hash only by a collision of the digest.
\<close>

theorem config_hash_covers_script:
  assumes "hashable n" "hashable n'" "\<forall>t \<in> {mac, mac', base, base'}. newline \<notin> set t"
    and "hashInput n mac base = hashInput n' mac' base'"
  shows "n = n' \<and> mac = mac' \<and> RenderNodeIPXEScript n mac base = RenderNodeIPXEScript n' mac' base'"
  using hashInput_inject [OF assms] script_by_base by blast

theorem config_hash_covers_script_witness:
  "zeroNode = zeroNode \<and> ''aa'' = ''aa'' \<and>
    RenderNodeIPXEScript zeroNode ''aa'' ''http://p'' = RenderNodeIPXEScript zeroNode ''aa'' ''http://p/''"
  by (rule config_hash_covers_script)
    (simp_all add: hashable_def zeroNode_def newline_def hashInput_def trimRight_def)

text \<open>
  C27. Without that condition the hash is ambiguous: one bond member holding two PCI addresses
  separated by a comma and the two members apart have the same hash under every MAC and base, but
  different scripts. Correcting such a node keeps the cached ISO of the old one.
\<close>

theorem config_hash_member_collision:
  "let n = zeroNode\<lparr>BondMembers := [''0000:3b:00.0,0000:af:00.1'']\<rparr>;
       n' = zeroNode\<lparr>BondMembers := [''0000:3b:00.0'', ''0000:af:00.1'']\<rparr>
   in (\<forall>mac base. ComputeNodeConfigHash n mac base = ComputeNodeConfigHash n' mac base)
    \<and> RenderNodeIPXEScript n ''02:00:00:00:00:01'' ''http://p'' \<noteq> RenderNodeIPXEScript n' ''02:00:00:00:00:01'' ''http://p''"
proof -
  let ?n = "zeroNode\<lparr>BondMembers := [''0000:3b:00.0,0000:af:00.1'']\<rparr>"
    and ?n' = "zeroNode\<lparr>BondMembers := [''0000:3b:00.0'', ''0000:af:00.1'']\<rparr>"
    and ?mac = "''02:00:00:00:00:01''" and ?base = "''http://p''"
  have pci: "isPCIAddr ''0000:3b:00.0,0000:af:00.1''" "isPCIAddr ''0000:3b:00.0''" "isPCIAddr ''0000:af:00.1''"
    by code_simp+
  have "length (nodeScriptLines ?n ?mac ?base) \<noteq> length (nodeScriptLines ?n' ?mac ?base)"
    by (simp add: nodeScriptLines_def pciLines_def hasPCIs_def pci setLine_def zeroNode_def)
  moreover have "splitOn newline (RenderNodeIPXEScript n ?mac ?base) = nodeScriptLines n ?mac ?base @ [[]]" if "cleanNode n" for n
    unfolding RenderNodeIPXEScript_def by (rule splitOn_unlines, rule no_newline_lines [OF that]) (simp_all add: newline_def)
  moreover have "cleanNode ?n" "cleanNode ?n'" by (simp_all add: cleanNode_def zeroNode_def newline_def)
  ultimately have "RenderNodeIPXEScript ?n ?mac ?base \<noteq> RenderNodeIPXEScript ?n' ?mac ?base"
    by (metis append_same_eq)
  moreover have "hashInput ?n mac base = hashInput ?n' mac base" for mac base by (simp add: hashInput_def)
  ultimately show ?thesis unfolding Let_def ComputeNodeConfigHash_def by (simp only: simp_thms)
qed

text \<open>
  A configuration hash is sixteen hexadecimal digits, for a node and for the generic ISO.
\<close>

lemma config_hash_shape:
  "length (ComputeNodeConfigHash n mac base) = 16 \<and> list_all isHex (ComputeNodeConfigHash n mac base)
    \<and> length (GenericConfigHash base) = 16 \<and> list_all isHex (GenericConfigHash base)"
proof -
  have "list_all isHex (take 16 (hexEncode b))" for b
    using hexEncode_isHex [of b] by (auto simp: list_all_iff dest: in_set_takeD)
  then show ?thesis by (simp add: ComputeNodeConfigHash_def GenericConfigHash_def)
qed

text \<open>
  Formatting a PCI address is idempotent: every text is turned into a fixed point, and a
  four-part address whose parts fit 32 bits is printed so that it scans back to the same parts.
\<close>

lemma formatIPXEPCI_idempotent: "formatIPXEPCI (formatIPXEPCI p) = formatIPXEPCI p"
proof (cases p rule: formatIPXEPCI_cases)
  case (pci seg bus dev fn)
  then show ?thesis
    by (simp add: formatIPXEPCI_def [of "printPCI seg bus dev fn"] printPCI_trim printPCI_scan)
next
  case other
  let ?q = "trimSpace p"
  have "trimSpace (toLower ?q) = toLower ?q" by (simp add: trimSpace_toLower)
  moreover have "countChar (toLower ?q) (CHR '':'') = countChar ?q (CHR '':'')" by (rule countChar_toLower) simp
  moreover have "contains (toLower ?q) ''.'' = contains ?q ''.''"
    unfolding contains_single by (rule in_set_toLower) simp
  moreover have "scanHexes (toLower ?q) ''::.'' = scanHexes ?q ''::.''" "scanHexes (toLower ?q) '':.'' = scanHexes ?q '':.''"
    by (rule scanHexes_toLower, simp)+
  ultimately have "formatIPXEPCI (toLower ?q) = formatIPXEPCI p \<or> formatIPXEPCI (toLower ?q) = toLower (toLower ?q)"
    unfolding formatIPXEPCI_def Let_def by (auto split: list.splits)
  with other show ?thesis by auto
qed

text \<open>
  C25. A node ISO carries its own script: whenever \<open>BuildNodeISO\<close> returns an image, the firmware's
  reader finds a FAT12 volume in it with the iPXE binary and exactly the script rendered for that node, MAC
  and proxy base. It never panics, and its errors are a missing binary or content over the volume limit.
\<close>

theorem node_iso_carries_script:
  "case BuildNodeISO efi n mac base of
     Panic \<Rightarrow> False
   | Err e \<Rightarrow> efi = [] \<or> fatMaxClusters < 2 + chainLen (length efi) + chainLen (length (RenderNodeIPXEScript n mac base))
   | Ok img \<Rightarrow> (\<exists>vol k. elTorito img = Some (vol, k)
       \<and> readFAT12 vol [''EFI'', ''BOOT'', ''BOOTX64.EFI''] = Some efi
       \<and> readFAT12 vol [autoexecName] = Some (bytes_of (RenderNodeIPXEScript n mac base)))"
proof -
  let ?s = "bytes_of (RenderNodeIPXEScript n mac base)"
  have ne: "?s \<noteq> []" by (simp add: RenderNodeIPXEScript_def nodeScriptLines_def unlines_def bytes_of_def)
  show ?thesis
  proof (cases rule: buildESPImage_cases [of ?s efi])
    case empty
    with ne show ?thesis by simp
  next
    case (large e)
    then show ?thesis by (simp add: BuildNodeISO_def buildBootISO_def)
  next
    case (image fs fat)
    show ?thesis
    proof (cases "efi = []")
      case False
      then obtain img where img: "buildBootISO efi ?s = Ok img" using buildBootISO_Ok [OF False ne image(2)] by blast
      obtain vol k where "elTorito img = Some (vol, k)"
        "readFAT12 vol [''EFI'', ''BOOT'', ''BOOTX64.EFI''] = Some efi" "readFAT12 vol [autoexecName] = Some ?s"
        using buildBootISO_reads [OF img] by metis
      with img show ?thesis by (auto simp: BuildNodeISO_def)
    qed (simp add: BuildNodeISO_def buildBootISO_def)
  qed
qed

end
