(* ===== verification/Overlay.thy ===== *)
theory Overlay
  imports Go_Strings
begin

text \<open>
  The initramfs overlay archive of \<^verbatim>\<open>images/maas-boot-proxy/overlay.go\<close>: the newc cpio writer, the
  walk over the embedded file tree, and, as its specification, the independent reader \<open>parseNewc\<close> of
  \<^verbatim>\<open>overlay_test.go\<close>. The compressor (\<open>compress/gzip\<close> at best compression) is a parameter. File trees
  list their directories in the order of \<open>ReadDir\<close>; listing a directory and reading a file may fail with an error text.
\<close>

section \<open>The writer\<close>

function padTo4 :: "string \<Rightarrow> string" where
  "padTo4 w = (if length w mod 4 \<noteq> 0 then padTo4 (w @ [CHR 0x00]) else w)"
  by pat_completeness auto
termination
proof (relation "measure (\<lambda>w. (4 - length w mod 4) mod 4)")
  fix w :: string
  assume "length w mod 4 \<noteq> 0"
  then have "length w mod 4 = 1 \<or> length w mod 4 = 2 \<or> length w mod 4 = 3" by arith
  moreover have "length (w @ [CHR 0x00]) mod 4 = (length w mod 4 + 1) mod 4" by (simp add: mod_Suc_eq)
  ultimately show "(w @ [CHR 0x00], w) \<in> measure (\<lambda>w. (4 - length w mod 4) mod 4)" by auto
qed simp

declare padTo4.simps [simp del]

definition hex8 :: "nat \<Rightarrow> string" where
  "hex8 n = padHex upperHexDigit 8 n"

definition newcHeader :: "nat list \<Rightarrow> string" where
  "newcHeader fields = ''070701'' @ concat (map hex8 fields)"

definition writeNewc :: "u32 \<Rightarrow> nat \<Rightarrow> nat \<Rightarrow> string \<Rightarrow> string \<Rightarrow> string \<Rightarrow> string" where
  "writeNewc ino mode nlink name data w =
     (let namesize = unat (of_nat (length name + 1) :: u32);
          w = w @ newcHeader [unat ino, mode, 0, 0, nlink, 0, length data, 0, 0, 0, 0, namesize, 0];
          w = w @ name @ [CHR 0x00];
          w = padTo4 w;
          w = w @ data
      in padTo4 w)"

section \<open>The walk\<close>

datatype FSTree = FSFile "string + string" | FSDir "(string \<times> FSTree) list" | FSBadDir string

datatype Visit = VisitDir string | VisitFile string "string + string" | VisitErr string string

fun visitPath :: "Visit \<Rightarrow> string" where
  "visitPath (VisitDir p) = p"
| "visitPath (VisitFile p _) = p"
| "visitPath (VisitErr p _) = p"

text \<open>
  \<open>fs.WalkDir\<close>: a directory, then its children in order. A directory that cannot be listed is visited a
  second time, with the error.
\<close>

fun walkDir :: "string \<Rightarrow> FSTree \<Rightarrow> Visit list" where
  "walkDir p (FSFile d) = [VisitFile p d]"
| "walkDir p (FSDir cs) = VisitDir p # concat (map (\<lambda>(n, t). walkDir (p @ ''/'' @ n) t) cs)"
| "walkDir p (FSBadDir err) = [VisitDir p, VisitErr p err]"

definition overlayExecutable :: "string \<Rightarrow> bool" where
  "overlayExecutable name \<longleftrightarrow> name = ''scripts/init-premount/bond''"

definition modeDir :: nat where "modeDir = 0x41ED"
definition modeFile :: nat where "modeFile = 0x81A4"
definition modeExec :: nat where "modeExec = 0x81ED"

definition fileMode :: "string \<Rightarrow> nat" where
  "fileMode name = (if overlayExecutable name then modeExec else modeFile)"

definition visitErr :: "Visit \<Rightarrow> string option" where
  "visitErr v = (case v of VisitErr _ err \<Rightarrow> Some err | _ \<Rightarrow> None)"

text \<open>The callback of the walk, on the inode counter and the archive so far.\<close>

definition overlayVisit :: "string \<Rightarrow> Visit \<Rightarrow> u32 \<times> string \<Rightarrow> (u32 \<times> string) outcome" where
  "overlayVisit root v st = (case st of (ino, raw) \<Rightarrow>
     let p = visitPath v in
     if visitErr v \<noteq> None then Err (the (visitErr v))
     else if p = root then Ok (ino, raw)
     else if length p < length root + 1 then Panic
     else let name = drop (length root + 1) p; ino = ino + 1 in
       (case v of
          VisitDir _ \<Rightarrow> Ok (ino, writeNewc ino modeDir 2 name [] raw)
        | VisitFile _ content \<Rightarrow>
            (case content of
               Inl err \<Rightarrow> Err err
             | Inr data \<Rightarrow> Ok (ino, writeNewc ino (fileMode name) 1 name data raw))
        | VisitErr _ err \<Rightarrow> Err err))"

definition trailer :: string where "trailer = ''TRAILER!!!''"

definition overlayRaw :: "(string \<Rightarrow> string + FSTree) \<Rightarrow> string \<Rightarrow> string outcome" where
  "overlayRaw fsys root = (case fsys root of
     Inl err \<Rightarrow> Err err
   | Inr tree \<Rightarrow> obind (run (map (overlayVisit root) (walkDir root tree)) (0, []))
       (\<lambda>(ino, raw). Ok (writeNewc 0 0 1 trailer [] raw)))"

definition BuildOverlayCPIO :: "(string \<Rightarrow> string) \<Rightarrow> (string \<Rightarrow> string + FSTree) \<Rightarrow> string \<Rightarrow> string outcome" where
  "BuildOverlayCPIO gzip fsys root = obind (overlayRaw fsys root) (\<lambda>raw. Ok (gzip raw))"

definition overlayRoot :: string where "overlayRoot = ''initramfs-bond-overlay''"

definition mustBuildOverlay :: "(string \<Rightarrow> string) \<Rightarrow> (string \<Rightarrow> string + FSTree) \<Rightarrow> string outcome" where
  "mustBuildOverlay gzip fsys = (case BuildOverlayCPIO gzip fsys overlayRoot of Ok b \<Rightarrow> Ok b | _ \<Rightarrow> Panic)"

section \<open>The independent reader\<close>

definition align4 :: "nat \<Rightarrow> nat" where
  "align4 n = (n + 3) div 4 * 4"

definition newcField :: "string \<Rightarrow> nat \<Rightarrow> nat \<Rightarrow> nat option" where
  "newcField raw off i = (let s = rd (off + 6 + 8 * i) 8 raw in
     if s \<noteq> [] \<and> list_all isHex s then Some (hexValue s) else None)"

definition sliceText :: "nat \<Rightarrow> nat \<Rightarrow> string \<Rightarrow> string option" where
  "sliceText off n s = (if off + n \<le> length s then Some (rd off n s) else None)"

function parseNewc :: "nat \<Rightarrow> string \<Rightarrow> (string \<times> nat \<times> string) list option" where
  "parseNewc off raw =
     (if off + 110 > length raw \<or> rd off 6 raw \<noteq> ''070701'' then None
      else case (newcField raw off 1, newcField raw off 6, newcField raw off 11) of
        (Some mode, Some sz, Some namesize) \<Rightarrow>
          (case (if namesize = 0 then None else sliceText (off + 110) (namesize - 1) raw) of
             None \<Rightarrow> None
           | Some name \<Rightarrow>
               let dataStart = align4 (off + 110 + namesize) in
               if name = trailer then (if dataStart = length raw then Some [] else None)
               else (case sliceText dataStart sz raw of
                   None \<Rightarrow> None
                 | Some data \<Rightarrow> map_option (\<lambda>es. (name, mode, data) # es) (parseNewc (align4 (dataStart + sz)) raw)))
      | _ \<Rightarrow> None)"
  by pat_completeness auto
termination
  by (relation "measure (\<lambda>(off, raw). length raw - off)") (auto simp: align4_def)

declare parseNewc.simps [simp del]

section \<open>Lemmas on padding\<close>

lemma align4_cases: obtains k where "n = 4 * k" "align4 n = n" | k r where "n = 4 * k + r" "0 < r" "r < 4" "align4 n = 4 * k + 4"
proof -
  define k r where "k = n div 4" and "r = n mod 4"
  have n: "n = 4 * k + r" "r < 4" by (simp_all add: k_def r_def)
  have "align4 n = 4 * (k + (r + 3) div 4)" by (simp add: align4_def n(1) add.assoc)
  moreover have "r = 0 \<or> r = 1 \<or> r = 2 \<or> r = 3" using n(2) by linarith
  then have "(r + 3) div 4 = (if r = 0 then 0 else 1)" by (elim disjE) simp_all
  ultimately show thesis
    using n that(1) [of k] that(2) [of k r] by (cases "r = 0") simp_all
qed

lemma align4_ge: "n \<le> align4 n"
  by (cases n rule: align4_cases) auto

lemma align4_mod [simp]: "align4 n mod 4 = 0"
  by (simp add: align4_def)

lemma align4_add: "k mod 4 = 0 \<Longrightarrow> align4 (k + n) = k + align4 n"
proof -
  assume "k mod 4 = 0"
  then obtain j where "k = 4 * j" by (metis mod_0_imp_dvd dvdE)
  then show ?thesis by (simp add: align4_def add.assoc)
qed

lemma padTo4_eq: "padTo4 w = w @ replicate (align4 (length w) - length w) (CHR 0x00)"
proof (induction w rule: padTo4.induct)
  case (1 w)
  show ?case
  proof (cases "length w" rule: align4_cases)
    case (1 k)
    then show ?thesis by (simp add: padTo4.simps [of w])
  next
    case (2 k r)
    then have ne: "length w mod 4 \<noteq> 0" by simp
    have "align4 (length w + 1) = align4 (length w)"
    proof -
      have "r = 1 \<or> r = 2 \<or> r = 3" using 2 by linarith
      then show ?thesis using 2(1) by (elim disjE) (simp_all add: align4_def add.assoc)
    qed
    moreover have "length w < align4 (length w)" using 2 by simp
    ultimately show ?thesis
      using "1.IH" [OF ne] ne by (simp add: padTo4.simps [of w] replicate_Suc [symmetric] Suc_diff_Suc del: replicate_Suc)
  qed
qed

lemma length_padTo4 [simp]: "length (padTo4 w) = align4 (length w)"
  using align4_ge [of "length w"] by (simp add: padTo4_eq)

lemma padTo4_append: "length w mod 4 = 0 \<Longrightarrow> padTo4 (w @ x) = w @ padTo4 x"
  by (simp add: padTo4_eq align4_add)

section \<open>One entry\<close>

definition newcEntry :: "u32 \<Rightarrow> nat \<Rightarrow> nat \<Rightarrow> string \<Rightarrow> string \<Rightarrow> string" where
  "newcEntry ino mode nlink name data = writeNewc ino mode nlink name data []"

lemma writeNewc_append: "length w mod 4 = 0 \<Longrightarrow> writeNewc ino mode nlink name data w = w @ newcEntry ino mode nlink name data"
  by (simp add: newcEntry_def writeNewc_def Let_def padTo4_append)

lemma rd_shift: "length pre = n \<Longrightarrow> rd (n + k) m (pre @ x) = rd k m x"
  by (simp add: rd_def)

lemma rd_left: "k + m \<le> length x \<Longrightarrow> rd k m (x @ y) = rd k m x"
  by (simp add: rd_def)

lemma length_hex8: "n < 2 ^ 32 \<Longrightarrow> length (hex8 n) = 8"
  unfolding hex8_def by (rule length_padHex) simp_all

lemma rd_blocks:
  assumes "\<forall>x \<in> set xs. length (f x) = k" "i < length xs"
  shows "rd (k * i) k (concat (map f xs)) = f (xs ! i)"
  using assms
proof (induction xs arbitrary: i)
  case (Cons x xs)
  show ?case
  proof (cases i)
    case 0
    with Cons.prems show ?thesis by (simp add: rd_def)
  next
    case (Suc j)
    have "rd (k + k * j) k (f x @ concat (map f xs)) = rd (k * j) k (concat (map f xs))"
      by (rule rd_shift) (use Cons.prems in simp)
    with Cons Suc show ?thesis by simp
  qed
qed simp

lemma length_blocks: "\<forall>x \<in> set xs. length (f x) = k \<Longrightarrow> length (concat (map f xs)) = k * length xs"
  by (induction xs) auto

lemma header_field:
  assumes "\<forall>x \<in> set fs. x < 2 ^ 32" "i < length fs"
  shows "rd (6 + 8 * i) 8 (newcHeader fs) = hex8 (fs ! i)" "length (newcHeader fs) = 6 + 8 * length fs"
  using assms rd_shift [of "''070701''" 6 "8 * i" 8 "concat (map hex8 fs)"] rd_blocks [of fs hex8 8 i] length_blocks [of fs hex8 8]
  by (simp_all add: newcHeader_def length_hex8)

lemma hex8_value: "hex8 n \<noteq> []" "list_all isHex (hex8 n)" "hexValue (hex8 n) = n"
  by (simp_all add: hex8_def padHex_facts)

lemma newcEntry_parts:
  obtains h z1 z2 where "newcEntry ino mode nlink name data = h @ name @ z1 @ data @ z2"
    "h = newcHeader [unat ino, mode, 0, 0, nlink, 0, length data, 0, 0, 0, 0, unat (of_nat (length name + 1) :: u32), 0]"
    "length h + length name + length z1 = align4 (length h + length name + 1)" "z1 \<noteq> []"
    "length (newcEntry ino mode nlink name data) = align4 (align4 (length h + length name + 1) + length data)"
proof -
  let ?h = "newcHeader [unat ino, mode, 0, 0, nlink, 0, length data, 0, 0, 0, 0, unat (of_nat (length name + 1) :: u32), 0]"
  define z1 where "z1 = CHR 0x00 # replicate (align4 (length ?h + length name + 1) - (length ?h + length name + 1)) (CHR 0x00)"
  define z2 where "z2 = replicate (align4 (align4 (length ?h + length name + 1) + length data) - (align4 (length ?h + length name + 1) + length data)) (CHR 0x00)"
  have a: "padTo4 (?h @ name @ [CHR 0x00]) = ?h @ name @ z1" by (simp add: padTo4_eq z1_def)
  have l: "length ?h + length name + length z1 = align4 (length ?h + length name + 1)"
    using align4_ge [of "length ?h + length name + 1"] by (simp add: z1_def)
  have e: "newcEntry ino mode nlink name data = padTo4 (padTo4 (?h @ name @ [CHR 0x00]) @ data)"
    by (simp add: newcEntry_def writeNewc_def Let_def)
  have "newcEntry ino mode nlink name data = ?h @ name @ z1 @ data @ z2"
    unfolding e a z2_def l [symmetric] by (simp add: padTo4_eq add.assoc)
  moreover have "length (newcEntry ino mode nlink name data) = align4 (align4 (length ?h + length name + 1) + length data)"
    unfolding e by simp
  moreover have "z1 \<noteq> []" by (simp add: z1_def)
  ultimately show thesis using l by (intro that [of ?h z1 z2]) (simp_all only: refl simp_thms)
qed

lemma parseNewc_step:
  fixes ino :: u32
  assumes "length pre mod 4 = 0" "mode < 2 ^ 32" "nlink < 2 ^ 32" "length data < 2 ^ 32" "length name + 1 < 2 ^ 32"
  defines "e \<equiv> newcEntry ino mode nlink name data"
  shows "parseNewc (length pre) (pre @ e @ post) =
    (if name = trailer then (if align4 (length pre + 110 + (length name + 1)) = length (pre @ e @ post) then Some [] else None)
     else map_option (\<lambda>es. (name, mode, data) # es) (parseNewc (length pre + length e) (pre @ e @ post)))"
proof -
  let ?raw = "pre @ e @ post" and ?off = "length pre" and ?ns = "length name + 1"
  let ?fs = "[unat ino, mode, 0, 0, nlink, 0, length data, 0, 0, 0, 0, unat (of_nat (length name + 1) :: u32), 0]"
  obtain h z1 z2 where e: "e = h @ name @ z1 @ data @ z2" and h: "h = newcHeader ?fs"
    and len: "length h + length name + length z1 = align4 (length h + length name + 1)"
    "length e = align4 (align4 (length h + length name + 1) + length data)"
    unfolding e_def by (rule newcEntry_parts)
  have ns: "unat (of_nat (length name + 1) :: u32) = ?ns"
    using assms(5) by (simp only: unat_of_nat take_bit_eq_mod) simp
  have small: "\<forall>x \<in> set ?fs. x < 2 ^ 32"
    using assms(2-5) unsigned_less [of ino, where 'a = nat] unfolding ns by simp
  have lh: "length h = 110" using header_field(2) [OF small, of 0] by (simp add: h)
  have field: "newcField ?raw ?off i = Some (?fs ! i)" if "i < 13" for i
  proof -
    have "rd (?off + 6 + 8 * i) 8 ?raw = rd (6 + 8 * i) 8 h"
      using that lh rd_shift [of pre ?off "6 + 8 * i" 8] by (simp add: e rd_left add.assoc)
    also have "\<dots> = hex8 (?fs ! i)" unfolding h by (rule header_field [OF small]) (use that in simp)
    finally show ?thesis by (simp only: newcField_def Let_def hex8_value simp_thms if_True)
  qed
  have magic: "rd ?off 6 ?raw = ''070701''" using lh by (simp add: e rd_def h newcHeader_def)
  have big: "\<not> ?off + 110 > length ?raw" by (simp add: e lh)
  have name: "sliceText (?off + 110) (?ns - 1) ?raw = Some name" using lh by (simp add: sliceText_def e rd_def)
  have start: "align4 (?off + 110 + ?ns) = ?off + (110 + length name + length z1)"
    using len(1) lh unfolding add.assoc [of ?off 110] align4_add [OF assms(1)] by simp
  have data: "sliceText (align4 (?off + 110 + ?ns)) (length data) ?raw = Some data"
    unfolding start using lh by (simp add: sliceText_def e rd_def)
  have "next": "align4 (align4 (?off + 110 + ?ns) + length data) = ?off + length e"
    using len lh unfolding start add.assoc [of ?off "110 + length name + length z1"] align4_add [OF assms(1)] by simp
  have fields: "newcField ?raw ?off 1 = Some mode" "newcField ?raw ?off 6 = Some (length data)" "newcField ?raw ?off 11 = Some ?ns"
    using field [of 1] field [of 6] field [of 11] ns by simp_all
  have nz: "(?ns = 0) = False" by simp
  show ?thesis
    by (subst parseNewc.simps)
      (simp only: big magic fields name data "next" nz prod.case option.case Let_def simp_thms if_False)
qed

section \<open>The whole archive\<close>

definition overlayName :: "string \<Rightarrow> Visit \<Rightarrow> string" where
  "overlayName root v = drop (length root + 1) (visitPath v)"

definition contentOf :: "Visit \<Rightarrow> string" where
  "contentOf v = (case v of VisitDir _ \<Rightarrow> [] | VisitFile _ c \<Rightarrow> (case c of Inl _ \<Rightarrow> [] | Inr d \<Rightarrow> d)
     | VisitErr _ _ \<Rightarrow> [])"

definition modeOf :: "string \<Rightarrow> Visit \<Rightarrow> nat" where
  "modeOf root v = (case v of VisitDir _ \<Rightarrow> modeDir | _ \<Rightarrow> fileMode (overlayName root v))"

text \<open>What the archive should list: every visited path but the root, with its mode and content.\<close>

definition overlayEntries :: "string \<Rightarrow> Visit list \<Rightarrow> (string \<times> nat \<times> string) list" where
  "overlayEntries root vs = map (\<lambda>v. (overlayName root v, modeOf root v, contentOf v)) (filter (\<lambda>v. visitPath v \<noteq> root) vs)"

definition readError :: "string \<Rightarrow> Visit \<Rightarrow> string option" where
  "readError root v = (case v of
       VisitDir _ \<Rightarrow> None
     | VisitFile p c \<Rightarrow> (case c of Inl err \<Rightarrow> if p = root then None else Some err | Inr _ \<Rightarrow> None)
     | VisitErr _ err \<Rightarrow> Some err)"

definition visitFits :: "string \<Rightarrow> Visit \<Rightarrow> bool" where
  "visitFits root v \<longleftrightarrow> readError root v = None \<and> length (contentOf v) < 2 ^ 32
     \<and> length (visitPath v) < 2 ^ 32 - 1 \<and> overlayName root v \<noteq> trailer"

definition under :: "string \<Rightarrow> Visit \<Rightarrow> bool" where
  "under root v \<longleftrightarrow> visitPath v = root \<or> length root + 1 \<le> length (visitPath v)"

lemma walkDir_under: "v \<in> set (walkDir p t) \<Longrightarrow> \<exists>q. visitPath v = p @ q"
  by (induction p t rule: walkDir.induct) fastforce+

lemma walkDir_under_root: "\<forall>v \<in> set (walkDir root t). under root v"
  by (auto simp: under_def dest!: walkDir_under) (metis Suc_leI length_greater_0_conv)

definition nlinkOf :: "Visit \<Rightarrow> nat" where
  "nlinkOf v = (case v of VisitDir _ \<Rightarrow> 2 | _ \<Rightarrow> 1)"

lemma overlayVisit_Ok:
  assumes "under root v" "visitPath v \<noteq> root" "readError root v = None" "length raw mod 4 = 0"
  shows "overlayVisit root v (ino, raw) = Ok (ino + 1, raw @ newcEntry (ino + 1) (modeOf root v) (nlinkOf v) (overlayName root v) (contentOf v))"
  using assms
  by (cases v) (simp_all add: overlayVisit_def visitErr_def under_def Let_def modeOf_def overlayName_def contentOf_def nlinkOf_def
    readError_def writeNewc_append split: sum.splits)

lemma newcEntry_length_mod [simp]: "length (newcEntry ino mode nlink name data) mod 4 = 0"
proof -
  obtain h where "length (newcEntry ino mode nlink name data) = align4 (align4 (length (h :: string) + length name + 1) + length data)"
    by (rule newcEntry_parts)
  then show ?thesis by simp
qed

lemma modes_small: "modeOf root v < 2 ^ 32" "nlinkOf v < 2 ^ 32"
  by (simp_all add: modeOf_def nlinkOf_def modeDir_def fileMode_def modeExec_def modeFile_def split: Visit.splits)

lemma append_Cons_fun: "(@) (x # xs) = (\<lambda>ys. x # xs @ ys)"
  by (rule ext) simp

lemma run_visits:
  assumes "\<forall>v \<in> set vs. under root v \<and> visitFits root v" "length raw mod 4 = 0"
  shows "\<exists>ino' es. run (map (overlayVisit root) vs) (ino, raw) = Ok (ino', raw @ es) \<and> length es mod 4 = 0
    \<and> (\<forall>post. parseNewc (length raw) (raw @ es @ post) =
         map_option ((@) (overlayEntries root vs)) (parseNewc (length raw + length es) (raw @ es @ post)))"
  using assms
proof (induction vs arbitrary: ino raw)
  case Nil
  show ?case by (intro exI [of _ ino] exI [of _ "[]"]) (simp add: overlayEntries_def option.map_ident)
next
  case (Cons v vs)
  show ?case
  proof (cases "visitPath v = root")
    case True
    moreover have "readError root v = None" using Cons.prems(1) by (simp add: visitFits_def)
    ultimately have "overlayVisit root v (ino, raw) = Ok (ino, raw)"
      by (cases v) (simp_all add: overlayVisit_def visitErr_def readError_def)
    with Cons.IH [of raw ino] Cons.prems True show ?thesis by (simp add: overlayEntries_def)
  next
    case False
    let ?e = "newcEntry (ino + 1) (modeOf root v) (nlinkOf v) (overlayName root v) (contentOf v)"
    have fits: "readError root v = None" "length (contentOf v) < 2 ^ 32" "overlayName root v \<noteq> trailer" "under root v"
      "length (overlayName root v) + 1 < 2 ^ 32"
      using Cons.prems(1) by (auto simp: visitFits_def overlayName_def)
    have mod: "length (raw @ ?e) mod 4 = 0" using Cons.prems(2) by (simp add: mod_add_eq [symmetric])
    obtain ino' es where run: "run (map (overlayVisit root) vs) (ino + 1, raw @ ?e) = Ok (ino', (raw @ ?e) @ es)"
      and es: "length es mod 4 = 0" "\<forall>post. parseNewc (length (raw @ ?e)) ((raw @ ?e) @ es @ post) =
         map_option ((@) (overlayEntries root vs)) (parseNewc (length (raw @ ?e) + length es) ((raw @ ?e) @ es @ post))"
      using Cons.IH [OF _ mod, of "ino + 1"] Cons.prems(1) by auto
    have "parseNewc (length raw) (raw @ (?e @ es) @ post) =
       map_option ((@) (overlayEntries root (v # vs))) (parseNewc (length raw + length (?e @ es)) (raw @ (?e @ es) @ post))" for post
      using parseNewc_step [OF Cons.prems(2) modes_small(1) [of root v] modes_small(2) [of v] fits(2,5), where ino = "ino + 1" and post = "es @ post"] fits(3) es(2) False
      by (simp add: overlayEntries_def option.map_comp comp_def append_Cons_fun add.assoc)
    moreover have "length (?e @ es) mod 4 = 0" using es(1) by (simp add: mod_add_eq [symmetric])
    moreover have "run (map (overlayVisit root) (v # vs)) (ino, raw) = Ok (ino', raw @ (?e @ es))"
      using run overlayVisit_Ok [OF fits(4) False fits(1) Cons.prems(2)] by simp
    ultimately show ?thesis by (intro exI [of _ ino'] exI [of _ "?e @ es"] conjI allI)
  qed
qed

lemma overlayVisit_cases:
  assumes "under root v"
  shows "case readError root v of
      None \<Rightarrow> \<exists>st. overlayVisit root v (ino, raw) = Ok st
    | Some e \<Rightarrow> overlayVisit root v (ino, raw) = Err e"
  using assms by (cases v) (auto simp: overlayVisit_def visitErr_def readError_def under_def Let_def split: sum.splits)

lemma run_visits_outcome:
  assumes "\<forall>v \<in> set vs. under root v"
  shows "case run (map (overlayVisit root) vs) st of
      Panic \<Rightarrow> False
    | Err e \<Rightarrow> (\<exists>v \<in> set vs. readError root v = Some e)
    | Ok _ \<Rightarrow> (\<forall>v \<in> set vs. readError root v = None)"
  using assms
proof (induction vs arbitrary: st)
  case (Cons v vs)
  obtain ino raw where st: "st = (ino, raw)" by (cases st)
  consider (err) e where "overlayVisit root v st = Err e" "readError root v = Some e"
    | (ok) st' where "overlayVisit root v st = Ok st'" "readError root v = None"
    using overlayVisit_cases [of root v ino raw] Cons.prems unfolding st by (cases "readError root v") auto
  then show ?case
  proof cases
    case (ok st')
    with Cons.IH [of st'] Cons.prems show ?thesis by (auto split: outcome.splits)
  qed auto
qed simp

section \<open>Properties\<close>




end
