(* ===== verification/Go_Regexp.thy ===== *)
theory Go_Regexp
  imports Go_Strings
begin

text \<open>
  The part of package \<open>regexp\<close> that the boot proxy uses: expressions that are sequences of literal texts,
  repeated character classes, an optional text, the anchors \<open>^\<close> and \<open>$\<close> of the text or (flag \<open>(?m)\<close>) of a
  line, and one group. Matching follows Go: the leftmost match, and among the matches that start there the
  one a backtracking search finds first, so a greedy repetition prefers the longest run and a lazy one the
  shortest. \<open>ReplaceAll\<close> interprets \<open>$\<close> in its replacement as the documentation of \<open>Expand\<close> says.

  A position in a text is given by the character before it, if any, and the rest of the text.
\<close>

named_theorems regexp_simps

section \<open>Matching\<close>

datatype item =
    Lit string
  | Rep bool "char \<Rightarrow> bool" nat "nat option"
  | Opt string
  | BeginText | EndText | BeginLine | EndLine
  | Mark

text \<open>The lengths an item can consume at a position, the preferred one first.\<close>

definition repLen :: "(char \<Rightarrow> bool) \<Rightarrow> nat option \<Rightarrow> string \<Rightarrow> nat" where
  "repLen P hi s = (let n = length (takeWhile P s) in case hi of None \<Rightarrow> n | Some h \<Rightarrow> min h n)"

fun steps :: "item \<Rightarrow> char option \<Rightarrow> string \<Rightarrow> nat list" where
  "steps (Lit t) p s = (if hasPrefix s t then [length t] else [])"
| "steps (Rep greedy P lo hi) p s =
     (let ks = [lo ..< Suc (repLen P hi s)] in if greedy then rev ks else ks)"
| "steps (Opt t) p s = (if hasPrefix s t then [length t, 0] else [0])"
| "steps BeginText p s = (if p = None then [0] else [])"
| "steps EndText p s = (if s = [] then [0] else [])"
| "steps BeginLine p s = (if p = None \<or> p = Some newline then [0] else [])"
| "steps EndLine p s = (if s = [] \<or> hd s = newline then [0] else [])"
| "steps Mark p s = [0]"

definition isMark :: "item \<Rightarrow> bool" where
  "isMark it = (case it of Mark \<Rightarrow> True | _ \<Rightarrow> False)"

definition advance :: "char option \<Rightarrow> string \<Rightarrow> nat \<Rightarrow> char option" where
  "advance p s n = (if n = 0 then p else Some (s ! (n - 1)))"

primrec firstSome :: "('a \<Rightarrow> 'b option) \<Rightarrow> 'a list \<Rightarrow> 'b option" where
  "firstSome f [] = None"
| "firstSome f (x # xs) = (case f x of None \<Rightarrow> firstSome f xs | Some y \<Rightarrow> Some y)"

text \<open>A match at a position: its length and the offsets of the marks, that is, of the group.\<close>

primrec matchAt :: "item list \<Rightarrow> char option \<Rightarrow> string \<Rightarrow> (nat \<times> nat list) option" where
  "matchAt [] p s = Some (0, [])"
| "matchAt (it # its) p s = firstSome (\<lambda>n. map_option
     (\<lambda>(e, ms). (n + e, (if isMark it then [0] else []) @ map ((+) n) ms))
     (matchAt its (advance p s n) (drop n s))) (steps it p s)"

text \<open>The leftmost match: its offset, its length and its marks from the start of the match.\<close>

primrec findRe :: "item list \<Rightarrow> char option \<Rightarrow> string \<Rightarrow> (nat \<times> nat \<times> nat list) option" where
  "findRe its p [] = map_option (\<lambda>m. (0, m)) (matchAt its p [])"
| "findRe its p (c # s) = (case matchAt its p (c # s) of Some m \<Rightarrow> Some (0, m)
     | None \<Rightarrow> map_option (\<lambda>(i, m). (Suc i, m)) (findRe its (Some c) s))"

text \<open>\<open>FindIndex\<close>, \<open>Match\<close> and the group of \<open>FindStringSubmatch\<close>.\<close>

definition findIndex :: "item list \<Rightarrow> string \<Rightarrow> (nat \<times> nat) option" where
  "findIndex its s = map_option (\<lambda>(i, e, ms). (i, i + e)) (findRe its None s)"

definition matchRe :: "item list \<Rightarrow> string \<Rightarrow> bool" where
  "matchRe its s \<longleftrightarrow> findRe its None s \<noteq> None"

definition submatch :: "item list \<Rightarrow> string \<Rightarrow> string option" where
  "submatch its s = (case findRe its None s of
       Some (i, e, [a, b]) \<Rightarrow> Some (rd (i + a) (b - a) s)
     | _ \<Rightarrow> None)"

lemma firstSome_eq_None: "firstSome f xs = None \<longleftrightarrow> (\<forall>x \<in> set xs. f x = None)"
  by (induction xs) (auto split: option.splits)

lemma firstSome_Some: "firstSome f xs = Some y \<Longrightarrow> \<exists>x \<in> set xs. f x = Some y"
  by (induction xs) (auto split: option.splits)

lemma hasPrefix_length: "hasPrefix s t \<Longrightarrow> length t \<le> length s"
  by (metis hasPrefix_def length_take min.cobounded1)

lemma repLen_le: "repLen P hi s \<le> length s"
  using length_takeWhile_le [of P s] by (auto simp: repLen_def Let_def split: option.splits)

lemma steps_length: "n \<in> set (steps it p s) \<Longrightarrow> n \<le> length s"
proof (cases it)
  case (Rep g P lo hi)
  then show "n \<in> set (steps it p s) \<Longrightarrow> n \<le> length s"
    using repLen_le [of P hi s] by (auto simp: Let_def split: if_splits)
qed (auto dest: hasPrefix_length split: if_splits)

lemma matchAt_length: "matchAt its p s = Some (e, ms) \<Longrightarrow> e \<le> length s"
proof (induction its arbitrary: p s e ms)
  case (Cons it its)
  from Cons.prems obtain n e' ms' where n: "n \<in> set (steps it p s)"
    "matchAt its (advance p s n) (drop n s) = Some (e', ms')" "e = n + e'"
    by (auto dest!: firstSome_Some)
  from Cons.IH [OF n(2)] n(3) steps_length [OF n(1)] show ?case by simp
qed simp

section \<open>Replacing\<close>

text \<open>
  The template syntax of a replacement: \<open>$$\<close> is a dollar sign, \<open>$name\<close> or \<open>${name}\<close> a submatch, where
  the longest run of letters, digits and underscores is the name; a dollar sign that starts neither stays.
  The expressions that are replaced have no group, so the only submatch is number 0, the whole match.
\<close>

definition isWord :: "char \<Rightarrow> bool" where
  "isWord c \<longleftrightarrow> (let n = code c in 48 \<le> n \<and> n \<le> 57 \<or> 65 \<le> n \<and> n \<le> 90 \<or> 97 \<le> n \<and> n \<le> 122 \<or> n = 95)"

definition extractName :: "string \<Rightarrow> (string \<times> string) option" where
  "extractName s =
     (let brace = (s \<noteq> [] \<and> hd s = CHR ''{''); t = (if brace then tl s else s);
          name = takeWhile isWord t; rest = dropWhile isWord t
      in if name = [] then None
         else if \<not> brace then Some (name, rest)
         else if rest \<noteq> [] \<and> hd rest = CHR ''}'' then Some (name, tl rest) else None)"

lemma extractName_shorter:
  assumes "extractName s = Some (name, rest)"
  shows "length rest < length s"
proof -
  let ?t = "if s \<noteq> [] \<and> hd s = CHR ''{'' then tl s else s"
  have "length (takeWhile isWord ?t) + length (dropWhile isWord ?t) = length ?t"
    unfolding length_append [symmetric] by (simp only: takeWhile_dropWhile_id)
  moreover have "length ?t \<le> length s" by simp
  moreover have "takeWhile isWord ?t \<noteq> []" "length rest \<le> length (dropWhile isWord ?t)"
    using assms by (auto simp: extractName_def Let_def split: if_splits)
  ultimately show ?thesis by (simp only: length_greater_0_conv [symmetric])
qed

function expand :: "string \<Rightarrow> string \<Rightarrow> string" where
  "expand template m = (case template of [] \<Rightarrow> []
     | c # t \<Rightarrow> if c \<noteq> CHR ''$'' then c # expand t m
       else if t \<noteq> [] \<and> hd t = CHR ''$'' then CHR ''$'' # expand (tl t) m
       else (case extractName t of None \<Rightarrow> CHR ''$'' # expand t m
         | Some (name, rest) \<Rightarrow> (if name = ''0'' then m else []) @ expand rest m))"
  by pat_completeness auto
termination
  by (relation "measure (\<lambda>(t, _). length t)") (auto dest: extractName_shorter)

declare expand.simps [simp del]

text \<open>\<open>ReplaceAll\<close>, for expressions that match no empty text, which holds of every expression replaced.\<close>

function replaceRe :: "item list \<Rightarrow> string \<Rightarrow> char option \<Rightarrow> string \<Rightarrow> string" where
  "replaceRe its repl p s = (case matchAt its p s of
       Some (Suc e, ms) \<Rightarrow> expand repl (take (Suc e) s) @ replaceRe its repl (advance p s (Suc e)) (drop (Suc e) s)
     | _ \<Rightarrow> (case s of [] \<Rightarrow> [] | c # t \<Rightarrow> c # replaceRe its repl (Some c) t))"
  by pat_completeness auto
termination
  by (relation "measure (\<lambda>(_, _, _, s). length s)") (auto dest: matchAt_length)

declare replaceRe.simps [simp del]

definition replaceAllRe :: "item list \<Rightarrow> string \<Rightarrow> string \<Rightarrow> string" where
  "replaceAllRe its repl s = replaceRe its repl None s"

section \<open>Lemmas on matching and replacing\<close>

text \<open>The character before a position that follows \<open>x\<close>.\<close>

definition prevOf :: "char option \<Rightarrow> string \<Rightarrow> char option" where
  "prevOf p x = (if x = [] then p else Some (last x))"

lemma prevOf_simps [simp]: "prevOf p [] = p" "prevOf p (c # x) = prevOf (Some c) x"
  by (simp_all add: prevOf_def)

lemma advance_append: "advance p (x @ s) (length x) = prevOf p x"
  by (simp add: advance_def prevOf_def nth_append last_conv_nth)

lemma matchAt_Lit [regexp_simps]:
  "matchAt (Lit x # its) p (x @ t) =
    map_option (\<lambda>(e, ms). (length x + e, map ((+) (length x)) ms)) (matchAt its (prevOf p x) t)"
  by (simp add: isMark_def advance_append split: option.splits)

lemma matchAt_Lit_None [regexp_simps]: "\<not> hasPrefix s x \<Longrightarrow> matchAt (Lit x # its) p s = None"
  by simp

lemma matchAt_Lit_length: "matchAt (Lit x # its) p s = Some (e, ms) \<Longrightarrow> length x \<le> e"
  by (cases "hasPrefix s x") (auto simp: hasPrefix_conv matchAt_Lit matchAt_Lit_None simp del: matchAt.simps)

lemma matchAt_Lit_last [regexp_simps]: "matchAt [Lit x] p s = (if hasPrefix s x then Some (length x, []) else None)"
  by (simp add: isMark_def)

lemma matchAt_greedy [regexp_simps]:
  "matchAt (Rep True P lo hi # its) p s = firstSome (\<lambda>n. map_option (\<lambda>(e, ms). (n + e, map ((+) n) ms))
    (matchAt its (advance p s n) (drop n s))) (rev [lo ..< Suc (repLen P hi s)])"
  by (simp add: isMark_def Let_def)

lemma map_plus_0 [simp]: "map ((+) (0::nat)) ms = ms"
  by (induction ms) simp_all

lemma matchAt_BeginLine [regexp_simps]:
  "matchAt (BeginLine # its) p s = (if p = None \<or> p = Some newline then matchAt its p s else None)"
  by (simp add: isMark_def advance_def split: option.splits)

lemma matchAt_BeginText [regexp_simps]: "matchAt (BeginText # its) p s = (if p = None then matchAt its p s else None)"
  by (simp add: isMark_def advance_def split: option.splits)

lemma matchAt_Mark [regexp_simps]: "matchAt (Mark # its) p s = map_option (\<lambda>(e, ms). (e, 0 # ms)) (matchAt its p s)"
  by (simp add: isMark_def advance_def split: option.splits)

lemma matchAt_EndText [regexp_simps]: "matchAt [EndText] p s = (if s = [] then Some (0, []) else None)"
  by (simp add: isMark_def)

lemma matchAt_lazy [regexp_simps]:
  "matchAt (Rep False P lo hi # its) p s = firstSome (\<lambda>n. map_option (\<lambda>(e, ms). (n + e, map ((+) n) ms))
    (matchAt its (advance p s n) (drop n s))) [lo ..< Suc (repLen P hi s)]"
  by (simp add: isMark_def Let_def)

text \<open>The first of an ascending or descending run of candidates that succeeds.\<close>

lemma firstSome_up:
  assumes "f j = Some y" "\<And>k. lo \<le> k \<Longrightarrow> k < j \<Longrightarrow> f k = None" "lo \<le> j" "j < hi"
  shows "firstSome f [lo ..< hi] = Some y"
proof -
  have append: "firstSome f (xs @ ys) = (case firstSome f xs of None \<Rightarrow> firstSome f ys | Some z \<Rightarrow> Some z)" for xs ys
    by (induction xs) (auto split: option.splits)
  have "firstSome f [lo ..< j] = None" using assms(2) by (simp add: firstSome_eq_None)
  moreover have "[lo ..< hi] = [lo ..< j] @ j # [Suc j ..< hi]"
    using assms(3,4) upt_add_eq_append [of lo j "hi - j"] upt_conv_Cons [of j hi] by simp
  ultimately show ?thesis using assms(1) by (simp add: append)
qed

lemma firstSome_down:
  assumes "f j = Some y" "\<And>k. j < k \<Longrightarrow> k < hi \<Longrightarrow> f k = None" "lo \<le> j" "j < hi"
  shows "firstSome f (rev [lo ..< hi]) = Some y"
  using assms
proof (induction hi)
  case (Suc hi)
  show ?case
  proof (cases "j = hi")
    case False
    then have "f hi = None" "j < hi" using Suc.prems(2) [of hi] Suc.prems(4) by simp_all
    with Suc.IH Suc.prems show ?thesis by simp
  qed (use Suc.prems in simp)
qed simp

lemma all_splits_Cons: "(\<forall>y z. c # x = y @ z \<longrightarrow> P y z) \<longleftrightarrow> P [] (c # x) \<and> (\<forall>y z. x = y @ z \<longrightarrow> P (c # y) z)"
  by (auto simp: Cons_eq_append_conv)

text \<open>The first match: nothing matches before it.\<close>

lemma findRe_Some:
  "findRe its p (x @ s) = Some (length x, m) \<longleftrightarrow>
   matchAt its (prevOf p x) s = Some m
   \<and> (\<forall>y z. x = y @ z \<longrightarrow> z \<noteq> [] \<longrightarrow> matchAt its (prevOf p y) (z @ s) = None)"
proof (induction x arbitrary: p)
  case Nil
  have "findRe its p s = Some (0, m) \<longleftrightarrow> matchAt its p s = Some m"
    by (cases s; cases "matchAt its p s"; cases m) auto
  then show ?case by simp
next
  case (Cons c x)
  show ?case
  proof (cases "matchAt its p (c # x @ s)")
    case None
    then show ?thesis using Cons.IH [of "Some c"] unfolding all_splits_Cons by (cases m) simp
  next
    case (Some r)
    then show ?thesis unfolding all_splits_Cons by simp
  qed
qed

lemma findRe_None:
  "findRe its p s = None \<longleftrightarrow> (\<forall>y z. s = y @ z \<longrightarrow> matchAt its (prevOf p y) z = None)"
proof (induction s arbitrary: p)
  case (Cons c s)
  show ?case unfolding all_splits_Cons using Cons.IH [of "Some c"] by (simp split: option.splits)
qed simp

lemma findRe_offset: "findRe its p s = Some (i, m) \<Longrightarrow> i \<le> length s"
  by (induction s arbitrary: p i) (auto split: option.splits)

lemma expand_plain: "CHR ''$'' \<notin> set t \<Longrightarrow> expand t m = t"
  by (induction t) (auto simp: expand.simps)

lemma replaceRe_step:
  assumes "matchAt its p (x @ s) = Some (length x, ms)" "x \<noteq> []"
  shows "replaceRe its repl p (x @ s) = expand repl x @ replaceRe its repl (prevOf p x) s"
proof -
  obtain k where k: "length x = Suc k" using assms(2) by (cases x) auto
  have "take (Suc k) (x @ s) = x" "drop (Suc k) (x @ s) = s" unfolding k [symmetric] by simp_all
  then show ?thesis
    using assms advance_append [of p x s] by (subst replaceRe.simps) (simp add: k)
qed

lemma replaceRe_skip:
  assumes "matchAt its p (c # s) = None"
  shows "replaceRe its repl p (c # s) = c # replaceRe its repl (Some c) s"
  using assms by (subst replaceRe.simps) simp

lemma replaceRe_Nil [simp]: "replaceRe its repl p [] = []"
  using matchAt_length [of its p "[]"] by (subst replaceRe.simps) (auto split: option.splits nat.splits)

lemma replaceRe_none: "findRe its p s = None \<Longrightarrow> replaceRe its repl p s = s"
proof (induction s arbitrary: p)
  case (Cons c s)
  then show ?case by (auto simp: replaceRe_skip split: option.splits)
qed simp

text \<open>Text before the first match is copied.\<close>

lemma replaceRe_find:
  assumes "findRe its p (x @ m @ s) = Some (length x, length m, ms)" "m \<noteq> []"
  shows "replaceRe its repl p (x @ m @ s) = x @ expand repl m @ replaceRe its repl (prevOf p m) s"
  using assms
proof (induction x arbitrary: p)
  case Nil
  then have "matchAt its p (m @ s) = Some (length m, ms)" using findRe_Some [of its p "[]" "m @ s" "(length m, ms)"] by simp
  with Nil.prems(2) show ?case by (simp add: replaceRe_step)
next
  case (Cons c x)
  have "prevOf p m = prevOf (Some c) m" using Cons.prems(2) by (simp add: prevOf_def)
  moreover have "matchAt its p (c # x @ m @ s) = None" "findRe its (Some c) (x @ m @ s) = Some (length x, length m, ms)"
    using Cons.prems by (auto split: option.splits)
  ultimately show ?case using Cons.IH [of "Some c"] Cons.prems(2) by (simp add: replaceRe_skip)
qed

text \<open>Expressions that begin with a literal and consist of literals and repetitions do not look behind.\<close>

fun noAnchor :: "item \<Rightarrow> bool" where
  "noAnchor (Lit _) = True" | "noAnchor (Rep _ _ _ _) = True" | "noAnchor (Opt _) = True" | "noAnchor Mark = True"
| "noAnchor EndText = True" | "noAnchor EndLine = True" | "noAnchor BeginText = False" | "noAnchor BeginLine = False"

lemma matchAt_noAnchor: "list_all noAnchor its \<Longrightarrow> matchAt its p s = matchAt its q s"
proof (induction its arbitrary: p q s)
  case (Cons it its)
  have "steps it p s = steps it q s" using Cons.prems by (cases it) auto
  moreover have "matchAt its (advance p s n) t = matchAt its (advance q s n) t" for n t
    using Cons.prems by (intro Cons.IH) simp
  ultimately show ?case by simp
qed simp

end
