(* ===== verification/Go_Base64.thy ===== *)
theory Go_Base64
  imports Go_Strings
begin

text \<open>
  The part of package \<open>encoding/base64\<close> that the boot proxy uses: \<open>StdEncoding\<close> with padding,
  \<open>EncodeToString\<close>, \<open>DecodeString\<close> on a text without line breaks, and the sequence of writes that the
  streaming encoder of \<open>NewEncoder\<close> sends to the writer below it. Byte sequences are texts.
\<close>

section \<open>Definitions\<close>

definition b64Char :: "nat \<Rightarrow> char" where
  "b64Char n = char_of (if n < 26 then 65 + n else if n < 52 then 71 + n else if n < 62 then n - 4
     else if n = 62 then 43 else 47)"

definition b64Val :: "char \<Rightarrow> nat option" where
  "b64Val c = (let n = code c in
     if 65 \<le> n \<and> n \<le> 90 then Some (n - 65)
     else if 97 \<le> n \<and> n \<le> 122 then Some (n - 71)
     else if 48 \<le> n \<and> n \<le> 57 then Some (n + 4)
     else if n = 43 then Some 62 else if n = 47 then Some 63 else None)"

definition pad :: char where "pad = CHR ''=''"

fun b64Encode :: "string \<Rightarrow> string" where
  "b64Encode [] = []"
| "b64Encode [a] = [b64Char (code a div 4), b64Char (code a mod 4 * 16), pad, pad]"
| "b64Encode [a, b] = [b64Char (code a div 4), b64Char (code a mod 4 * 16 + code b div 16),
     b64Char (code b mod 16 * 4), pad]"
| "b64Encode (a # b # c # s) = b64Char (code a div 4) # b64Char (code a mod 4 * 16 + code b div 16)
     # b64Char (code b mod 16 * 4 + code c div 64) # b64Char (code c mod 64) # b64Encode s"

text \<open>A last group may be padded; the bits that padding leaves over are not checked.\<close>

fun b64Decode :: "string \<Rightarrow> string option" where
  "b64Decode [] = Some []"
| "b64Decode (a # b # c # d # s) = (case (b64Val a, b64Val b) of
     (Some v, Some w) \<Rightarrow>
       (if s = [] \<and> d = pad then
          if c = pad then Some [char_of (v * 4 + w div 16)]
          else map_option (\<lambda>x. [char_of (v * 4 + w div 16), char_of (w mod 16 * 16 + x div 4)]) (b64Val c)
        else (case (b64Val c, b64Val d) of
          (Some x, Some y) \<Rightarrow> map_option (\<lambda>r. char_of (v * 4 + w div 16) # char_of (w mod 16 * 16 + x div 4)
              # char_of (x mod 4 * 64 + y) # r) (b64Decode s)
        | _ \<Rightarrow> None))
   | _ \<Rightarrow> None)"
| "b64Decode _ = None"

text \<open>
  The streaming encoder: \<open>Write\<close> encodes 768 bytes at a time, then the largest multiple of three that
  is left, and keeps the last one or two bytes for \<open>Close\<close>.
\<close>

function encoderWrites :: "string \<Rightarrow> string list" where
  "encoderWrites p =
     (if 3 \<le> length p then
        (let nn = (if length p < 768 then length p - length p mod 3 else 768)
         in b64Encode (take nn p) # encoderWrites (drop nn p))
      else if p = [] then [] else [b64Encode p])"
  by pat_completeness auto
termination
proof (relation "measure length")
  fix p :: string and nn
  assume "3 \<le> length p" "nn = (if length p < 768 then length p - length p mod 3 else 768)"
  moreover have "length p mod 3 < 3" by simp
  ultimately show "(drop nn p, p) \<in> measure length" by (cases "length p < 768") (simp_all add: diff_less)
qed simp

declare encoderWrites.simps [simp del]

section \<open>Decoding undoes encoding\<close>

lemma b64Val_b64Char: "n < 64 \<Longrightarrow> b64Val (b64Char n) = Some n"
  by (auto simp: b64Char_def b64Val_def Let_def)

lemma b64Char_not_pad: "n < 64 \<Longrightarrow> b64Char n \<noteq> pad"
  using b64Val_b64Char [of n] by (auto simp: pad_def b64Val_def code_def)

lemma char_of_code [simp]: "char_of (code c) = c"
  by (simp add: code_def)

lemma code_parts: "code c div 4 < 64" "code c div 16 < 16" "code c div 64 < 4"
  using code_less [of c] by (simp_all add: div_less_iff_less_mult)

lemma sextets:
  "code a div 4 < 64" "code a mod 4 * 16 < 64" "code a mod 4 * 16 + code b div 16 < 64"
  "code b mod 16 * 4 < 64" "code b mod 16 * 4 + code c div 64 < 64" "code c mod 64 < 64"
proof -
  have "code a mod 4 < 4" "code b mod 16 < 16" by simp_all
  then show "code a div 4 < 64" "code a mod 4 * 16 < 64" "code a mod 4 * 16 + code b div 16 < 64"
    "code b mod 16 * 4 < 64" "code b mod 16 * 4 + code c div 64 < 64" "code c mod 64 < 64"
    using code_parts(1) [of a] code_parts(2) [of b] code_parts(3) [of c] by (linarith | simp)+
qed

lemma octets:
  "code a div 4 * 4 + (code a mod 4 * 16 + code b div 16) div 16 = code a"
  "code a div 4 * 4 + (code a mod 4 * 16) div 16 = code a"
  "(code a mod 4 * 16 + code b div 16) mod 16 * 16 + (code b mod 16 * 4 + code c div 64) div 4 = code b"
  "(code a mod 4 * 16 + code b div 16) mod 16 * 16 + (code b mod 16 * 4) div 4 = code b"
  "(code b mod 16 * 4 + code c div 64) mod 4 * 64 + code c mod 64 = code c"
  using code_parts(2) [of b] code_parts(3) [of c] by (simp_all add: div_mult_mod_eq)

lemma b64_round_trip: "b64Decode (b64Encode s) = Some s"
proof (induction s rule: b64Encode.induct)
  case (4 a b c s)
  have "b64Char (code c mod 64) \<noteq> pad" by (intro b64Char_not_pad sextets)
  with 4 show ?case by (simp only: b64Encode.simps b64Decode.simps b64Val_b64Char sextets octets option.case prod.case option.map char_of_code simp_thms if_False)
qed (simp_all only: b64Encode.simps b64Decode.simps b64Val_b64Char b64Char_not_pad sextets octets option.case prod.case option.map char_of_code simp_thms if_True if_False)

lemma b64Encode_append: "length x mod 3 = 0 \<Longrightarrow> b64Encode (x @ y) = b64Encode x @ b64Encode y"
proof (induction x rule: b64Encode.induct)
  case (4 a b c s)
  then show ?case by (simp add: mod_Suc split: if_splits)
qed simp_all

lemma encoderWrites_concat: "concat (encoderWrites p) = b64Encode p"
proof (induction p rule: encoderWrites.induct)
  case (1 p)
  let ?nn = "if length p < 768 then length p - length p mod 3 else 768"
  show ?case
  proof (cases "3 \<le> length p")
    case True
    have "length (take ?nn p) = ?nn" "?nn mod 3 = 0" by (simp_all add: minus_mod_eq_mult_div)
    then have "length (take ?nn p) mod 3 = 0" by (simp only:)
    then have "b64Encode (take ?nn p) @ b64Encode (drop ?nn p) = b64Encode p"
      by (metis append_take_drop_id b64Encode_append)
    with 1 True show ?thesis by (subst encoderWrites.simps) (simp add: Let_def)
  qed (subst encoderWrites.simps, simp)
qed

text \<open>The alphabet: no line break and no blank is ever written.\<close>

definition b64Set :: "char \<Rightarrow> bool" where
  "b64Set c \<longleftrightarrow> b64Val c \<noteq> None \<or> c = pad"

lemma b64Encode_set: "list_all b64Set (b64Encode s)"
  by (induction s rule: b64Encode.induct) (simp_all add: b64Set_def b64Val_b64Char sextets)

lemma b64Set_not_space: "b64Set c \<Longrightarrow> \<not> isSpace c"
  by (auto simp: b64Set_def b64Val_def isSpace_def pad_def Let_def code_def split: if_splits)

end
