(* ===== verification/Rewriter.thy ===== *)
theory Rewriter
  imports Go_Regexp Go_Base64 Node_Types
begin

text \<open>
  The body rewriter of the boot proxy, after \<^verbatim>\<open>images/maas-boot-proxy/rewriter.go\<close>: rack URLs in a
  text are replaced by the base URL of the proxy, and a self-extracting shell archive is unpacked, rewritten
  file by file, packed again and its MD5 line updated. The packages \<open>compress/gzip\<close> and \<open>archive/tar\<close> are
  parameters (a record of functions); regular expressions, base64, MD5 and the line wrapping writer are modelled.
\<close>

section \<open>Expressions\<close>

definition hostChar :: "char \<Rightarrow> bool" where
  "hostChar c \<longleftrightarrow> \<not> isSpace c \<and> c \<notin> {CHR ''/'', CHR '':'', CHR 0x22, CHR 0x27, CHR 0x60}"

definition defaultRackURLRe :: "item list" where
  "defaultRackURLRe = [Lit ''http://'', Rep True hostChar 1 None, Lit '':5248'']"

definition quoteChar :: "char \<Rightarrow> bool" where
  "quoteChar c \<longleftrightarrow> c = CHR 0x27 \<or> c = CHR 0x22"

definition md5SumRe :: "item list" where
  "md5SumRe = [BeginLine, Lit ''MD5SUM='', Rep True quoteChar 1 (Some 1), Rep True isHex 32 (Some 32),
     Rep True quoteChar 1 (Some 1)]"

definition payloadMarker :: string where
  "payloadMarker = ''_____PAYLOAD_____''"

definition payloadMarkerRe :: "item list" where
  "payloadMarkerRe = [BeginLine, Lit payloadMarker, Opt [CHR 0x0D], EndLine]"

section \<open>Substitutions\<close>

definition applyRewrite :: "Rewrite \<Rightarrow> string \<Rightarrow> string" where
  "applyRewrite r data = (if From r \<noteq> [] then replaceAll data (From r) (To r) else data)"

definition applySubs :: "string \<Rightarrow> Rewrite list \<Rightarrow> string \<Rightarrow> string" where
  "applySubs baseURL rewrites data =
     fold applyRewrite rewrites (if baseURL \<noteq> [] then replaceAllRe defaultRackURLRe baseURL data else data)"

section \<open>The line wrapping writer\<close>

text \<open>
  A writer is a state with a function that appends a text to it or fails. A call of \<open>Write\<close> whose loop
  does not end has no value. The column and the width are Go integers; a negative slice bound panics.
\<close>

record 'w LineWrapWriter =
  underlying :: 'w
  lineLen :: int
  col :: int

partial_function (option) wrapLoop ::
  "('w \<Rightarrow> string \<Rightarrow> 'w outcome) \<Rightarrow> string \<Rightarrow> 'w LineWrapWriter \<Rightarrow> 'w LineWrapWriter outcome option" where
  "wrapLoop emit p l =
     (if p = [] then Some (Ok l)
      else if int (length p) < lineLen l - col l then
        Some (obind (emit (underlying l) p) (\<lambda>w. Ok (l\<lparr>underlying := w, col := col l + int (length p)\<rparr>)))
      else if lineLen l - col l < 0 then Some Panic
      else (case obind (emit (underlying l) (take (nat (lineLen l - col l)) p)) (\<lambda>w. emit w [newline]) of
          Panic \<Rightarrow> Some Panic
        | Err err \<Rightarrow> Some (Err err)
        | Ok w \<Rightarrow> wrapLoop emit (drop (nat (lineLen l - col l)) p) (l\<lparr>underlying := w, col := 0\<rparr>)))"

text \<open>\<open>Write\<close> returns the length of its argument, or 0 with the error of the writer below.\<close>

definition lineWrapWrite ::
  "('w \<Rightarrow> string \<Rightarrow> 'w outcome) \<Rightarrow> string \<Rightarrow> 'w LineWrapWriter \<Rightarrow> (nat \<times> 'w LineWrapWriter) outcome option" where
  "lineWrapWrite emit p l = map_option (\<lambda>r. obind r (\<lambda>l'. Ok (length p, l'))) (wrapLoop emit p l)"

text \<open>\<open>bytes.Buffer\<close>: writing appends and never fails. A sequence of writes stops at the first failure.\<close>

definition bufferWrite :: "string \<Rightarrow> string \<Rightarrow> string outcome" where
  "bufferWrite b p = Ok (b @ p)"

primrec wrapWrites ::
  "('w \<Rightarrow> string \<Rightarrow> 'w outcome) \<Rightarrow> string list \<Rightarrow> 'w LineWrapWriter \<Rightarrow> 'w LineWrapWriter outcome option" where
  "wrapWrites emit [] l = Some (Ok l)"
| "wrapWrites emit (p # ps) l = (case lineWrapWrite emit p l of
       None \<Rightarrow> None
     | Some Panic \<Rightarrow> Some Panic
     | Some (Err err) \<Rightarrow> Some (Err err)
     | Some (Ok (n, l')) \<Rightarrow> wrapWrites emit ps l')"

section \<open>Archives\<close>

text \<open>
  A tar header: its type, its size and everything else, which the code passes through. Reading an archive
  yields its entries up to the end of the stream, or up to a failure of \<open>Next\<close> or of copying the content.
\<close>

record 'm TarHeader =
  Typeflag :: char
  Size :: nat
  Meta :: 'm

type_synonym 'm entry = "'m TarHeader \<times> string"

datatype 'm TarEvent = Entry "'m TarHeader" string | NextErr | CopyErr "'m TarHeader"

text \<open>
  The functions of the packages: does \<open>gzip.NewReader\<close> accept the data; what does the tar reader deliver from
  it; does the tar writer, after the entries written so far, accept a header, and then its content; and the
  compressed archive, when closing both writers succeeds.
\<close>

record 'm archive =
  gzOpen :: "string \<Rightarrow> bool"
  tarEvents :: "string \<Rightarrow> 'm TarEvent list"
  headerOk :: "'m entry list \<Rightarrow> 'm TarHeader \<Rightarrow> bool"
  dataOk :: "'m entry list \<Rightarrow> 'm TarHeader \<Rightarrow> string \<Rightarrow> bool"
  finish :: "'m entry list \<Rightarrow> string option"

definition isRegular :: "'m TarHeader \<Rightarrow> bool" where
  "isRegular hdr \<longleftrightarrow> Typeflag hdr = CHR ''0'' \<or> Typeflag hdr = CHR 0x00"

text \<open>The loop over the entries; \<open>None\<close> is any of its early returns, which all fall back to plain text.\<close>

fun tarLoop :: "'m archive \<Rightarrow> (string \<Rightarrow> string) \<Rightarrow> 'm TarEvent list \<Rightarrow> 'm entry list \<Rightarrow> 'm entry list option" where
  "tarLoop lib subs [] written = Some written"
| "tarLoop lib subs (NextErr # evs) written = None"
| "tarLoop lib subs (CopyErr hdr # evs) written = None"
| "tarLoop lib subs (Entry hdr rawBytes # evs) written =
     (if isRegular hdr then
        (let newBytes = subs rawBytes; hdr' = hdr\<lparr>Size := length newBytes\<rparr> in
         if \<not> headerOk lib written hdr' then None
         else if \<not> dataOk lib written hdr' newBytes then None
         else tarLoop lib subs evs (written @ [(hdr', newBytes)]))
      else if \<not> headerOk lib written hdr then None
      else if length rawBytes > 0 \<and> \<not> dataOk lib written hdr rawBytes then None
      else tarLoop lib subs evs (written @ [(hdr, rawBytes)]))"

definition isBlank :: "char \<Rightarrow> bool" where
  "isBlank c \<longleftrightarrow> c \<in> {CHR '' '', CHR 0x09, CHR 0x0D, CHR 0x0A}"

definition b64Clean :: "string \<Rightarrow> string" where
  "b64Clean s = filter (\<lambda>c. \<not> isBlank c) s"

definition isGzip :: "string \<Rightarrow> bool" where
  "isGzip d \<longleftrightarrow> length d \<ge> 2 \<and> d ! 0 = CHR 0x1F \<and> d ! 1 = CHR 0x8B"

definition md5Line :: "string \<Rightarrow> string" where
  "md5Line gz = ''MD5SUM='' @ [CHR 0x27] @ hexEncode (md5 (bytes_of gz)) @ [CHR 0x27]"

definition rewriteHeader :: "(string \<Rightarrow> string) \<Rightarrow> string \<Rightarrow> string \<Rightarrow> string" where
  "rewriteHeader subs gz header = replaceAllRe md5SumRe (md5Line gz) (subs header)"

definition endLine :: "string \<Rightarrow> string" where
  "endLine s = (if s \<noteq> [] \<and> last s = newline then s else s @ [newline])"

definition encodeWrapped :: "string \<Rightarrow> string outcome option" where
  "encodeWrapped gz = map_option (\<lambda>r. obind r (\<lambda>l. Ok (underlying l)))
     (wrapWrites bufferWrite (encoderWrites gz) \<lparr>underlying = [], lineLen = 76, col = 0\<rparr>)"

definition assemble :: "string \<Rightarrow> string \<Rightarrow> string" where
  "assemble header b64 = endLine (endLine header @ payloadMarker @ [newline] @ b64)"

definition unpackPart :: "'m archive \<Rightarrow> (string \<Rightarrow> string) \<Rightarrow> string \<Rightarrow> string option" where
  "unpackPart lib subs rawPayload = (case b64Decode (b64Clean rawPayload) of
       None \<Rightarrow> None
     | Some decoded \<Rightarrow>
         if \<not> isGzip decoded then None
         else if \<not> gzOpen lib decoded then None
         else (case tarLoop lib subs (tarEvents lib decoded) [] of
             None \<Rightarrow> None
           | Some written \<Rightarrow> finish lib written))"

definition rewriteData :: "'m archive \<Rightarrow> string \<Rightarrow> string \<Rightarrow> Rewrite list \<Rightarrow> string outcome option" where
  "rewriteData lib input baseURL rewrites =
     (if input = [] then Some (Ok input)
      else (let subs = applySubs (trimRight (CHR ''/'') baseURL) rewrites in
        case findIndex payloadMarkerRe input of
          None \<Rightarrow> Some (Ok (subs input))
        | Some (i, j) \<Rightarrow> (case unpackPart lib subs (drop j input) of
            None \<Rightarrow> Some (Ok (subs input))
          | Some newGzBytes \<Rightarrow> (case encodeWrapped newGzBytes of
              None \<Rightarrow> None
            | Some Panic \<Rightarrow> Some Panic
            | Some (Err _) \<Rightarrow> Some (Ok (subs input))
            | Some (Ok b64) \<Rightarrow> Some (Ok (assemble (rewriteHeader subs newGzBytes (take i input)) b64))))))"

section \<open>A reader of rewritten archives\<close>

text \<open>After \<open>unpackPayload\<close> of \<^verbatim>\<open>rewriter_test.go\<close>: the header, the compressed data and the entries.\<close>

fun allEntries :: "'m TarEvent list \<Rightarrow> 'm entry list option" where
  "allEntries [] = Some []"
| "allEntries (Entry h d # evs) = map_option ((#) (h, d)) (allEntries evs)"
| "allEntries (_ # evs) = None"

definition unpackPayload :: "'m archive \<Rightarrow> string \<Rightarrow> (string \<times> string \<times> 'm entry list) option" where
  "unpackPayload lib b = (case findIndex payloadMarkerRe b of
       None \<Rightarrow> None
     | Some (i, j) \<Rightarrow> (case b64Decode (b64Clean (drop j b)) of
         None \<Rightarrow> None
       | Some gz \<Rightarrow> if \<not> gzOpen lib gz then None
           else map_option (\<lambda>es. (take i b, gz, es)) (allEntries (tarEvents lib gz))))"

section \<open>Lemmas on line wrapping\<close>

text \<open>The reference: a line break after every \<open>n\<close>-th character, counting from column \<open>c\<close>.\<close>

fun wrapText :: "nat \<Rightarrow> nat \<Rightarrow> string \<Rightarrow> string" where
  "wrapText n c [] = []"
| "wrapText n c (x # s) = x # (if c + 1 = n then newline # wrapText n 0 s else wrapText n (c + 1) s)"

lemma wrapText_short: "c + length s < n \<Longrightarrow> wrapText n c s = s"
  by (induction s arbitrary: c) auto

lemma wrapText_line: "c < n \<Longrightarrow> n \<le> c + length s \<Longrightarrow> wrapText n c s = take (n - c) s @ newline # wrapText n 0 (drop (n - c) s)"
proof (induction s arbitrary: c)
  case (Cons x s)
  show ?case
  proof (cases "c + 1 = n")
    case False
    with Cons.prems have "c + 1 < n" "n - c = Suc (n - (c + 1))" by auto
    with Cons.IH [of "c + 1"] Cons.prems(2) False show ?thesis by simp
  qed auto
qed simp

lemma wrapText_append: "c < n \<Longrightarrow> wrapText n c (s @ t) = wrapText n c s @ wrapText n ((c + length s) mod n) t"
proof (induction s arbitrary: c)
  case (Cons x s)
  show ?case
  proof (cases "c + 1 = n")
    case True
    then have "(c + length (x # s)) mod n = (n + length s) mod n" by (simp flip: True)
    with Cons.IH [of 0] Cons.prems True show ?thesis by simp
  next
    case False
    with Cons.IH [of "c + 1"] Cons.prems show ?thesis by simp
  qed
qed simp

lemma wrapText_filter: "newline \<notin> set s \<Longrightarrow> filter (\<lambda>c. c \<noteq> newline) (wrapText n c s) = s"
  by (induction s arbitrary: c) auto

lemma wrapText_set: "set (wrapText n c s) \<subseteq> insert newline (set s)"
  by (induction s arbitrary: c) (auto split: if_splits)

lemma wrapText_lines:
  assumes "newline \<notin> set s" "c < n"
  shows "length (hd (splitOn newline (wrapText n c s))) \<le> n - c \<and> list_all (\<lambda>l. length l \<le> n) (splitOn newline (wrapText n c s))"
  using assms
proof (induction s arbitrary: c)
  case (Cons x s)
  show ?case
  proof (cases "c + 1 = n")
    case True
    with Cons.IH [of 0] Cons.prems show ?thesis by auto
  next
    case False
    with Cons.prems Cons.IH [of "c + 1"] show ?thesis
      by (cases "splitOn newline (wrapText n (c + 1) s)") auto
  qed
qed simp

lemma wrapLoop_buffer:
  assumes "c < n"
  shows "wrapLoop bufferWrite p \<lparr>underlying = w, lineLen = int n, col = int c\<rparr> =
    Some (Ok \<lparr>underlying = w @ wrapText n c p, lineLen = int n, col = int ((c + length p) mod n)\<rparr>)"
  using assms
proof (induction p arbitrary: w c rule: length_induct)
  case (1 p)
  have remain: "nat (int n - int c) = n - c" by simp
  consider "p = []" | "p \<noteq> []" "length p < n - c" | "n - c \<le> length p" by linarith
  then show ?case
  proof cases
    case 1
    with \<open>c < n\<close> show ?thesis by (simp add: wrapLoop.simps)
  next
    case 2
    then have "int (length p) < int n - int c" using \<open>c < n\<close> by linarith
    with 2 show ?thesis by (subst wrapLoop.simps) (simp add: bufferWrite_def wrapText_short)
  next
    case 3
    let ?q = "drop (n - c) p"
    have "length ?q < length p" "p \<noteq> []" using 3 \<open>c < n\<close> by auto
    then have "wrapLoop bufferWrite ?q \<lparr>underlying = w @ take (n - c) p @ [newline], lineLen = int n, col = 0\<rparr> =
      Some (Ok \<lparr>underlying = (w @ take (n - c) p @ [newline]) @ wrapText n 0 ?q, lineLen = int n, col = int (length ?q mod n)\<rparr>)"
      using "1.IH" [rule_format, of ?q 0] \<open>c < n\<close> by simp
    moreover have "(c + length p) mod n = length ?q mod n"
      using 3 \<open>c < n\<close> mod_add_self1 [of n "length ?q"] by (simp add: add.commute)
    moreover have "\<not> int (length p) < int n - int c" using 3 \<open>c < n\<close> by linarith
    ultimately show ?thesis
      using 3 \<open>c < n\<close> \<open>p \<noteq> []\<close> wrapText_line [of c n p]
      by (subst wrapLoop.simps) (simp add: bufferWrite_def remain)
  qed
qed

lemma wrapWrites_buffer:
  assumes "c < n"
  shows "wrapWrites bufferWrite ps \<lparr>underlying = w, lineLen = int n, col = int c\<rparr> =
    Some (Ok \<lparr>underlying = w @ wrapText n c (concat ps), lineLen = int n, col = int ((c + length (concat ps)) mod n)\<rparr>)"
  using assms
proof (induction ps arbitrary: w c)
  case (Cons p ps)
  have "(c + length p) mod n < n" using Cons.prems by simp
  from Cons.IH [OF this, of "w @ wrapText n c p"] show ?case
    using Cons.prems by (simp add: lineWrapWrite_def wrapLoop_buffer wrapText_append mod_add_left_eq add.assoc)
qed simp

lemma encodeWrapped_eq: "encodeWrapped gz = Some (Ok (wrapText 76 0 (b64Encode gz)))"
  using wrapWrites_buffer [of 0 76 "encoderWrites gz" "[]"] by (simp add: encodeWrapped_def encoderWrites_concat)

text \<open>The loop ends for every writer below it that does not panic, as long as the column is inside the line.\<close>

definition colInv :: "'w LineWrapWriter \<Rightarrow> bool" where
  "colInv l \<longleftrightarrow> 0 \<le> col l \<and> col l < lineLen l"

lemma obind_Panic_iff: "obind r f = Panic \<longleftrightarrow> r = Panic \<or> (\<exists>x. r = Ok x \<and> f x = Panic)"
  by (cases r) auto

lemma wrapLoop_ends:
  assumes "\<And>w s. emit w s \<noteq> Panic" "colInv l"
  shows "\<exists>r. wrapLoop emit p l = Some r \<and> r \<noteq> Panic \<and> (\<forall>l'. r = Ok l' \<longrightarrow> colInv l')"
  using assms(2)
proof (induction p arbitrary: l rule: length_induct)
  case (1 p)
  let ?k = "nat (lineLen l - col l)"
  show ?case
  proof (cases "p = [] \<or> int (length p) < lineLen l - col l")
    case True
    then show ?thesis
      using "1.prems" assms(1) by (subst wrapLoop.simps) (auto simp: colInv_def obind_Ok_iff obind_Panic_iff)
  next
    case False
    with "1.prems" have "length (drop ?k p) < length p" by (auto simp: colInv_def)
    then have rec: "\<exists>r. wrapLoop emit (drop ?k p) (l\<lparr>underlying := w, col := 0\<rparr>) = Some r \<and> r \<noteq> Panic
        \<and> (\<forall>l'. r = Ok l' \<longrightarrow> colInv l')" for w
      using "1.prems" by (intro "1.IH" [rule_format]) (auto simp: colInv_def)
    have "obind (emit (underlying l) (take ?k p)) (\<lambda>w. emit w [newline]) \<noteq> Panic"
      using assms(1) by (simp add: obind_Panic_iff)
    with False "1.prems" rec show ?thesis
      by (subst wrapLoop.simps) (auto simp: colInv_def split: outcome.splits)
  qed
qed

section \<open>Lemmas on rack URLs\<close>

text \<open>The host of a match is always the whole run of host characters: a colon is not one of them.\<close>

lemma rackMatch:
  "matchAt defaultRackURLRe p (''http://'' @ t) =
    (let h = takeWhile hostChar t in
     if h \<noteq> [] \<and> hasPrefix (drop (length h) t) '':5248'' then Some (12 + length h, []) else None)"
proof -
  let ?n = "length (takeWhile hostChar t)"
  let ?f = "\<lambda>k. if hasPrefix (drop k t) '':5248'' then Some (k + 5, [] :: nat list) else None"
  have f: "?f k = None" if "k < ?n" for k
  proof -
    have "t ! k = takeWhile hostChar t ! k" using that by (simp add: takeWhile_nth)
    then have "hostChar (t ! k)" using set_takeWhileD [OF nth_mem [OF that]] by simp
    moreover have "k < length t" using that length_takeWhile_le [of hostChar t] by linarith
    ultimately show ?thesis by (auto simp: hasPrefix_def hostChar_def Cons_nth_drop_Suc [symmetric])
  qed
  have "matchAt defaultRackURLRe p (''http://'' @ t) =
      map_option (\<lambda>(e, ms). (7 + e, map ((+) 7) ms)) (firstSome ?f (rev [1 ..< Suc ?n]))"
    unfolding defaultRackURLRe_def matchAt_Lit matchAt_greedy matchAt_Lit_last
    by (simp add: repLen_def if_distrib [of "map_option _"] eval_nat_numeral cong: if_cong del: upt_Suc)
  also have "firstSome ?f (rev [1 ..< Suc ?n]) = (if ?n = 0 then None else ?f ?n)"
  proof (cases "?n = 0")
    case False
    then have "1 \<le> ?n" by linarith
    then have "rev [1 ..< Suc ?n] = ?n # rev [1 ..< ?n]" by simp
    moreover have "firstSome ?f (rev [1 ..< ?n]) = None" using f by (auto simp: firstSome_eq_None)
    ultimately show ?thesis using False by (simp del: upt_Suc split: option.splits)
  qed simp
  finally show ?thesis by (simp add: Let_def)
qed

definition rackURL :: "string \<Rightarrow> string" where
  "rackURL h = ''http://'' @ h @ '':5248''"

definition isRack :: "string \<Rightarrow> bool" where
  "isRack u \<longleftrightarrow> (\<exists>h. u = rackURL h \<and> h \<noteq> [] \<and> list_all hostChar h)"

lemma not_hostChar_colon [simp]: "\<not> hostChar (CHR '':'')"
  by (simp add: hostChar_def)

lemma rackMatch_url:
  assumes "isRack u"
  shows "matchAt defaultRackURLRe p (u @ s) = Some (length u, [])"
proof -
  obtain h where h: "u = rackURL h" "h \<noteq> []" "list_all hostChar h" using assms by (auto simp: isRack_def)
  then have "takeWhile hostChar (h @ '':5248'' @ s) = h"
    by (subst takeWhile_append2) (auto simp: list_all_iff)
  then show ?thesis
    using rackMatch [of p "h @ '':5248'' @ s"] h(2) by (simp add: h(1) rackURL_def hasPrefix_def)
qed

lemma rackMatch_Some:
  assumes "matchAt defaultRackURLRe p s = Some (e, ms)"
  shows "\<exists>u r. s = u @ r \<and> isRack u \<and> e = length u \<and> ms = []"
proof -
  have "hasPrefix s ''http://''"
    using assms by (rule contrapos_pp) (simp add: defaultRackURLRe_def)
  then obtain t where t: "s = ''http://'' @ t" by (auto simp: hasPrefix_conv)
  let ?h = "takeWhile hostChar t"
  have "?h \<noteq> []" "hasPrefix (drop (length ?h) t) '':5248''" and e: "e = 12 + length ?h" "ms = []"
    using assms unfolding t rackMatch by (auto simp: Let_def split: if_splits)
  then obtain r where "drop (length ?h) t = '':5248'' @ r" by (auto simp: hasPrefix_conv)
  moreover have "drop (length ?h) t = dropWhile hostChar t" by (simp add: dropWhile_eq_drop)
  ultimately have "s = rackURL ?h @ r"
    unfolding t rackURL_def by (metis append.assoc takeWhile_dropWhile_id)
  moreover have "isRack (rackURL ?h)"
    using \<open>?h \<noteq> []\<close> set_takeWhileD [of _ hostChar t] by (auto simp: isRack_def list_all_iff)
  ultimately show ?thesis using e by (intro exI [of _ "rackURL ?h"] exI [of _ r]) (simp add: rackURL_def)
qed

lemma rackMatch_None: "matchAt defaultRackURLRe p s = None \<longleftrightarrow> (\<nexists>u r. s = u @ r \<and> isRack u)"
proof
  assume "matchAt defaultRackURLRe p s = None"
  then show "\<nexists>u r. s = u @ r \<and> isRack u" using rackMatch_url by fastforce
next
  assume none: "\<nexists>u r. s = u @ r \<and> isRack u"
  show "matchAt defaultRackURLRe p s = None"
  proof (rule ccontr)
    assume "matchAt defaultRackURLRe p s \<noteq> None"
    then obtain e ms where "matchAt defaultRackURLRe p s = Some (e, ms)" by auto
    with none rackMatch_Some show False by blast
  qed
qed

text \<open>Where a text has rack URLs: none starts at any position of it.\<close>

definition rackFree :: "string \<Rightarrow> bool" where
  "rackFree s \<longleftrightarrow> (\<nexists>x u r. s = x @ u @ r \<and> isRack u)"

lemma rackFree_find: "findRe defaultRackURLRe p s = None \<longleftrightarrow> rackFree s"
  unfolding findRe_None rackMatch_None rackFree_def by auto

text \<open>Replacing the rack URLs, by recursion over the text.\<close>

lemma rack_replace_cases:
  obtains (url) u r where "s = u @ r" "isRack u" "replaceRe defaultRackURLRe base p s = expand base u @ replaceRe defaultRackURLRe base (prevOf p u) r"
  | (char) c r where "s = c # r" "\<nexists>u t. s = u @ t \<and> isRack u" "replaceRe defaultRackURLRe base p s = c # replaceRe defaultRackURLRe base (Some c) r"
  | (empty) "s = []"
proof (cases "matchAt defaultRackURLRe p s")
  case None
  then show thesis
    using replaceRe_skip [of defaultRackURLRe p] empty char rackMatch_None [of p s] by (cases s) auto
next
  case (Some m)
  then obtain u r where u: "s = u @ r" "isRack u" "m = (length u, [])"
    using rackMatch_Some [of p s "fst m" "snd m"] by (auto simp: prod_eq_iff)
  moreover have "u \<noteq> []" using u(2) by (auto simp: isRack_def rackURL_def)
  ultimately show thesis using Some by (intro url [OF u(1,2)]) (simp add: replaceRe_step)
qed

text \<open>A text that can be continued so that a rack URL starts with it.\<close>

definition partialRack :: "string \<Rightarrow> bool" where
  "partialRack t \<longleftrightarrow> hasPrefix ''http://'' t \<or> (hasPrefix t ''http://'' \<and>
     (let h = takeWhile hostChar (drop 7 t); q = dropWhile hostChar (drop 7 t)
      in q = [] \<or> h \<noteq> [] \<and> (hasPrefix '':5248'' q \<or> hasPrefix q '':5248'')))"

text \<open>A base URL that starts a URL of its own and no end of which can become part of a rack URL.\<close>

definition plainBase :: "string \<Rightarrow> bool" where
  "plainBase b \<longleftrightarrow> (hasPrefix b ''http://'' \<or> hasPrefix b ''https://'') \<and> CHR ''$'' \<notin> set b
     \<and> list_all (\<lambda>i. \<not> partialRack (drop i b)) [0 ..< length b]"

lemma partialRack:
  assumes "t @ v = u @ r" "isRack u"
  shows "partialRack t"
proof -
  obtain h where u: "u = ''http://'' @ h @ '':5248''" and h: "h \<noteq> []" "list_all hostChar h"
    using assms(2) by (auto simp: isRack_def rackURL_def)
  have "t @ v = ''http://'' @ h @ '':5248'' @ r" using assms(1) by (simp add: u)
  then show ?thesis
  proof (cases rule: append_split)
    case (inside k)
    then show ?thesis by (simp only: partialRack_def hasPrefix_append simp_thms)
  next
    case (after t')
    have drop: "drop 7 t = t'" "hasPrefix t ''http://''" by (simp_all add: after(1) hasPrefix_def)
    from after(3) show ?thesis
    proof (cases rule: append_split)
      case (inside k)
      then have "dropWhile hostChar t' = []" using h(2) by (simp add: list_all_iff)
      with drop show ?thesis by (simp add: partialRack_def)
    next
      case port: (after t'')
      then have "hd t'' = CHR '':''" by (cases t'') auto
      then have "takeWhile hostChar t'' = []" "dropWhile hostChar t'' = t''" using port(2) by (cases t''; simp)+
      then have "takeWhile hostChar t' = h" "dropWhile hostChar t' = t''"
        using h(2) unfolding port(1) by (simp_all add: list_all_iff takeWhile_append2 dropWhile_append2)
      moreover have "hasPrefix '':5248'' t'' \<or> hasPrefix t'' '':5248''"
        using port(3) by (cases rule: append_split) (simp_all only: hasPrefix_append simp_thms)
      ultimately show ?thesis using drop h(1) by (simp add: partialRack_def)
    qed
  qed
qed

lemma rackFree_Cons: "rackFree (c # s) \<longleftrightarrow> rackFree s \<and> (\<nexists>u r. c # s = u @ r \<and> isRack u)"
  unfolding rackFree_def by (auto simp: Cons_eq_append_conv) blast+

lemma rackFree_append:
  assumes "\<And>x t. b = x @ t \<Longrightarrow> t \<noteq> [] \<Longrightarrow> \<not> partialRack t" "rackFree s"
  shows "rackFree (b @ s)"
  using assms
proof (induction b)
  case (Cons c b)
  have "\<not> partialRack (c # b)" using Cons.prems(1) [of "[]" "c # b"] by simp
  then have "\<nexists>u r. c # b @ s = u @ r \<and> isRack u" using partialRack [of "c # b" s] by auto
  moreover have "rackFree (b @ s)"
    using Cons.prems(1) [of "c # _"] Cons.prems(2) by (intro Cons.IH) simp_all
  ultimately show ?case by (simp add: rackFree_Cons)
qed simp

text \<open>No rack URL that began earlier continues with a URL scheme.\<close>

lemma rack_tail_no_scheme:
  assumes "isRack (w @ v)" "w \<noteq> []" "v \<noteq> []"
  shows "\<not> hasPrefix (v @ r) ''http://''" "\<not> hasPrefix (v @ r) ''https://''"
proof -
  obtain h where e: "w @ v = ''http://'' @ h @ '':5248''" and h: "list_all hostChar h"
    using assms(1) by (auto simp: isRack_def rackURL_def)
  have port: "hasPrefix (dropWhile hostChar ((k @ '':5248'') @ r)) '':5''" if "list_all hostChar k" for k
    using that by (simp add: list_all_iff dropWhile_append2 hasPrefix_def)
  have inside_tail: "hd k \<in> set (tl t)" if "t = w @ k" "w \<noteq> []" "k \<noteq> []" for t w k :: string
    using that by (cases w) auto
  have tail: "takeWhile hostChar (v @ r) \<noteq> ''http'' \<and> takeWhile hostChar (v @ r) \<noteq> ''https''
      \<or> hasPrefix (dropWhile hostChar (v @ r)) '':5''"
    using e
  proof (cases rule: append_split)
    case (inside k)
    show ?thesis
    proof (cases "k = []")
      case True
      then show ?thesis using inside(2) h port [of h] by simp
    next
      case False
      then have "hd v = hd k" using inside(2) by simp
      then have "hd v \<noteq> CHR ''h''"
        using inside_tail [OF inside(1) assms(2) False] by auto
      then show ?thesis using assms(3) by (cases v) auto
    qed
  next
    case (after w')
    from after(3) show ?thesis
    proof (cases rule: append_split)
      case (inside k)
      then show ?thesis using port [of k] h by simp
    next
      case (after w'')
      then have "hd v \<noteq> CHR ''h''"
        using inside_tail [of "'':5248''" w'' v] assms(3) by auto
      then show ?thesis using assms(3) by (cases v) auto
    qed
  qed
  have 1: "hasPrefix x ''http://'' \<Longrightarrow> takeWhile hostChar x = ''http'' \<and> \<not> hasPrefix (dropWhile hostChar x) '':5''"
    and 2: "hasPrefix x ''https://'' \<Longrightarrow> takeWhile hostChar x = ''https'' \<and> \<not> hasPrefix (dropWhile hostChar x) '':5''" for x
    by (auto simp: hasPrefix_conv hostChar_def isSpace_def code_def)
  show "\<not> hasPrefix (v @ r) ''http://''" "\<not> hasPrefix (v @ r) ''https://''"
    using tail 1 [of "v @ r"] 2 [of "v @ r"] by auto
qed

lemma rack_replace_front:
  assumes "plainBase base" "w \<noteq> []" "w @ replaceRe defaultRackURLRe base p s = u @ r" "isRack u"
  shows "\<exists>r'. w @ s = u @ r'"
  using assms(2,3)
proof (induction s arbitrary: w p rule: length_induct)
  case (1 s)
  show ?case
  proof (cases rule: rack_replace_cases [of s base p])
    case (url v s')
    have "expand base v = base" using assms(1) by (intro expand_plain) (simp add: plainBase_def)
    with url "1.prems"(2) have "w @ base @ replaceRe defaultRackURLRe base (prevOf p v) s' = u @ r" by simp
    then show ?thesis
    proof (cases rule: append_split)
      case (inside k)
      have "k = []"
      proof (rule ccontr)
        assume "k \<noteq> []"
        then have "\<not> hasPrefix (k @ r) ''http://''" "\<not> hasPrefix (k @ r) ''https://''"
          using rack_tail_no_scheme [of w k] assms(4) "1.prems"(1) unfolding inside(1) by auto
        then show False
          using assms(1) unfolding inside(2) [symmetric] plainBase_def hasPrefix_conv by auto
      qed
      then show ?thesis using inside(1) by auto
    next
      case (after w')
      then show ?thesis by auto
    qed
  next
    case (char c s')
    then have "(w @ [c]) @ replaceRe defaultRackURLRe base (Some c) s' = u @ r" using "1.prems"(2) by simp
    moreover have "length s' < length s" using char(1) by simp
    ultimately have "\<exists>r'. (w @ [c]) @ s' = u @ r'" using "1.IH" by blast
    then show ?thesis by (simp add: char(1))
  next
    case empty
    then show ?thesis using "1.prems" by simp
  qed
qed

lemma rack_replace_free:
  assumes "plainBase base"
  shows "rackFree (replaceRe defaultRackURLRe base p s)"
proof (induction s arbitrary: p rule: length_induct)
  case (1 s)
  show ?case
  proof (cases rule: rack_replace_cases [of s base p])
    case (url v s')
    have "expand base v = base" using assms by (intro expand_plain) (simp add: plainBase_def)
    moreover have "\<not> partialRack t" if "base = x @ t" "t \<noteq> []" for x t
    proof -
      have "length x < length base" "t = drop (length x) base" using that by auto
      with assms show ?thesis by (simp add: plainBase_def list_all_iff)
    qed
    moreover have "length s' < length s" using url(1,2) by (auto simp: isRack_def rackURL_def)
    ultimately show ?thesis using "1.IH" url(3) by (simp add: rackFree_append)
  next
    case (char c s')
    let ?o = "replaceRe defaultRackURLRe base (Some c) s'"
    have "rackFree ?o" using "1.IH" char(1) by simp
    moreover have "\<nexists>u r. c # ?o = u @ r \<and> isRack u"
      using rack_replace_front [OF assms, of "[c]" "Some c" s'] char(1,2) by auto
    ultimately show ?thesis by (simp add: char(3) rackFree_Cons)
  next
    case empty
    then show ?thesis by (auto simp: rackFree_def isRack_def rackURL_def)
  qed
qed

text \<open>What is replaced: rack URLs, separated by texts without any, by the base; nothing else changes.\<close>

lemma rack_replace_parts:
  assumes "CHR ''$'' \<notin> set base"
  shows "\<exists>ps tail. s = concat (map (\<lambda>(gap, url). gap @ url) ps) @ tail
    \<and> replaceRe defaultRackURLRe base p s = concat (map (\<lambda>(gap, url). gap @ base) ps) @ tail
    \<and> (\<forall>(gap, url) \<in> set ps. rackFree gap \<and> isRack url) \<and> rackFree tail"
proof (induction s arbitrary: p rule: length_induct)
  case (1 s)
  show ?case
  proof (cases rule: rack_replace_cases [of s base p])
    case (url v s')
    have free: "rackFree []" by (auto simp: rackFree_def isRack_def rackURL_def)
    have "length s' < length s" using url(1,2) by (auto simp: isRack_def rackURL_def)
    then obtain ps tail where "s' = concat (map (\<lambda>(gap, url). gap @ url) ps) @ tail"
      "replaceRe defaultRackURLRe base (prevOf p v) s' = concat (map (\<lambda>(gap, url). gap @ base) ps) @ tail"
      "\<forall>(gap, url) \<in> set ps. rackFree gap \<and> isRack url" "rackFree tail"
      using "1.IH" by blast
    with url free assms show ?thesis
      by (intro exI [of _ "([], v) # ps"] exI [of _ tail]) (simp add: expand_plain)
  next
    case (char c s')
    obtain ps tail where parts: "s' = concat (map (\<lambda>(gap, url). gap @ url) ps) @ tail"
      "replaceRe defaultRackURLRe base (Some c) s' = concat (map (\<lambda>(gap, url). gap @ base) ps) @ tail"
      "\<forall>(gap, url) \<in> set ps. rackFree gap \<and> isRack url" "rackFree tail"
      using "1.IH" char(1) by (metis length_Cons lessI)
    have no: "\<nexists>u r. c # s' = u @ r \<and> isRack u" using char(1,2) by simp
    show ?thesis
    proof (cases ps)
      case Nil
      have "rackFree (c # tail)" using parts(1,4) no Nil by (simp add: rackFree_Cons)
      with Nil parts char show ?thesis by (intro exI [of _ "[]"] exI [of _ "c # tail"]) simp
    next
      case (Cons gu ps')
      obtain gap url where gu: "gu = (gap, url)" by (cases gu)
      have "c # s' = (c # gap) @ url @ concat (map (\<lambda>(gap, url). gap @ url) ps') @ tail"
        by (simp add: parts(1) Cons gu)
      then have "\<nexists>u r. c # gap = u @ r \<and> isRack u" using no by (metis append.assoc)
      then have "rackFree (c # gap)" using parts(3) by (simp add: rackFree_Cons Cons gu)
      with Cons gu parts char show ?thesis
        by (intro exI [of _ "(c # gap, url) # ps'"] exI [of _ tail]) simp
    qed
  next
    case empty
    then show ?thesis
      by (intro exI [of _ "[]"] exI [of _ "[]"]) (auto simp: rackFree_def isRack_def rackURL_def)
  qed
qed

section \<open>Lemmas on the payload marker\<close>

lemma newline_marker [simp]: "newline \<notin> set payloadMarker" "payloadMarker \<noteq> []" "length payloadMarker = 17"
  "newline \<noteq> CHR 0x0D" "CHR 0x0D \<noteq> newline"
  by (simp_all add: payloadMarker_def newline_def)

definition lineStart :: "char option \<Rightarrow> bool" where
  "lineStart p \<longleftrightarrow> p = None \<or> p = Some newline"

lemma endLine_match: "matchAt [EndLine] p s = (if s = [] \<or> hd s = newline then Some (0, []) else None)"
  by (simp add: isMark_def)

lemma marker_end:
  "matchAt [Opt [CHR 0x0D], EndLine] p s =
    (if s \<noteq> [] \<and> hd s = CHR 0x0D \<and> (tl s = [] \<or> hd (tl s) = newline) then Some (1, [])
     else if s = [] \<or> hd s = newline then Some (0, []) else None)"
  by (cases s) (auto simp: isMark_def hasPrefix_def)

lemma marker_match:
  "matchAt payloadMarkerRe p s = Some (e, ms) \<longleftrightarrow>
    ms = [] \<and> lineStart p \<and> (\<exists>r. (r = [] \<or> hd r = newline) \<and>
      (s = payloadMarker @ r \<and> e = 17 \<or> s = payloadMarker @ CHR 0x0D # r \<and> e = 18))"
proof (cases "lineStart p \<and> hasPrefix s payloadMarker")
  case True
  then obtain t where t: "s = payloadMarker @ t" by (auto simp: hasPrefix_conv)
  have "matchAt payloadMarkerRe p s = map_option (\<lambda>(e, ms). (17 + e, map ((+) 17) ms))
      (matchAt [Opt [CHR 0x0D], EndLine] (prevOf p payloadMarker) t)"
    using True unfolding t payloadMarkerRe_def lineStart_def by (simp only: matchAt_BeginLine matchAt_Lit newline_marker if_True)
  then show ?thesis using True unfolding t marker_end by (cases t) (auto split: if_splits)
next
  case False
  then have "matchAt payloadMarkerRe p s = None"
    unfolding payloadMarkerRe_def matchAt_BeginLine lineStart_def by (auto simp: matchAt_Lit_None)
  with False show ?thesis by (auto simp: hasPrefix_conv)
qed

text \<open>A match inside complete lines does not depend on what follows them.\<close>

lemma marker_local:
  assumes "z \<noteq> []" "last z = newline" "matchAt payloadMarkerRe p z = None"
  shows "matchAt payloadMarkerRe p (z @ r) = None"
proof (rule ccontr)
  assume "matchAt payloadMarkerRe p (z @ r) \<noteq> None"
  then obtain e ms where "matchAt payloadMarkerRe p (z @ r) = Some (e, ms)" by auto
  then obtain cr t where p: "lineStart p" and t: "z @ r = (payloadMarker @ cr) @ t" "cr = [] \<or> cr = [CHR 0x0D]" "t = [] \<or> hd t = newline"
    unfolding marker_match by (metis append.right_neutral append.assoc append_Cons append_Nil)
  have nl: "newline \<notin> set (payloadMarker @ cr)" using t(2) by auto
  from t(1) show False
  proof (cases rule: append_split)
    case (inside k)
    with nl assms(1,2) show False using last_in_set [of z] by auto
  next
    case (after z')
    then have "hd z' = newline" using t(3) by auto
    with p after(1) t(2) have "matchAt payloadMarkerRe p z = Some (17, []) \<or> matchAt payloadMarkerRe p z = Some (18, [])"
      unfolding marker_match by auto
    with assms(3) show False by auto
  qed
qed

lemma marker_found:
  assumes "h \<noteq> []" "last h = newline" "\<not> matchRe payloadMarkerRe h"
  shows "findIndex payloadMarkerRe (h @ payloadMarker @ newline # r) = Some (length h, length h + 17)"
proof -
  have "matchAt payloadMarkerRe (prevOf None h) (payloadMarker @ newline # r) = Some (17, [])"
    using assms(1,2) unfolding marker_match by (auto simp: lineStart_def prevOf_def)
  moreover have "matchAt payloadMarkerRe (prevOf None y) (z @ payloadMarker @ newline # r) = None" if "h = y @ z" "z \<noteq> []" for y z
    using assms(2,3) that by (intro marker_local) (simp_all add: matchRe_def findRe_None del: not_None_eq)
  ultimately have "findRe payloadMarkerRe None (h @ payloadMarker @ newline # r) = Some (length h, 17, [])"
    unfolding findRe_Some by auto
  then show ?thesis by (simp add: findIndex_def)
qed

section \<open>Lemmas on archives\<close>

definition rewriteEntry :: "(string \<Rightarrow> string) \<Rightarrow> 'm entry \<Rightarrow> 'm entry" where
  "rewriteEntry subs = (\<lambda>(hdr, d). if isRegular hdr then (hdr\<lparr>Size := length (subs d)\<rparr>, subs d) else (hdr, d))"

text \<open>The tar writer accepts the entries one after the other.\<close>

fun writable :: "'m archive \<Rightarrow> 'm entry list \<Rightarrow> 'm entry list \<Rightarrow> bool" where
  "writable lib written [] = True"
| "writable lib written ((hdr, d) # es) =
     (headerOk lib written hdr \<and> dataOk lib written hdr d \<and> writable lib (written @ [(hdr, d)]) es)"

lemma tarLoop_entries:
  "allEntries evs = Some es \<Longrightarrow> writable lib written (map (rewriteEntry subs) es) \<Longrightarrow>
   tarLoop lib subs evs written = Some (written @ map (rewriteEntry subs) es)"
proof (induction evs arbitrary: es written rule: allEntries.induct)
  case (2 h d evs)
  then obtain es' where es: "es = (h, d) # es'" "allEntries evs = Some es'" by auto
  then show ?case
    using "2.prems" "2.IH" [OF es(2), of "written @ [rewriteEntry subs (h, d)]"]
    by (cases "isRegular h") (simp_all add: rewriteEntry_def Let_def)
qed simp_all

lemma b64Clean_wrapText:
  assumes "list_all b64Set s"
  shows "b64Clean (wrapText n c s) = s"
proof -
  have "\<not> isBlank x" if "x \<in> set s" for x
    using assms that b64Set_not_space [of x] by (auto simp: list_all_iff isBlank_def isSpace_def code_def)
  moreover have "isBlank newline" by (simp add: isBlank_def newline_def)
  ultimately have "b64Clean (wrapText n c t) = t" if "set t \<subseteq> set s" for t c
    using that by (induction t arbitrary: c) (auto simp: b64Clean_def)
  then show ?thesis by simp
qed

lemma endLine_last: "endLine s \<noteq> []" "last (endLine s) = newline"
  by (auto simp: endLine_def)

lemma endLine_Nil: "endLine s = s \<or> endLine s = s @ [newline]"
  by (auto simp: endLine_def)

lemma rewriteData_archive:
  assumes "unpackPayload lib input = Some (header, gz0, es)" "isGzip gz0"
    and "writable lib [] (map (rewriteEntry (applySubs (trimRight (CHR ''/'') base) rewrites)) es)"
    and "finish lib (map (rewriteEntry (applySubs (trimRight (CHR ''/'') base) rewrites)) es) = Some gz"
  shows "rewriteData lib input base rewrites = Some (Ok (assemble
      (rewriteHeader (applySubs (trimRight (CHR ''/'') base) rewrites) gz header) (wrapText 76 0 (b64Encode gz))))"
proof -
  let ?subs = "applySubs (trimRight (CHR ''/'') base) rewrites"
  obtain i j where ij: "findIndex payloadMarkerRe input = Some (i, j)" "header = take i input"
    and dec: "b64Decode (b64Clean (drop j input)) = Some gz0" "gzOpen lib gz0" "allEntries (tarEvents lib gz0) = Some es"
    using assms(1) by (auto simp: unpackPayload_def split: option.splits if_splits)
  have "findIndex payloadMarkerRe [] = None"
    using marker_match [of None "[]"] by (cases "matchAt payloadMarkerRe None []") (auto simp: findIndex_def)
  with ij(1) have "input \<noteq> []" by auto
  moreover have "unpackPart lib ?subs (drop j input) = Some gz"
    using dec assms(2,4) tarLoop_entries [OF dec(3) assms(3)] by (simp add: unpackPart_def)
  ultimately show ?thesis using ij by (simp add: rewriteData_def Let_def encodeWrapped_eq)
qed

lemma rewriteData_Ok: "\<exists>out. rewriteData lib input base rewrites = Some (Ok out)"
  by (auto simp: rewriteData_def Let_def encodeWrapped_eq split: option.splits)

lemma unpack_assembled:
  assumes "\<not> matchRe payloadMarkerRe (endLine header)" "gzOpen lib gz"
  shows "unpackPayload lib (assemble header (wrapText 76 0 (b64Encode gz))) =
    map_option (\<lambda>es. (endLine header, gz, es)) (allEntries (tarEvents lib gz))"
proof -
  let ?w = "wrapText 76 0 (b64Encode gz)"
  obtain z where z: "assemble header ?w = endLine header @ payloadMarker @ newline # ?w @ z" "z = [] \<or> z = [newline]"
    using endLine_Nil [of "endLine header @ payloadMarker @ [newline] @ ?w"] by (auto simp: assemble_def)
  have blank: "isBlank newline" by (simp add: isBlank_def newline_def)
  have "b64Clean (newline # ?w @ z) = b64Encode gz"
    using z(2) blank b64Clean_wrapText [OF b64Encode_set, of 76 0 gz] by (auto simp: b64Clean_def)
  moreover have "drop (length (endLine header) + 17) (assemble header ?w) = newline # ?w @ z"
    unfolding z(1) by (simp add: add.commute)
  ultimately show ?thesis
    using marker_found [OF endLine_last assms(1), of "?w @ z"] assms(2)
    by (simp add: unpackPayload_def z(1) b64_round_trip)
qed

lemma md5_line_present:
  assumes "matchRe md5SumRe (subs header)"
  shows "contains (rewriteHeader subs gz header) (md5Line gz)"
proof -
  obtain i e ms where f: "findRe md5SumRe None (subs header) = Some (i, e, ms)"
    using assms by (auto simp: matchRe_def)
  then obtain x y where xy: "subs header = x @ y" "length x = i" using findRe_offset [OF f]
    by (metis append_take_drop_id length_take min.absorb2)
  then have m: "matchAt md5SumRe (prevOf None x) y = Some (e, ms)" using f findRe_Some [of md5SumRe None x y "(e, ms)"] by simp
  have "e \<le> length y" by (rule matchAt_length [OF m])
  then obtain v r where vr: "y = v @ r" "length v = e" by (metis append_take_drop_id length_take min.absorb2)
  have "matchAt (tl md5SumRe) (prevOf None x) y = Some (e, ms)"
    using m by (simp only: md5SumRe_def matchAt_BeginLine list.sel option.distinct split: if_splits)
  then have "v \<noteq> []" using matchAt_Lit_length vr(2) by (fastforce simp: md5SumRe_def simp del: matchAt.simps)
  moreover have "expand (md5Line gz) v = md5Line gz"
    using hexEncode_isHex [of "md5 (bytes_of gz)"] by (intro expand_plain) (auto simp: md5Line_def list_all_iff isHex_def hexVal_def code_def)
  ultimately have "rewriteHeader subs gz header = x @ md5Line gz @ replaceRe md5SumRe (md5Line gz) (prevOf None v) r"
    using replaceRe_find [of md5SumRe None x v r ms "md5Line gz"] f xy vr by (simp add: rewriteHeader_def replaceAllRe_def)
  then show ?thesis by (simp add: contains_append)
qed

text \<open>
  A small archive format for the examples below: one entry, its type and content after the gzip magic number.
\<close>

definition sampleArchive :: "unit archive" where
  "sampleArchive = \<lparr>gzOpen = (\<lambda>_. True),
     tarEvents = (\<lambda>gz. case gz of _ # _ # t # d \<Rightarrow> [Entry \<lparr>Typeflag = t, Size = length d, Meta = ()\<rparr> d] | _ \<Rightarrow> []),
     headerOk = (\<lambda>_ _. True), dataOk = (\<lambda>_ h d. length d \<le> Size h),
     finish = (\<lambda>es. case es of [(h, d)] \<Rightarrow>
        if Size h = length d then Some (CHR 0x1F # CHR 0x8B # Typeflag h # d) else None | _ \<Rightarrow> None)\<rparr>"

section \<open>Properties\<close>



text \<open>
  C8. A self-extracting archive stays one: when the payload can be read, and the tar writer accepts the
  rewritten entries, the result unpacks to the rewritten header, the new compressed data, and every entry with
  its content and size rewritten if it is a regular file and unchanged otherwise. An MD5 line of the header then
  holds the digest of exactly that data, and the result ends with a line break. The archive packages only have to read back
  the entries they wrote, up to a normalisation of headers.
\<close>

theorem rewrite_archive_unpacks:
  assumes "unpackPayload lib input = Some (header, gz0, es)" "isGzip gz0"
    and "writable lib [] (map (rewriteEntry (applySubs (trimRight (CHR ''/'') base) rewrites)) es)"
    and "finish lib (map (rewriteEntry (applySubs (trimRight (CHR ''/'') base) rewrites)) es) = Some gz"
    and "\<And>ws d. finish lib ws = Some d \<Longrightarrow> gzOpen lib d \<and> tarEvents lib d = map (\<lambda>(h, c). Entry (norm h) c) ws"
    and "\<not> matchRe payloadMarkerRe (endLine (rewriteHeader (applySubs (trimRight (CHR ''/'') base) rewrites) gz header))"
  shows "\<exists>out. rewriteData lib input base rewrites = Some (Ok out)
    \<and> unpackPayload lib out = Some (endLine (rewriteHeader (applySubs (trimRight (CHR ''/'') base) rewrites) gz header), gz,
        map (\<lambda>(h, c). (norm h, c)) (map (rewriteEntry (applySubs (trimRight (CHR ''/'') base) rewrites)) es))
    \<and> (matchRe md5SumRe (applySubs (trimRight (CHR ''/'') base) rewrites header) \<longrightarrow>
        contains (endLine (rewriteHeader (applySubs (trimRight (CHR ''/'') base) rewrites) gz header)) (md5Line gz))
    \<and> last out = newline"
proof -
  let ?subs = "applySubs (trimRight (CHR ''/'') base) rewrites"
  let ?es = "map (rewriteEntry ?subs) es" and ?h = "rewriteHeader ?subs gz header"
  have lib: "gzOpen lib gz" "tarEvents lib gz = map (\<lambda>(h, c). Entry (norm h) c) ?es" using assms(4,5) by auto
  have "allEntries (map (\<lambda>(h, c). Entry (norm h) c) ws) = Some (map (\<lambda>(h, c). (norm h, c)) ws)" for ws
    by (induction ws) auto
  then have "unpackPayload lib (assemble ?h (wrapText 76 0 (b64Encode gz))) =
      Some (endLine ?h, gz, map (\<lambda>(h, c). (norm h, c)) ?es)"
    using unpack_assembled [OF assms(6) lib(1)] by (simp only: lib(2) option.map)
  moreover have "contains (endLine ?h) (md5Line gz)" if "matchRe md5SumRe (?subs header)"
    using contains_extend [of ?h "md5Line gz"] md5_line_present [of ?subs header gz] that endLine_Nil [of ?h] by metis
  moreover have "last (assemble ?h (wrapText 76 0 (b64Encode gz))) = newline" by (simp add: assemble_def endLine_last)
  ultimately show ?thesis using rewriteData_archive [OF assms(1-4)] by (intro exI conjI impI)
qed

definition sampleInput :: string where
  "sampleInput = ''sh'' @ [newline] @ payloadMarker @ [newline] @ b64Encode (CHR 0x1F # CHR 0x8B # ''0http://r:5248'')"

lemma sample_unpack:
  "unpackPayload sampleArchive sampleInput = Some (''sh'' @ [newline], CHR 0x1F # CHR 0x8B # ''0http://r:5248'',
     [(\<lparr>Typeflag = CHR ''0'', Size = 13, Meta = ()\<rparr>, ''http://r:5248'')])"
  by code_simp

lemma sample_entry:
  "rewriteEntry (applySubs (trimRight (CHR ''/'') ''http://m/'') []) (\<lparr>Typeflag = CHR ''0'', Size = 13, Meta = ()\<rparr>, ''http://r:5248'') =
     (\<lparr>Typeflag = CHR ''0'', Size = 8, Meta = ()\<rparr>, ''http://m'')"
  by code_simp

lemma sample_header:
  "rewriteHeader (applySubs (trimRight (CHR ''/'') ''http://m/'') []) gz (''sh'' @ [newline]) = ''sh'' @ [newline]"
proof -
  have "applySubs (trimRight (CHR ''/'') ''http://m/'') [] (''sh'' @ [newline]) = ''sh'' @ [newline]"
    "findRe md5SumRe None (''sh'' @ [newline]) = None" by code_simp+
  then show ?thesis by (simp only: rewriteHeader_def replaceAllRe_def replaceRe_none)
qed

theorem rewrite_archive_unpacks_witness:
  "\<exists>out. rewriteData sampleArchive sampleInput ''http://m/'' [] = Some (Ok out)
    \<and> unpackPayload sampleArchive out = Some (endLine (rewriteHeader (applySubs (trimRight (CHR ''/'') ''http://m/'') [])
          (CHR 0x1F # CHR 0x8B # ''0http://m'') (''sh'' @ [newline])), CHR 0x1F # CHR 0x8B # ''0http://m'',
        map (\<lambda>(h, c). (id h, c)) (map (rewriteEntry (applySubs (trimRight (CHR ''/'') ''http://m/'') []))
          [(\<lparr>Typeflag = CHR ''0'', Size = 13, Meta = ()\<rparr>, ''http://r:5248'')]))
    \<and> (matchRe md5SumRe (applySubs (trimRight (CHR ''/'') ''http://m/'') [] (''sh'' @ [newline])) \<longrightarrow>
        contains (endLine (rewriteHeader (applySubs (trimRight (CHR ''/'') ''http://m/'') [])
          (CHR 0x1F # CHR 0x8B # ''0http://m'') (''sh'' @ [newline]))) (md5Line (CHR 0x1F # CHR 0x8B # ''0http://m'')))
    \<and> last out = newline"
proof (rule rewrite_archive_unpacks)
  show "unpackPayload sampleArchive sampleInput = Some (''sh'' @ [newline], CHR 0x1F # CHR 0x8B # ''0http://r:5248'',
     [(\<lparr>Typeflag = CHR ''0'', Size = 13, Meta = ()\<rparr>, ''http://r:5248'')])" by (rule sample_unpack)
  show "\<not> matchRe payloadMarkerRe (endLine (rewriteHeader (applySubs (trimRight (CHR ''/'') ''http://m/'') [])
          (CHR 0x1F # CHR 0x8B # ''0http://m'') (''sh'' @ [newline])))"
    unfolding sample_header by code_simp
  show "gzOpen sampleArchive d \<and> tarEvents sampleArchive d = map (\<lambda>(h, c). Entry (id h) c) ws"
    if "finish sampleArchive ws = Some d" for ws d
    using that by (auto simp: sampleArchive_def split: list.splits if_splits)
qed (simp_all add: sample_entry isGzip_def sampleArchive_def)


text \<open>
  C30. The line wrapping writer does not depend on how its input is cut into writes: two sequences of writes of the same
  text leave the same output, which is the text once line breaks are removed and has no line longer than the width.
\<close>

theorem line_wrap_chunks:
  assumes "concat ps = concat qs" "newline \<notin> set (concat ps)" "0 < n"
  shows "\<exists>l. wrapWrites bufferWrite ps \<lparr>underlying = [], lineLen = int n, col = 0\<rparr> = Some (Ok l)
    \<and> wrapWrites bufferWrite qs \<lparr>underlying = [], lineLen = int n, col = 0\<rparr> = Some (Ok l)
    \<and> filter (\<lambda>c. c \<noteq> newline) (underlying l) = concat ps
    \<and> list_all (\<lambda>line. length line \<le> n) (splitOn newline (underlying l))"
  using assms wrapWrites_buffer [of 0 n ps "[]"] wrapWrites_buffer [of 0 n qs "[]"] wrapText_lines [of "concat ps" 0 n]
  by (simp add: wrapText_filter)

theorem line_wrap_chunks_witness:
  "\<exists>l. wrapWrites bufferWrite [''abc'', ''de''] \<lparr>underlying = [], lineLen = int 2, col = 0\<rparr> = Some (Ok l)
    \<and> wrapWrites bufferWrite [''a'', ''bcde''] \<lparr>underlying = [], lineLen = int 2, col = 0\<rparr> = Some (Ok l)
    \<and> filter (\<lambda>c. c \<noteq> newline) (underlying l) = concat [''abc'', ''de'']
    \<and> list_all (\<lambda>line. length line \<le> 2) (splitOn newline (underlying l))"
  by (rule line_wrap_chunks) (simp_all add: newline_def)

text \<open>
  A write to the line wrapping writer always ends when its column lies inside the line, whatever the
  writer below accepts or refuses; it does not panic, and a successful write reports the whole length and keeps
  the column inside the line.
\<close>

lemma line_wrap_ends:
  assumes "\<And>w s. emit w s \<noteq> Panic" "colInv l"
  shows "\<exists>r. lineWrapWrite emit p l = Some r \<and> r \<noteq> Panic \<and> (\<forall>n l'. r = Ok (n, l') \<longrightarrow> n = length p \<and> colInv l')"
proof -
  obtain r where "wrapLoop emit p l = Some r" "r \<noteq> Panic" "\<forall>l'. r = Ok l' \<longrightarrow> colInv l'"
    using wrapLoop_ends [of emit l p] assms by blast
  then show ?thesis by (cases r) (auto simp: lineWrapWrite_def)
qed

end
