(* ===== verification/Go_Http.thy ===== *)
theory Go_Http
  imports Go_Strings Go_Maps "HOL-Library.Char_ord" "HOL-Library.List_Lexorder"
begin

text \<open>
  The parts of the packages \<open>net/url\<close> and \<open>net/http\<close> that the boot proxy uses: query strings (\<open>ParseQuery\<close>, \<open>Get\<close>,
  \<open>Del\<close>, \<open>Encode\<close>) and header maps (\<open>Get\<close>, \<open>Add\<close>, \<open>Set\<close> with canonical keys). Both are Go maps from a
  text to a list of texts.
\<close>

type_synonym multimap = "string list gomap"

definition valuesOf :: "multimap \<Rightarrow> string \<Rightarrow> string list" where
  "valuesOf m k = (case mapGet m k of None \<Rightarrow> [] | Some vs \<Rightarrow> vs)"

definition addValue :: "string \<Rightarrow> string \<Rightarrow> multimap \<Rightarrow> multimap" where
  "addValue k v m = mapSet k (valuesOf m k @ [v]) m"

definition firstValue :: "multimap \<Rightarrow> string \<Rightarrow> string" where
  "firstValue m k = (case valuesOf m k of [] \<Rightarrow> [] | v # _ \<Rightarrow> v)"

section \<open>Query strings\<close>

fun queryUnescape :: "string \<Rightarrow> string option" where
  "queryUnescape [] = Some []"
| "queryUnescape (c # s) =
     (if c = CHR ''%'' then
        (case s of a # b # r \<Rightarrow>
            (case (hexVal a, hexVal b) of
               (Some x, Some y) \<Rightarrow> map_option ((#) (char_of (16 * x + y))) (queryUnescape r)
             | _ \<Rightarrow> None)
         | _ \<Rightarrow> None)
      else map_option ((#) (if c = CHR ''+'' then CHR '' '' else c)) (queryUnescape s))"

definition unreserved :: "char \<Rightarrow> bool" where
  "unreserved c \<longleftrightarrow> (let n = code c in 48 \<le> n \<and> n \<le> 57 \<or> 65 \<le> n \<and> n \<le> 90 \<or> 97 \<le> n \<and> n \<le> 122) \<or> c \<in> set ''-_.~''"

definition escapeChar :: "char \<Rightarrow> string" where
  "escapeChar c = (if unreserved c then [c] else if c = CHR '' '' then ''+''
     else [CHR ''%'', upperHexDigit (code c div 16), upperHexDigit (code c mod 16)])"

definition queryEscape :: "string \<Rightarrow> string" where
  "queryEscape s = concat (map escapeChar s)"

text \<open>Pairs that cannot be decoded, and pairs with a semicolon, are dropped.\<close>

definition queryPair :: "string \<Rightarrow> (string \<times> string) option" where
  "queryPair part =
     (if CHR '';'' \<in> set part \<or> part = [] then None
      else (case (queryUnescape (takeWhile (\<lambda>c. c \<noteq> CHR ''='') part), queryUnescape (tl (dropWhile (\<lambda>c. c \<noteq> CHR ''='') part))) of
          (Some k, Some v) \<Rightarrow> Some (k, v)
        | _ \<Rightarrow> None))"

definition addPair :: "string \<Rightarrow> multimap \<Rightarrow> multimap" where
  "addPair part m = (case queryPair part of None \<Rightarrow> m | Some (k, v) \<Rightarrow> addValue k v m)"

definition parseQuery :: "string \<Rightarrow> multimap" where
  "parseQuery raw = fold addPair (splitOn (CHR ''&'') raw) []"

definition printPair :: "string \<Rightarrow> string \<Rightarrow> string" where
  "printPair k v = queryEscape k @ ''='' @ queryEscape v"

definition encodeQuery :: "multimap \<Rightarrow> string" where
  "encodeQuery m = join (concat (map (\<lambda>k. map (printPair k) (valuesOf m k)) (sort (keys m)))) ''&''"

section \<open>Headers\<close>

definition upperChar :: "char \<Rightarrow> char" where
  "upperChar c = (if 97 \<le> code c \<and> code c \<le> 122 then char_of (code c - 32) else c)"

definition tokenChar :: "char \<Rightarrow> bool" where
  "tokenChar c \<longleftrightarrow> (let n = code c in 48 \<le> n \<and> n \<le> 57 \<or> 65 \<le> n \<and> n \<le> 90 \<or> 97 \<le> n \<and> n \<le> 122)
     \<or> c \<in> set ''!#$%&*+-.^_|~'' \<or> c = CHR 0x27 \<or> c = CHR 0x60"

fun titleCase :: "bool \<Rightarrow> string \<Rightarrow> string" where
  "titleCase up [] = []"
| "titleCase up (c # s) = (if up then upperChar c else lowerChar c) # titleCase (c = CHR ''-'') s"

definition canonicalKey :: "string \<Rightarrow> string" where
  "canonicalKey k = (if list_all tokenChar k then titleCase True k else k)"

definition headerAdd :: "string \<Rightarrow> string \<Rightarrow> multimap \<Rightarrow> multimap" where
  "headerAdd k v h = addValue (canonicalKey k) v h"

definition headerSet :: "string \<Rightarrow> string \<Rightarrow> multimap \<Rightarrow> multimap" where
  "headerSet k v h = mapSet (canonicalKey k) [v] h"

definition headerGet :: "multimap \<Rightarrow> string \<Rightarrow> string" where
  "headerGet h k = firstValue h (canonicalKey k)"

definition equalFold :: "string \<Rightarrow> string \<Rightarrow> bool" where
  "equalFold a b \<longleftrightarrow> toLower a = toLower b"

text \<open>The loop that copies the headers \<open>src\<close>, but those to skip, to \<open>dst\<close>.\<close>

definition copyHeader :: "(string \<Rightarrow> bool) \<Rightarrow> multimap \<Rightarrow> multimap \<Rightarrow> multimap" where
  "copyHeader skip src dst = fold (\<lambda>(k, vs) h. if skip k then h else fold (headerAdd k) vs h) src dst"

section \<open>Lemmas on query strings\<close>

lemma upperHexDigit_plain: "n < 16 \<Longrightarrow> upperHexDigit n \<notin> set ''&=;%+''"
  by (erule nat_less_16_cases) (simp_all add: upperHexDigit_def)

lemma escapeChar_plain: "set (escapeChar c) \<inter> set ''&=;'' = {}"
proof -
  have "code c div 16 < 16" "code c mod 16 < 16" using code_less [of c] by (simp_all add: div_less_iff_less_mult)
  note hex = this [THEN upperHexDigit_plain]
  have "\<not> unreserved (CHR ''&'')" "\<not> unreserved (CHR ''='')" "\<not> unreserved (CHR '';'')"
    by (simp_all add: unreserved_def code_def)
  with hex show ?thesis by (auto simp: escapeChar_def)
qed

lemma queryEscape_plain: "set (queryEscape s) \<inter> set ''&=;'' = {}"
  using escapeChar_plain by (auto simp: queryEscape_def)

lemma queryUnescape_escape: "queryUnescape (escapeChar c @ s) = map_option ((#) c) (queryUnescape s)"
proof -
  have n: "code c div 16 < 16" "code c mod 16 < 16" using code_less [of c] by (simp_all add: div_less_iff_less_mult)
  have "c \<noteq> CHR ''%''" "c \<noteq> CHR ''+''" if "unreserved c" using that by (auto simp: unreserved_def code_def)
  then show ?thesis
    by (auto simp: escapeChar_def n) (simp add: code_def)
qed

lemma queryEscape_round_trip: "queryUnescape (queryEscape s) = Some s"
  by (induction s) (simp_all add: queryEscape_def queryUnescape_escape)

lemma queryPair_print: "queryPair (printPair k v) = Some (k, v)"
proof -
  have "CHR ''='' \<notin> set (queryEscape k)" "CHR '';'' \<notin> set (printPair k v)"
    using queryEscape_plain [of k] queryEscape_plain [of v] by (auto simp: printPair_def)
  moreover from this(1) have "takeWhile (\<lambda>c. c \<noteq> CHR ''='') (printPair k v) = queryEscape k"
    "dropWhile (\<lambda>c. c \<noteq> CHR ''='') (printPair k v) = ''='' @ queryEscape v"
    unfolding printPair_def by (subst takeWhile_append2 dropWhile_append2; auto)+
  moreover have "printPair k v \<noteq> []" by (simp add: printPair_def)
  ultimately show ?thesis by (simp add: queryPair_def queryEscape_round_trip)
qed

lemma mapGet_addValue: "mapGet (addValue k v m) j = (if j = k then Some (valuesOf m k @ [v]) else mapGet m j)"
  by (simp add: addValue_def)

lemma valuesOf_addValue: "valuesOf (addValue k v m) j = (if j = k then valuesOf m k @ [v] else valuesOf m j)"
  by (simp add: valuesOf_def mapGet_addValue)

lemma wfMap_addValue [simp]: "wfMap m \<Longrightarrow> wfMap (addValue k v m)"
  by (simp add: addValue_def)

text \<open>A query map: distinct keys, each with a value.\<close>

definition wfQuery :: "multimap \<Rightarrow> bool" where
  "wfQuery m \<longleftrightarrow> wfMap m \<and> (\<forall>k. mapGet m k \<noteq> Some [])"

lemma wfQuery_parse: "wfQuery (parseQuery raw)"
proof -
  have "wfQuery (fold addPair ps m)" if "wfQuery m" for ps m
    using that by (induction ps arbitrary: m) (auto simp: addPair_def wfQuery_def mapGet_addValue split: option.splits)
  then show ?thesis unfolding parseQuery_def by (simp add: wfQuery_def)
qed

lemma wfQuery_delete: "wfQuery m \<Longrightarrow> wfQuery (mapDelete k m)"
  by (simp add: wfQuery_def)

lemma fold_pairs:
  "valuesOf (fold addPair (map (printPair k) vs) m) j = (if j = k then valuesOf m k @ vs else valuesOf m j)"
  by (induction vs arbitrary: m) (simp_all add: addPair_def queryPair_print valuesOf_addValue)

lemma fold_keys:
  "distinct ks \<Longrightarrow> valuesOf (fold addPair (concat (map (\<lambda>k. map (printPair k) (f k)) ks)) m) j =
    valuesOf m j @ (if j \<in> set ks then f j else [])"
  by (induction ks arbitrary: m) (simp_all add: fold_pairs)

lemma mapGet_values: "wfQuery m \<Longrightarrow> mapGet m k = (if valuesOf m k = [] then None else Some (valuesOf m k))"
  by (auto simp: wfQuery_def valuesOf_def split: option.splits)

lemma valuesOf_key: "valuesOf m k \<noteq> [] \<Longrightarrow> k \<in> set (keys m)"
  by (cases "mapGet m k") (auto simp: valuesOf_def mapGet_def dest!: map_of_SomeD intro: rev_image_eqI)

text \<open>Reading an encoded query gives the map back.\<close>

lemma parse_encodeQuery:
  assumes "wfQuery m"
  shows "mapGet (parseQuery (encodeQuery m)) = mapGet m"
proof
  fix k
  let ?ps = "concat (map (\<lambda>k. map (printPair k) (valuesOf m k)) (sort (keys m)))"
  have plain: "\<forall>p \<in> set ?ps. CHR ''&'' \<notin> set p"
    using queryEscape_plain by (fastforce simp: printPair_def)
  have "parseQuery (encodeQuery m) = fold addPair ?ps []"
  proof (cases "?ps = []")
    case True
    then show ?thesis by (simp only: parseQuery_def encodeQuery_def join.simps) (simp add: addPair_def queryPair_def)
  next
    case False
    show ?thesis unfolding parseQuery_def encodeQuery_def splitOn_join [OF False plain] by (rule refl)
  qed
  then have "valuesOf (parseQuery (encodeQuery m)) k = (if k \<in> set (keys m) then valuesOf m k else [])"
    using assms fold_keys [of "sort (keys m)" "valuesOf m" "[]" k] by (simp add: wfQuery_def wfMap_def valuesOf_def)
  also have "\<dots> = valuesOf m k" using valuesOf_key [of m k] by (cases "valuesOf m k = []") auto
  finally show "mapGet (parseQuery (encodeQuery m)) k = mapGet m k"
    using assms by (simp add: mapGet_values wfQuery_parse)
qed

section \<open>Lemmas on headers\<close>

text \<open>A header map as the packages build them: canonical keys, each with a value.\<close>

definition wfHeader :: "multimap \<Rightarrow> bool" where
  "wfHeader h \<longleftrightarrow> wfQuery h \<and> (\<forall>k \<in> set (keys h). canonicalKey k = k)"

lemma fold_headerAdd:
  "valuesOf (fold (headerAdd k) vs h) j = (if j = canonicalKey k then valuesOf h j @ vs else valuesOf h j)"
  by (induction vs arbitrary: h) (simp_all add: headerAdd_def valuesOf_addValue)

lemma wfHeader_Cons: "wfHeader ((k, vs) # h) \<Longrightarrow> wfHeader h \<and> canonicalKey k = k \<and> valuesOf h k = []
    \<and> valuesOf ((k, vs) # h) = (valuesOf h)(k := vs)"
proof -
  assume wf: "wfHeader ((k, vs) # h)"
  then have k: "k \<notin> set (keys h)" by (simp add: wfHeader_def wfQuery_def wfMap_def)
  then have none: "mapGet h k = None" by (simp add: mapGet_def map_of_eq_None_iff)
  have "mapGet h j \<noteq> Some []" for j
    using wf none by (cases "j = k") (auto simp: wfHeader_def wfQuery_def mapGet_def split: if_splits)
  with wf have "wfHeader h" by (auto simp: wfHeader_def wfQuery_def wfMap_def)
  moreover have "valuesOf ((k, vs) # h) = (valuesOf h)(k := vs)" by (auto simp: valuesOf_def mapGet_def)
  ultimately show ?thesis using wf none by (simp add: wfHeader_def valuesOf_def)
qed

lemma copyHeader_values:
  "wfHeader src \<Longrightarrow> valuesOf (copyHeader skip src dst) j = valuesOf dst j @ (if skip j then [] else valuesOf src j)"
proof (induction src arbitrary: dst)
  case Nil
  show ?case by (simp add: copyHeader_def valuesOf_def)
next
  case (Cons x src)
  obtain k vs where x: "x = (k, vs)" by (cases x)
  note wf = wfHeader_Cons [OF Cons.prems [unfolded x]]
  have "copyHeader skip (x # src) dst = copyHeader skip src (if skip k then dst else fold (headerAdd k) vs dst)"
    by (simp add: copyHeader_def x)
  with Cons.IH wf show ?case by (auto simp: x fold_headerAdd)
qed

end
