(* ===== verification/Boot_Server.thy ===== *)
theory Boot_Server
  imports Server_State Iso_Builder Overlay Rewriter Go_Http
begin

text \<open>
  The HTTP handler of the boot proxy and its start-up, after \<^verbatim>\<open>images/maas-boot-proxy/main.go\<close>: the generic ISO, the
  embedded overlay, the ISO of a node, and the reverse proxy that streams binaries and rewrites everything
  else. A handler returns the new server state and its reply, or nothing when it does not end; a reply is what
  it hands to \<open>http.Error\<close>, to \<open>http.ServeContent\<close>, or writes itself. The upstream and the archive
  packages are parameters.
\<close>

section \<open>Constants and expressions\<close>

definition overlayPath :: string where "overlayPath = ''/genesis-overlay.cpio.gz''"
definition bondOverlayPath :: string where "bondOverlayPath = ''/bond-overlay.cpio.gz''"
definition genericISOPath :: string where "genericISOPath = ''/generic-boot.iso''"
definition genericISOKey :: string where "genericISOKey = ''generic''"

definition macChar :: "char \<Rightarrow> bool" where
  "macChar c \<longleftrightarrow> isHex c \<or> c \<in> {CHR '':'', CHR ''.'', CHR ''-''}"

definition ipxeRe :: "item list" where
  "ipxeRe = [Lit ''ipxe.cfg-'', Mark, Rep True macChar 1 None, Mark, EndText]"

definition isoRe :: "item list" where
  "isoRe = [BeginText, Lit ''/iso/'', Mark, Rep False macChar 1 None, Mark, Opt ''.iso'', EndText]"

definition notBlank :: "char \<Rightarrow> bool" where
  "notBlank c \<longleftrightarrow> code c \<notin> {9, 10, 12, 13, 32}"

definition ipCmdRe :: "item list" where
  "ipCmdRe = [Lit ''ip='', Rep True notBlank 0 None, Lit ''BOOTIF'']"

section \<open>Helpers\<close>

definition isBinary :: "string \<Rightarrow> bool" where
  "isBinary path =
     (if hasPrefix path ''/images/'' \<or> hasPrefix path ''/machine-resources/'' then True
      else if contains path ''maas-scripts'' then True
      else False)"

definition isoErrorStatus :: "bytes \<Rightarrow> nat" where
  "isoErrorStatus efi = (if length efi = 0 then 503 else 500)"

definition injectOverlayInitrd :: "string \<Rightarrow> string \<Rightarrow> string" where
  "injectOverlayInitrd body url =
     (if url = [] then body
      else (let line = ''initrd '' @ url @ [newline] in
        case lastIndex body (newline # ''boot'') of
          Some i \<Rightarrow> take (i + 1) body @ line @ drop (i + 1) body
        | None \<Rightarrow> body @ line))"

section \<open>Requests and replies\<close>

record Request =
  Method :: string
  URLPath :: string
  RawQuery :: string
  Host :: string
  ReqHeader :: multimap
  RemoteAddr :: string
  Body :: string

record UpRequest =
  upMethod :: string
  upURL :: string
  upReqHeader :: multimap
  upReqBody :: string

text \<open>An upstream response: what its body delivers, and whether reading it ends with an error.\<close>

record UpResponse =
  upStatus :: nat
  upHeader :: multimap
  upBody :: string
  upBodyErr :: bool

datatype Reply =
    HttpError nat string
  | ServeContent string string int bytes
  | Respond nat multimap string

text \<open>The packages: JSON, archives, request validation, the upstream, and the overlay archive built at start-up.\<close>

record 'm deps =
  json :: codec
  archives :: "'m archive"
  newRequestOk :: "string \<Rightarrow> string \<Rightarrow> bool"
  roundTrip :: "UpRequest \<Rightarrow> UpResponse option"
  overlayCPIO :: string

text \<open>The clock readings and the polls that one request meets.\<close>

record World =
  clkSince :: int
  clkNow :: int
  clkSet :: int
  resStart :: int
  resPolls :: "nat \<Rightarrow> Poll"

definition clientIP :: "Request \<Rightarrow> string" where
  "clientIP r =
     (let xff = headerGet (ReqHeader r) ''X-Forwarded-For'' in
      if xff \<noteq> [] then
        (case indexOf xff '','' of
           Some i \<Rightarrow> if i > 0 then trimSpace (take i xff) else trimSpace xff
         | None \<Rightarrow> trimSpace xff)
      else RemoteAddr r)"

definition proxyBaseOf :: "Config \<Rightarrow> Request \<Rightarrow> string" where
  "proxyBaseOf c r = (if ProxyBase c = [] then ''http://'' @ Host r else ProxyBase c)"

section \<open>ISO endpoints\<close>

definition cachedISO :: "World \<Rightarrow> string \<Rightarrow> string \<Rightarrow> bytes outcome \<Rightarrow> ISOCache \<Rightarrow> ISOCache \<times> CachedISO outcome" where
  "cachedISO w key wantHash build c =
     (case GetISO (clkSince w) (clkNow w) key c of (c', found) \<Rightarrow>
        if found \<noteq> None \<and> ConfigHash (the found) = wantHash then (c', Ok (the found))
        else (case build of
            Panic \<Rightarrow> (c', Panic)
          | Err err \<Rightarrow> (c', Err err)
          | Ok data \<Rightarrow> (case SetISO (clkSet w) key wantHash data c' of (c'', e) \<Rightarrow> (c'', Ok e))))"

definition serveISO :: "World \<Rightarrow> string \<Rightarrow> string \<Rightarrow> bytes outcome \<Rightarrow> string \<Rightarrow> Server \<Rightarrow> Server \<times> Reply outcome" where
  "serveISO w key wantHash build name s =
     (case cachedISO w key wantHash build (isoCache s) of (c, r) \<Rightarrow>
        (s\<lparr>isoCache := c\<rparr>,
         case r of
           Panic \<Rightarrow> Panic
         | Err _ \<Rightarrow> Ok (HttpError (isoErrorStatus (ipxeEFI s)) ''failed to build ISO'')
         | Ok e \<Rightarrow> Ok (ServeContent ''application/x-iso9660-image'' name (ModTime e) (Data e))))"

definition serveGeneric :: "World \<Rightarrow> Request \<Rightarrow> Server \<Rightarrow> Server \<times> Reply outcome" where
  "serveGeneric w r s =
     (let proxyBase = proxyBaseOf (cfg s) r in
      serveISO w genericISOKey (GenericConfigHash proxyBase) (BuildGenericISO (ipxeEFI s) proxyBase) ''generic-boot.iso'' s)"

definition serveOverlay :: "'m deps \<Rightarrow> Server \<Rightarrow> Reply" where
  "serveOverlay d s = ServeContent ''application/x-gzip'' ''genesis-overlay.cpio.gz'' (bootTime s) (bytes_of (overlayCPIO d))"

definition requestMAC :: "string \<Rightarrow> string" where
  "requestMAC rawMAC = (if normalizeMAC rawMAC = [] then toLower rawMAC else normalizeMAC rawMAC)"

definition serveNodeISO :: "'m deps \<Rightarrow> World \<Rightarrow> Request \<Rightarrow> string \<Rightarrow> Server \<Rightarrow> (Server \<times> Reply outcome) option" where
  "serveNodeISO d w r rawMAC s =
     (let normMAC = requestMAC rawMAC in
      case resolveNode (json d) (resStart w) (resPolls w) normMAC s of
        None \<Rightarrow> None
      | Some (s', None) \<Rightarrow> Some (s', Ok (HttpError 404 (''node with MAC '' @ rawMAC @ '' not found'')))
      | Some (s', Some node) \<Rightarrow>
          (let proxyBase = proxyBaseOf (cfg s) r in
           Some (serveISO w normMAC (ComputeNodeConfigHash node normMAC proxyBase)
             (BuildNodeISO (ipxeEFI s') node normMAC proxyBase) (''ipxe-'' @ normMAC @ ''.iso'') s')))"

section \<open>The reverse proxy\<close>

text \<open>The MAC given as query parameter, and the query without it.\<close>

definition upstreamQuery :: "string \<Rightarrow> string \<times> string" where
  "upstreamQuery raw =
     (if raw \<noteq> [] then
        (let q = parseQuery raw; g = firstValue q ''genesis'' in
         if g \<noteq> [] then (toLower g, encodeQuery (mapDelete ''genesis'' q)) else ([], raw))
      else ([], raw))"

definition upstreamURL :: "Config \<Rightarrow> string \<Rightarrow> string \<Rightarrow> string" where
  "upstreamURL c path q = trimRight (CHR ''/'') (RackUpstream c) @ path @ (if q \<noteq> [] then ''?'' @ q else [])"

definition upstreamHeader :: "multimap \<Rightarrow> multimap" where
  "upstreamHeader h = headerSet ''Accept-Encoding'' ''identity'' (copyHeader (\<lambda>k. equalFold k ''Accept-Encoding'') h [])"

definition upstreamRequest :: "Config \<Rightarrow> Request \<Rightarrow> UpRequest" where
  "upstreamRequest c r = \<lparr>upMethod = Method r, upURL = upstreamURL c (URLPath r) (snd (upstreamQuery (RawQuery r))),
     upReqHeader = upstreamHeader (ReqHeader r), upReqBody = Body r\<rparr>"

text \<open>The MAC whose node an iPXE configuration is for, if any.\<close>

definition ipxeMAC :: "Request \<Rightarrow> string" where
  "ipxeMAC r =
     (if contains (URLPath r) ''ipxe.cfg'' then
        (case submatch ipxeRe (URLPath r) of Some m \<Rightarrow> m | None \<Rightarrow> fst (upstreamQuery (RawQuery r)))
      else [])"

definition injectNet :: "Node \<Rightarrow> string \<Rightarrow> string" where
  "injectNet node body = (if matchRe ipCmdRe body then replaceAllRe ipCmdRe (buildKernelNet node) body else body)"

definition injectNode :: "Config \<Rightarrow> string \<Rightarrow> Node \<Rightarrow> string \<Rightarrow> string" where
  "injectNode c proxyBase node body =
     (let body = injectNet node body in
      if bonded node then
        injectOverlayInitrd body (if OverlayURL c = [] then trimRight (CHR ''/'') proxyBase @ overlayPath else OverlayURL c)
      else body)"

definition injectBoot :: "'m deps \<Rightarrow> World \<Rightarrow> Request \<Rightarrow> string \<Rightarrow> Server \<Rightarrow> (Server \<times> string) option" where
  "injectBoot d w r body s =
     (let mac = ipxeMAC r in
      if mac = [] then Some (s, body)
      else (case resolveNode (json d) (resStart w) (resPolls w) mac s of
          None \<Rightarrow> None
        | Some (s', None) \<Rightarrow> Some (s', body)
        | Some (s', Some node) \<Rightarrow> Some (s', injectNode (cfg s) (proxyBaseOf (cfg s) r) node body)))"

definition rewrittenReply :: "UpResponse \<Rightarrow> string \<Rightarrow> Reply" where
  "rewrittenReply resp body = Respond (upStatus resp)
     (headerSet ''Content-Length'' (show_nat (length body)) (copyHeader (\<lambda>k. equalFold k ''Content-Length'') (upHeader resp) [])) body"

definition streamReply :: "UpResponse \<Rightarrow> Reply" where
  "streamReply resp = Respond (upStatus resp) (copyHeader (\<lambda>_. False) (upHeader resp) []) (upBody resp)"

definition serveRewritten :: "'m deps \<Rightarrow> World \<Rightarrow> Request \<Rightarrow> UpResponse \<Rightarrow> Server \<Rightarrow> (Server \<times> Reply outcome) option" where
  "serveRewritten d w r resp s =
     (if upBodyErr resp then Some (s, Ok (HttpError 502 ''read error from upstream''))
      else (case rewriteData (archives d) (upBody resp) (proxyBaseOf (cfg s) r) (Rewrites (cfg s)) of
          None \<Rightarrow> None
        | Some Panic \<Rightarrow> Some (s, Panic)
        | Some res \<Rightarrow>
            (let body = (case res of Ok b \<Rightarrow> b | _ \<Rightarrow> upBody resp) in
             case injectBoot d w r body s of
               None \<Rightarrow> None
             | Some (s', body') \<Rightarrow> Some (s', Ok (rewrittenReply resp body')))))"

definition serveUpstream :: "'m deps \<Rightarrow> World \<Rightarrow> Request \<Rightarrow> Server \<Rightarrow> (Server \<times> Reply outcome) option" where
  "serveUpstream d w r s =
     (if RackUpstream (cfg s) = [] then Some (s, Ok (HttpError 503 ''upstream rack proxy not configured''))
      else (let upReq = upstreamRequest (cfg s) r in
        if \<not> newRequestOk d (upMethod upReq) (upURL upReq) then Some (s, Ok (HttpError 500 ''bad upstream request''))
        else (case roundTrip d upReq of
            None \<Rightarrow> Some (s, Ok (HttpError 502 ''upstream unreachable''))
          | Some resp \<Rightarrow>
              if isBinary (URLPath r) \<or> Method r \<noteq> ''GET'' then Some (s, Ok (streamReply resp))
              else serveRewritten d w r resp s)))"

definition ServeHTTP :: "'m deps \<Rightarrow> World \<Rightarrow> Request \<Rightarrow> Server \<Rightarrow> (Server \<times> Reply outcome) option" where
  "ServeHTTP d w r s =
     (if URLPath r = genericISOPath then Some (serveGeneric w r s)
      else if URLPath r = overlayPath \<or> URLPath r = bondOverlayPath then Some (s, Ok (serveOverlay d s))
      else (case submatch isoRe (URLPath r) of
          Some rawMAC \<Rightarrow> serveNodeISO d w r rawMAC s
        | None \<Rightarrow> serveUpstream d w r s))"

section \<open>Start-up\<close>

text \<open>
  \<open>main\<close> up to the start of the watcher and of the listener: the server, the listen address and the reload interval,
  given the environment, the clock, the config file as \<open>loadConfigFile\<close> reads it, the iPXE binary, and the two files as the first
  \<open>Reload\<close> reads them.
\<close>

definition envOverrides :: "(string \<Rightarrow> string) \<Rightarrow> Config" where
  "envOverrides getenv = zeroConfig\<lparr>RackUpstream := env getenv ''RACK_UPSTREAM'' [],
     ProxyBase := env getenv ''PROXY_BASE'' [], OverlayURL := env getenv ''OVERLAY_URL'' []\<rparr>"

definition main :: "codec \<Rightarrow> (string \<Rightarrow> int option) \<Rightarrow> (string \<Rightarrow> string) \<Rightarrow> int \<Rightarrow> FileRead \<Rightarrow> FileRead \<Rightarrow> files
    \<Rightarrow> Server \<times> string \<times> int" where
  "main js parseDuration getenv now configFile ipxeFile fs =
     (let ov = envOverrides getenv;
          c = applyOverrides (case loadConfigFile js configFile of Some c \<Rightarrow> c | None \<Rightarrow> zeroConfig) ov;
          srv = (NewServer now c (env getenv ''CONFIG_PATH'' ''/etc/genesis/config.json'')
             (env getenv ''NODES_PATH'' ''/etc/maas-boot-proxy/nodes/nodes.json'') (30 * minute) (2 * minute))
             \<lparr>overrides := ov, missWait := envDuration parseDuration getenv ''NODE_MISS_WAIT'' 0,
              ipxeEFI := (case ipxeFile of Contents b \<Rightarrow> bytes_of b | _ \<Rightarrow> [])\<rparr>
      in (fst (Reload js fs srv), env getenv ''LISTEN_ADDR'' defaultListenAddr,
          envDuration parseDuration getenv ''RELOAD_INTERVAL'' defaultReloadInterval))"

lemma envDuration_nonneg: "0 \<le> d \<Longrightarrow> 0 \<le> envDuration parse getenv k d"
  by (simp add: envDuration_def split: option.splits)

section \<open>Lemmas on the ISO endpoints\<close>

lemma buildBootISO_no_panic: "buildBootISO efi script \<noteq> Panic"
  using buildBootISO_layout [of efi script]
  by (cases rule: buildESPImage_cases [of script efi]; cases "efi = []") (auto simp: buildBootISO_def)

lemma builders_no_panic: "BuildNodeISO efi n mac base \<noteq> Panic" "BuildGenericISO efi base \<noteq> Panic"
  by (simp_all add: BuildNodeISO_def BuildGenericISO_def buildBootISO_no_panic)

lemma cachedISO_wf:
  assumes "wfCache c"
  shows "wfCache (fst (cachedISO w key h b c))"
proof -
  obtain c' found where get: "GetISO (clkSince w) (clkNow w) key c = (c', found)" by fastforce
  have "wfCache c'" using wfCache_Get [OF assms, of "clkSince w" "clkNow w" key] get by simp
  then show ?thesis
    by (cases b) (auto simp: cachedISO_def get SetISO_def wfCache_def Let_def)
qed

lemma serveISO_ends:
  assumes "wfServer s" "b \<noteq> Panic"
  shows "\<exists>c rep. serveISO w key h b name s = (s\<lparr>isoCache := c\<rparr>, Ok rep) \<and> wfServer (s\<lparr>isoCache := c\<rparr>)"
proof -
  obtain c r where cr: "cachedISO w key h b (isoCache s) = (c, r)" by fastforce
  have "r \<noteq> Panic" using cr assms(2) by (auto simp: cachedISO_def split: prod.splits if_splits outcome.splits)
  moreover have "wfCache c" using cachedISO_wf [of "isoCache s" w key h b] assms(1) cr by (simp add: wfServer_def)
  ultimately show ?thesis using assms(1) cr by (cases r) (auto simp: serveISO_def wfServer_def)
qed

section \<open>Lemmas on whole requests\<close>

text \<open>The clock of a request: polls are paced and start after the request.\<close>

definition wfWorld :: "World \<Rightarrow> bool" where
  "wfWorld w \<longleftrightarrow> paced (resPolls w) \<and> resStart w \<le> pollNow (resPolls w 0)"

lemma resolve_total:
  assumes "wfServer s" "wfWorld w"
  obtains s' where "resolveNode js (resStart w) (resPolls w) mac s =
      Some (s', if normalizeKey mac = [] then None else lookup s' (normalizeKey mac))"
    "wfServer s'" "settings s' = settings s"
  using resolveNode_ends [of s "resPolls w" "resStart w" js mac] assms reloads_wf [of s js "resPolls w"]
  by (auto simp: wfWorld_def)

lemma serveNodeISO_ends:
  assumes "wfServer s" "wfWorld w"
  shows "\<exists>s' rep. serveNodeISO d w r raw s = Some (s', Ok rep) \<and> wfServer s'"
proof -
  obtain s' x where res: "resolveNode (json d) (resStart w) (resPolls w) (requestMAC raw) s = Some (s', x)" "wfServer s'"
    using assms by (rule resolve_total) blast
  show ?thesis
  proof (cases x)
    case None
    then show ?thesis using res by (simp add: serveNodeISO_def Let_def)
  next
    case (Some node)
    then show ?thesis
      using res serveISO_ends [OF res(2) builders_no_panic(1)] by (fastforce simp: serveNodeISO_def Let_def)
  qed
qed

lemma serveUpstream_ends:
  assumes "wfServer s" "wfWorld w"
  shows "\<exists>s' rep. serveUpstream d w r s = Some (s', Ok rep) \<and> wfServer s'"
proof -
  obtain s' x where res: "resolveNode (json d) (resStart w) (resPolls w) (ipxeMAC r) s = Some (s', x)" "wfServer s'"
    using assms by (rule resolve_total) blast
  then have inj: "\<exists>s' b'. injectBoot d w r b s = Some (s', b') \<and> wfServer s'" for b
    using assms(1) by (cases x) (auto simp: injectBoot_def Let_def)
  have "\<exists>s' rep. serveRewritten d w r resp s = Some (s', Ok rep) \<and> wfServer s'" for resp
  proof -
    obtain b where "rewriteData (archives d) (upBody resp) (proxyBaseOf (cfg s) r) (Rewrites (cfg s)) = Some (Ok b)"
      using rewriteData_Ok by blast
    then show ?thesis using inj [of b] assms(1) by (auto simp: serveRewritten_def)
  qed
  then show ?thesis
    using assms(1) by (auto simp: serveUpstream_def Let_def split: option.splits)
qed

section \<open>Lemmas on the transparency of the cache\<close>

primrec mapOutcome :: "('a \<Rightarrow> 'b) \<Rightarrow> 'a outcome \<Rightarrow> 'b outcome" where
  "mapOutcome f Panic = Panic"
| "mapOutcome f (Err e) = Err e"
| "mapOutcome f (Ok x) = Ok (f x)"

text \<open>A call: the clock it meets, the node, its MAC and the base URL.\<close>

type_synonym isoCall = "World \<times> Node \<times> string \<times> string"

definition nodeISO :: "bytes \<Rightarrow> isoCall \<Rightarrow> bytes outcome" where
  "nodeISO efi = (\<lambda>(w, n, mac, base). BuildNodeISO efi n mac base)"

definition nodeHash :: "isoCall \<Rightarrow> string" where
  "nodeHash = (\<lambda>(w, n, mac, base). ComputeNodeConfigHash n mac base)"

definition callInput :: "isoCall \<Rightarrow> string" where
  "callInput = (\<lambda>(w, n, mac, base). hashInput n mac base)"

definition cleanCall :: "isoCall \<Rightarrow> bool" where
  "cleanCall = (\<lambda>(w, n, mac, base). hashable n \<and> newline \<notin> set mac \<and> newline \<notin> set base)"

fun isoRun :: "bytes \<Rightarrow> isoCall list \<Rightarrow> ISOCache \<Rightarrow> CachedISO outcome list" where
  "isoRun efi [] c = []"
| "isoRun efi (call # calls) c =
     (case cachedISO (fst call) (fst (snd (snd call))) (nodeHash call) (nodeISO efi call) c of
        (c', r) \<Rightarrow> r # isoRun efi calls c')"

text \<open>Every cached image was built for one of the calls that were made.\<close>

definition cachedFrom :: "bytes \<Rightarrow> isoCall set \<Rightarrow> ISOCache \<Rightarrow> bool" where
  "cachedFrom efi H c \<longleftrightarrow> (\<forall>k e. mapGet (isos c) k = Some e \<longrightarrow>
     (\<exists>call \<in> H. ConfigHash e = nodeHash call \<and> nodeISO efi call = Ok (Data e)))"

lemma cachedFrom_Get:
  assumes "cachedFrom efi H c" "GetISO t t' key c = (c', found)"
  shows "cachedFrom efi H c'"
    "found = Some e \<Longrightarrow> \<exists>call \<in> H. ConfigHash e = nodeHash call \<and> nodeISO efi call = Ok (Data e)"
  using assms
  by (auto simp: cachedFrom_def GetISO_def Let_def split: option.splits if_splits)

lemma cachedFrom_Set:
  assumes "cachedFrom efi H c" "call \<in> H" "nodeISO efi call = Ok data"
  shows "cachedFrom efi H (fst (SetISO t key (nodeHash call) data c))"
  unfolding cachedFrom_def
proof (intro allI impI)
  fix k e
  assume "mapGet (isos (fst (SetISO t key (nodeHash call) data c))) k = Some e"
  then show "\<exists>call \<in> H. ConfigHash e = nodeHash call \<and> nodeISO efi call = Ok (Data e)"
    using assms by (cases "k = cacheKey key") (auto simp: SetISO_def Let_def cachedFrom_def)
qed

lemma nodeISO_same_hash:
  assumes "cleanCall a" "cleanCall b" "callInput a = callInput b"
  shows "nodeISO efi a = nodeISO efi b"
proof -
  obtain w n mac base w' n' mac' base' where ab: "a = (w, n, mac, base)" "b = (w', n', mac', base')" by (cases a; cases b)
  then have "n = n'" "mac = mac'" "trimRight (CHR ''/'') base = trimRight (CHR ''/'') base'"
    using hashInput_inject [of n n' mac mac' base base'] assms by (auto simp: cleanCall_def callInput_def)
  then show ?thesis using script_by_base [of base base' n mac] by (simp add: ab nodeISO_def BuildNodeISO_def)
qed

lemma isoRun_transparent:
  assumes "cachedFrom efi H c" "\<forall>call \<in> H \<union> set calls. cleanCall call"
    and "\<forall>a \<in> H \<union> set calls. \<forall>b \<in> H \<union> set calls. nodeHash a = nodeHash b \<longrightarrow> callInput a = callInput b"
  shows "map (mapOutcome Data) (isoRun efi calls c) = map (nodeISO efi) calls"
  using assms
proof (induction calls arbitrary: H c)
  case (Cons call calls)
  let ?key = "fst (snd (snd call))" and ?H = "insert call H"
  obtain c1 found where get: "GetISO (clkSince (fst call)) (clkNow (fst call)) ?key c = (c1, found)" by fastforce
  note from1 = cachedFrom_Get [OF Cons.prems(1) get]
  obtain c' r where cr: "cachedISO (fst call) ?key (nodeHash call) (nodeISO efi call) c = (c', r)" by fastforce
  have mono: "cachedFrom efi ?H c1" using from1(1) by (auto simp: cachedFrom_def)
  have "mapOutcome Data r = nodeISO efi call \<and> cachedFrom efi ?H c'"
  proof (cases "found \<noteq> None \<and> ConfigHash (the found) = nodeHash call")
    case True
    then obtain e where e: "found = Some e" "ConfigHash e = nodeHash call" by auto
    obtain b where b: "b \<in> H" "ConfigHash e = nodeHash b" "nodeISO efi b = Ok (Data e)"
      using from1(2) [OF e(1)] by (elim bexE conjE)
    have "cleanCall b" "cleanCall call" using Cons.prems(2) b(1) by simp_all
    moreover have "callInput b = callInput call" using Cons.prems(3) b(1,2) e(2) by simp
    ultimately have "nodeISO efi b = nodeISO efi call" by (rule nodeISO_same_hash)
    moreover have "(c', r) = (c1, Ok e)" using cr unfolding cachedISO_def get prod.case if_P [OF True] by (simp add: e)
    ultimately show ?thesis using b(3) mono by simp
  next
    case miss: False
    show ?thesis
    proof (cases "nodeISO efi call")
      case (Ok data)
      have "cachedFrom efi ?H (fst (SetISO (clkSet (fst call)) ?key (nodeHash call) data c1))"
        using mono Ok by (intro cachedFrom_Set) auto
      moreover have "(c', r) = (fst (SetISO (clkSet (fst call)) ?key (nodeHash call) data c1),
          Ok (snd (SetISO (clkSet (fst call)) ?key (nodeHash call) data c1)))"
        using cr unfolding cachedISO_def get prod.case if_not_P [OF miss] Ok outcome.case by (simp add: split_beta)
      ultimately show ?thesis using Ok by (simp add: SetISO_def Let_def)
    qed (use cr miss mono in \<open>auto simp: cachedISO_def get\<close>)
  qed
  moreover have "H \<union> set (call # calls) = ?H \<union> set calls" by simp
  then have "map (mapOutcome Data) (isoRun efi calls c') = map (nodeISO efi) calls"
    using Cons.prems(2,3) calculation by (intro Cons.IH [of ?H]) (simp_all only:)
  ultimately show ?case using cr by simp
qed simp

section \<open>Lemmas on routes\<close>

lemma isoRe_tail:
  "matchAt [Mark, Opt ''.iso'', EndText] p t =
    (if t = ''.iso'' then Some (4, [0]) else if t = [] then Some (0, [0]) else None)"
proof -
  have "matchAt [Opt ''.iso'', EndText] p t = (if t = ''.iso'' then Some (4, []) else if t = [] then Some (0, []) else None)"
    by (auto simp: isMark_def hasPrefix_conv)
  then show ?thesis by (simp only: matchAt_Mark) simp
qed

lemma isoRe_match:
  assumes "m \<noteq> []" "list_all macChar m" "t = [] \<or> t = ''.iso''"
  shows "submatch isoRe (''/iso/'' @ m @ t) = Some m"
proof -
  let ?f = "\<lambda>n. map_option (\<lambda>(e, ms). (n + e, map ((+) n) ms))
    (matchAt [Mark, Opt ''.iso'', EndText] (advance (prevOf None ''/iso/'') (m @ t) n) (drop n (m @ t)))"
  have no: "\<not> macChar (CHR ''i'')" by (simp add: macChar_def isHex_def hexVal_def code_def)
  have 1: "?f k = None" if "k < length m" for k
  proof -
    have c: "drop k (m @ t) = m ! k # drop (Suc k) m @ t" using that by (simp add: Cons_nth_drop_Suc)
    have "\<forall>x \<in> set (drop (Suc k) m). macChar x" using assms(2) by (auto simp: list_all_iff dest: in_set_dropD)
    then have "m ! k # drop (Suc k) m @ t \<noteq> ''.iso''"
      using no assms(3) by (cases "drop (Suc k) m") auto
    then show ?thesis unfolding c isoRe_tail by simp
  qed
  have 2: "?f (length m) = Some (length m + length t, [length m])"
    unfolding isoRe_tail using assms(3) by auto
  have 3: "length m < Suc (repLen macChar None (m @ t))" "1 \<le> length m"
    using assms(1,2) by (simp_all add: repLen_def list_all_iff takeWhile_append2 Suc_le_eq)
  have "firstSome ?f [1 ..< Suc (repLen macChar None (m @ t))] = Some (length m + length t, [length m])"
    by (rule firstSome_up [where f = ?f, OF 2 1 3(2,1)])
  then have "matchAt isoRe None (''/iso/'' @ m @ t) = Some (5 + (length m + length t), [5, 5 + length m])"
    unfolding isoRe_def matchAt_BeginText if_P [OF refl] matchAt_Lit matchAt_Mark [of "Rep _ _ _ _ # _"] matchAt_lazy
    by (simp only: option.map prod.case) simp
  then have "findRe isoRe None ([] @ ''/iso/'' @ m @ t) = Some (length [], 5 + (length m + length t), [5, 5 + length m])"
    unfolding findRe_Some by simp
  moreover have "rd 5 (length m) (''/iso/'' @ m @ t) = m" by (simp add: rd_def)
  ultimately show ?thesis unfolding submatch_def by simp
qed

lemma findRe_BeginText: "findRe (BeginText # its) None s = map_option (\<lambda>m. (0, m)) (matchAt its None s)"
proof -
  have "findRe (BeginText # its) (Some c) s = None" for c s
    by (induction s arbitrary: c) (simp_all only: findRe.simps matchAt_BeginText, simp_all)
  then show ?thesis by (cases s) (simp_all only: findRe.simps matchAt_BeginText, simp_all split: option.splits)
qed

text \<open>Conversely, no other path is taken for a node ISO.\<close>

lemma isoRe_only:
  assumes "submatch isoRe p = Some raw"
  shows "raw \<noteq> [] \<and> list_all macChar raw \<and> (p = ''/iso/'' @ raw \<or> p = ''/iso/'' @ raw @ ''.iso'')"
proof -
  let ?its = "[Mark, Rep False macChar 1 None, Mark, Opt ''.iso'', EndText]"
  obtain m where m: "matchAt (Lit ''/iso/'' # ?its) None p = Some m"
    and raw: "(case (0, m) of (i, e, [a, b]) \<Rightarrow> Some (rd (i + a) (b - a) p) | _ \<Rightarrow> None) = Some raw"
    using assms unfolding submatch_def isoRe_def findRe_BeginText
    by (cases "matchAt (Lit ''/iso/'' # ?its) None p") (simp_all only: option.map option.case, blast)
  obtain q where q: "p = ''/iso/'' @ q" using m matchAt_Lit_None [of p "''/iso/''" ?its None] unfolding hasPrefix_conv by fastforce
  let ?f = "\<lambda>n. map_option (\<lambda>(e, ms). (n + e, map ((+) n) ms))
    (matchAt [Mark, Opt ''.iso'', EndText] (advance (prevOf None ''/iso/'') q n) (drop n q))"
  have "Some m = map_option (\<lambda>(e, ms). (length ''/iso/'' + e, map ((+) (length ''/iso/'')) ms))
      (map_option (\<lambda>(e, ms). (e, 0 # ms)) (firstSome ?f [1 ..< Suc (repLen macChar None q)]))"
    using m unfolding q matchAt_Lit matchAt_Mark [of "Rep _ _ _ _ # _"] matchAt_lazy by (rule sym)
  then obtain e ms where f: "firstSome ?f [1 ..< Suc (repLen macChar None q)] = Some (e, ms)"
    and m': "m = (length ''/iso/'' + e, map ((+) (length ''/iso/'')) (0 # ms))"
    by (cases "firstSome ?f [1 ..< Suc (repLen macChar None q)]") (auto simp only: option.map prod.case option.inject option.distinct)
  obtain n where n: "1 \<le> n" "n \<le> repLen macChar None q" "ms = [n]" "drop n q = ''.iso'' \<or> drop n q = []"
    using firstSome_Some [OF f] unfolding isoRe_tail by (auto split: if_splits)
  have "raw = take n q" using raw unfolding m' n(3) q rd_def by simp
  moreover have len: "n \<le> length (takeWhile macChar q)" using n(2) by (simp add: repLen_def)
  have "macChar (q ! i)" if "i < n" for i
    using that len nth_mem [of i "takeWhile macChar q"] set_takeWhileD [of _ macChar q] by (auto simp: takeWhile_nth)
  then have "list_all macChar (take n q)" by (auto simp: list_all_length)
  moreover have "n \<le> length q" using len length_takeWhile_le [of macChar q] by linarith
  moreover have "q = take n q @ ''.iso'' \<or> q = take n q" using n(4) append_take_drop_id [of n q] by (metis append_Nil2)
  ultimately show ?thesis using n(1) by (auto simp: q)
qed

lemma requestMAC_key: "normalizeKey (requestMAC raw) = normalizeKey raw"
  by (simp add: requestMAC_def normalizeKey_def trimSpace_toLower)

lemma macChars_key:
  assumes "m \<noteq> []" "list_all macChar m"
  shows "normalizeKey m \<noteq> []"
proof -
  have "\<not> isSpace c" if "macChar c" for c
    using that isHex_not_space [of c] by (auto simp: macChar_def isSpace_def code_def)
  then have "trimSpace m = m" using assms by (intro trimSpace_id) (auto simp: list_all_iff)
  then show ?thesis using assms(1) by (simp add: normalizeKey_def)
qed

section \<open>Lemmas on injected text\<close>

lemma indexOf_first: "indexOf (a @ b @ r) t = Some (length (a @ b)) \<Longrightarrow> b \<noteq> [] \<Longrightarrow> \<not> hasPrefix (b @ r) t"
proof (induction a)
  case Nil
  then show ?case by (cases b) (auto split: if_splits)
qed (auto split: if_splits)

lemma bootif_later:
  assumes "0 < i" "i \<le> 6" "y = [] \<or> \<not> notBlank (hd y)"
  shows "\<not> hasPrefix (drop i ''BOOTIF'' @ y) ''BOOTIF''"
proof
  assume "hasPrefix (drop i ''BOOTIF'' @ y) ''BOOTIF''"
  then obtain r where r: "drop i ''BOOTIF'' @ y = CHR ''B'' # r" by (auto simp: hasPrefix_conv)
  show False
  proof (cases "drop i ''BOOTIF''")
    case Nil
    with r have "hd y = CHR ''B''" "y \<noteq> []" by simp_all
    with assms(3) show False by (simp add: notBlank_def code_def)
  next
    case (Cons c cs)
    have "c \<in> set (drop 1 ''BOOTIF'')"
      using Cons assms(1) set_drop_subset_set_drop [of 1 i "''BOOTIF''"] by (auto simp del: drop_Suc_Cons)
    with Cons r show False by auto
  qed
qed

lemma ipCmd_match:
  assumes "list_all notBlank m" "y = [] \<or> \<not> notBlank (hd y)"
  shows "matchAt ipCmdRe p (''ip='' @ m @ ''BOOTIF'' @ y) = Some (length (''ip='' @ m @ ''BOOTIF''), [])"
proof -
  let ?t = "m @ ''BOOTIF'' @ y"
  let ?f = "\<lambda>n. map_option (\<lambda>(e, ms). (n + e, map ((+) n) ms)) (matchAt [Lit ''BOOTIF''] (advance (prevOf p ''ip='') ?t n) (drop n ?t))"
  have "takeWhile notBlank y = []" using assms(2) by (cases y) auto
  then have "takeWhile notBlank ((m @ ''BOOTIF'') @ y) = m @ ''BOOTIF''"
    using assms(1) by (subst takeWhile_append2) (auto simp: list_all_iff notBlank_def code_def)
  then have n: "repLen notBlank None ?t = length m + 6" by (simp add: repLen_def)
  have 1: "?f (length m) = Some (length m + 6, [])" unfolding matchAt_Lit_last by (simp add: hasPrefix_def)
  have 2: "?f k = None" if "length m < k" "k < Suc (repLen notBlank None ?t)" for k
  proof -
    have k: "length m < k" "k \<le> length m + 6" using that unfolding n by simp_all
    have "drop k (m @ b @ y) = drop (k - length m) b @ y" if "k \<le> length m + length b" for b using that k(1) by simp
    from this [of "''BOOTIF''"] have "drop k ?t = drop (k - length m) ''BOOTIF'' @ y" using k(2) by simp
    moreover have "\<not> hasPrefix (drop (k - length m) ''BOOTIF'' @ y) ''BOOTIF''"
      using k by (intro bootif_later assms(2)) simp_all
    ultimately show ?thesis unfolding matchAt_Lit_last by (simp only: if_False option.map simp_thms)
  qed
  have "firstSome ?f (rev [0 ..< Suc (repLen notBlank None ?t)]) = Some (length m + 6, [])"
    by (rule firstSome_down [where f = ?f, OF 1 2]) (unfold n, simp_all)
  then show ?thesis
    unfolding ipCmdRe_def matchAt_Lit matchAt_greedy by (simp only: option.map prod.case) simp
qed

lemma ipCmd_none: "\<not> hasPrefix s ''ip='' \<Longrightarrow> matchAt ipCmdRe p s = None"
  unfolding ipCmdRe_def by (rule matchAt_Lit_None)

lemma injectNet_once:
  assumes "list_all notBlank m" "y = [] \<or> \<not> notBlank (hd y)" "\<not> contains y ''ip=''"
    and "indexOf (x @ ''ip='' @ m @ ''BOOTIF'' @ y) ''ip='' = Some (length x)" "CHR ''$'' \<notin> set (buildKernelNet n)"
  shows "injectNet n (x @ ''ip='' @ m @ ''BOOTIF'' @ y) = x @ buildKernelNet n @ y"
proof -
  let ?m = "''ip='' @ m @ ''BOOTIF''"
  have "matchAt ipCmdRe (prevOf None a) (b @ ?m @ y) = None" if "x = a @ b" "b \<noteq> []" for a b
    using indexOf_first [of a b "?m @ y"] assms(4) that by (intro ipCmd_none) simp
  then have "findRe ipCmdRe None (x @ ?m @ y) = Some (length x, length ?m, [])"
    using ipCmd_match [OF assms(1,2)] unfolding findRe_Some by simp
  moreover from replaceRe_find [OF this] have "replaceRe ipCmdRe (buildKernelNet n) None (x @ ?m @ y) =
      x @ expand (buildKernelNet n) ?m @ replaceRe ipCmdRe (buildKernelNet n) (prevOf None ?m) y" by simp
  moreover have "findRe ipCmdRe p y = None" for p
    using assms(3) unfolding findRe_None contains_conv by (intro allI impI ipCmd_none) (auto simp: hasPrefix_conv)
  ultimately show ?thesis
    using expand_plain [OF assms(5)] by (simp add: injectNet_def matchRe_def replaceAllRe_def replaceRe_none)
qed

lemma lastIndex_Some:
  "lastIndex s t = Some i \<Longrightarrow> i \<le> length s \<and> hasPrefix (drop i s) t \<and> (\<forall>j. i < j \<and> j \<le> length s \<longrightarrow> \<not> hasPrefix (drop j s) t)"
proof (induction s arbitrary: i)
  case (Cons c s)
  show ?case
  proof (cases "lastIndex s t")
    case None
    have none: "lastIndex u t = None \<Longrightarrow> j \<le> length u \<Longrightarrow> \<not> hasPrefix (drop j u) t" for u j
    proof (induction u arbitrary: j)
      case (Cons d u)
      then show ?case by (cases j) (auto split: option.splits if_splits)
    qed (auto simp: hasPrefix_def split: if_splits)
    from None Cons.prems have i: "i = 0" "hasPrefix (c # s) t" by (auto split: if_splits)
    then show ?thesis using none [OF None] by (auto simp: less_Suc_eq_0_disj gr0_conv_Suc)
  next
    case (Some k)
    with Cons.prems have "i = Suc k" by simp
    with Cons.IH [OF Some] show ?thesis by (auto simp: Suc_less_eq2)
  qed
qed (auto simp: hasPrefix_def split: if_splits)

lemma lastIndex_None: "lastIndex s t = None \<longleftrightarrow> \<not> contains s t"
  by (induction s) (auto simp: contains_def split: option.splits)

section \<open>Lemmas on start-up\<close>

lemma main_server:
  "wfServer (fst (main js dur getenv now configFile ipxeFile fs))"
  "overrides (fst (main js dur getenv now configFile ipxeFile fs)) = envOverrides getenv"
  "isoCache (fst (main js dur getenv now configFile ipxeFile fs)) = fst (NewISOCache (30 * minute) (2 * minute))"
  "ipxeEFI (fst (main js dur getenv now configFile ipxeFile fs)) = (case ipxeFile of Contents b \<Rightarrow> bytes_of b | _ \<Rightarrow> [])"
proof -
  define s where "s = (NewServer now (applyOverrides (case loadConfigFile js configFile of Some c \<Rightarrow> c | None \<Rightarrow> zeroConfig) (envOverrides getenv))
      (env getenv ''CONFIG_PATH'' ''/etc/genesis/config.json'')
      (env getenv ''NODES_PATH'' ''/etc/maas-boot-proxy/nodes/nodes.json'') (30 * minute) (2 * minute))
      \<lparr>overrides := envOverrides getenv, missWait := envDuration dur getenv ''NODE_MISS_WAIT'' 0,
       ipxeEFI := (case ipxeFile of Contents b \<Rightarrow> bytes_of b | _ \<Rightarrow> [])\<rparr>"
  have nodes: "wfMap (Nodes c) \<and> (\<forall>k \<in> set (keys (Nodes c)). normalizeKey k = k)"
    if "c = (case loadConfigFile js configFile of Some c \<Rightarrow> c | None \<Rightarrow> zeroConfig)" for c
    using that by (auto simp: loadConfigFile_def zeroConfig_def normalizeNodeKeys_eq normalizeEntries_wf simp del: set_map
        split: FileRead.splits sum.splits)
  have "wfServer s" using nodes
    by (simp add: s_def wfServer_def NewServer_def wfStore_New wfCache_New inForce_apply envDuration_nonneg del: set_map)
  moreover have "fst (main js dur getenv now configFile ipxeFile fs) = fst (Reload js fs s)" by (simp add: main_def s_def Let_def)
  ultimately show "wfServer (fst (main js dur getenv now configFile ipxeFile fs))"
    "overrides (fst (main js dur getenv now configFile ipxeFile fs)) = envOverrides getenv"
    "isoCache (fst (main js dur getenv now configFile ipxeFile fs)) = fst (NewISOCache (30 * minute) (2 * minute))"
    "ipxeEFI (fst (main js dur getenv now configFile ipxeFile fs)) = (case ipxeFile of Contents b \<Rightarrow> bytes_of b | _ \<Rightarrow> [])"
    using Reload_settings [of js fs s] by (simp_all add: settings_def) (simp_all add: s_def NewServer_def)
qed

section \<open>Lemmas on proxied replies\<close>

lemma contentLength_key: "canonicalKey ''Content-Length'' = ''Content-Length''"
  by (simp add: canonicalKey_def tokenChar_def upperChar_def lowerChar_def code_def)

lemma rewrittenReply_values:
  assumes "wfHeader (upHeader resp)"
  obtains h where "rewrittenReply resp b = Respond (upStatus resp) h b" "valuesOf h ''Content-Length'' = [show_nat (length b)]"
    "\<And>k. \<not> equalFold k ''Content-Length'' \<Longrightarrow> valuesOf h k = valuesOf (upHeader resp) k"
proof -
  let ?h = "headerSet ''Content-Length'' (show_nat (length b)) (copyHeader (\<lambda>k. equalFold k ''Content-Length'') (upHeader resp) [])"
  have "rewrittenReply resp b = Respond (upStatus resp) ?h b" by (simp add: rewrittenReply_def)
  moreover have "valuesOf ?h ''Content-Length'' = [show_nat (length b)]"
    unfolding headerSet_def contentLength_key by (simp add: valuesOf_def)
  moreover have "valuesOf ?h k = valuesOf (upHeader resp) k" if "\<not> equalFold k ''Content-Length''" for k
  proof -
    have "k \<noteq> ''Content-Length''" using that by (auto simp: equalFold_def)
    then show ?thesis
      using copyHeader_values [OF assms, of "\<lambda>k. equalFold k ''Content-Length''" "[]" k] that
      unfolding headerSet_def contentLength_key by (simp add: valuesOf_def)
  qed
  ultimately show thesis by (rule that)
qed

lemma streamReply_values:
  assumes "wfHeader (upHeader resp)"
  obtains h where "streamReply resp = Respond (upStatus resp) h (upBody resp)" "valuesOf h = valuesOf (upHeader resp)"
proof -
  have "valuesOf (copyHeader (\<lambda>_. False) (upHeader resp) []) = valuesOf (upHeader resp)"
    using copyHeader_values [OF assms, of "\<lambda>_. False" "[]"] by (intro ext) (simp add: valuesOf_def)
  then show thesis using that by (simp add: streamReply_def)
qed

text \<open>A request and its surroundings, for the examples below.\<close>

definition sampleResponse :: UpResponse where
  "sampleResponse = \<lparr>upStatus = 200, upHeader = [(''Content-Length'', [''3''])], upBody = ''abc'', upBodyErr = False\<rparr>"

definition sampleDeps :: "unit deps" where
  "sampleDeps = \<lparr>json = sampleCodec, archives = sampleArchive, newRequestOk = (\<lambda>_ _. True),
     roundTrip = (\<lambda>u. Some sampleResponse), overlayCPIO = []\<rparr>"

definition proxyServer :: Server where
  "proxyServer = sampleServer\<lparr>cfg := zeroConfig\<lparr>RackUpstream := ''http://r''\<rparr>\<rparr>"

definition sampleWorld :: World where
  "sampleWorld = \<lparr>clkSince = 0, clkNow = 0, clkSet = 0, resStart = 0, resPolls = samplePolls\<rparr>"

definition sampleRequest :: Request where
  "sampleRequest = \<lparr>Method = ''GET'', URLPath = ''/iso/02-00-00-00-00-01.iso'', RawQuery = ''genesis=02:00&a=b'', Host = ''h'',
     ReqHeader = [(''Accept-Encoding'', [''gzip''])], RemoteAddr = [], Body = []\<rparr>"

lemma sampleWorld_wf: "wfWorld sampleWorld"
  by (simp add: sampleWorld_def wfWorld_def paced_def samplePolls_def algebra_simps)

lemma sampleHeaders_wf: "wfHeader [(''Content-Length'', [''3''])]" "wfHeader [(''Accept-Encoding'', [''gzip''])]"
  by (simp_all add: wfHeader_def wfQuery_def wfMap_def mapGet_def canonicalKey_def tokenChar_def upperChar_def lowerChar_def code_def)

section \<open>Properties\<close>

text \<open>
  Every request is answered: in a well-formed server, with a clock that advances between the polls, the handler ends
  without a panic, whatever the files, the upstream and the archive packages do, and leaves a well-formed server.
\<close>

lemma request_answered:
  assumes "wfServer s" "wfWorld w"
  shows "\<exists>s' rep. ServeHTTP d w r s = Some (s', Ok rep) \<and> wfServer s'"
proof (cases "URLPath r = genericISOPath")
  case True
  have "serveGeneric w r s = serveISO w genericISOKey (GenericConfigHash (proxyBaseOf (cfg s) r))
      (BuildGenericISO (ipxeEFI s) (proxyBaseOf (cfg s) r)) ''generic-boot.iso'' s"
    by (simp add: serveGeneric_def Let_def)
  moreover obtain c rep where "serveISO w genericISOKey (GenericConfigHash (proxyBaseOf (cfg s) r))
      (BuildGenericISO (ipxeEFI s) (proxyBaseOf (cfg s) r)) ''generic-boot.iso'' s = (s\<lparr>isoCache := c\<rparr>, Ok rep)"
    "wfServer (s\<lparr>isoCache := c\<rparr>)"
    using serveISO_ends [OF assms(1) builders_no_panic(2)] by blast
  ultimately show ?thesis using True by (simp add: ServeHTTP_def)
next
  case False
  consider "URLPath r = overlayPath \<or> URLPath r = bondOverlayPath"
    | "\<not> (URLPath r = overlayPath \<or> URLPath r = bondOverlayPath)" "submatch isoRe (URLPath r) = None"
    | raw where "\<not> (URLPath r = overlayPath \<or> URLPath r = bondOverlayPath)" "submatch isoRe (URLPath r) = Some raw"
    by blast
  then show ?thesis
  proof cases
    case 1
    with False assms(1) show ?thesis by (simp add: ServeHTTP_def)
  next
    case 2
    with False serveUpstream_ends [OF assms, of d r] show ?thesis by (simp add: ServeHTTP_def)
  next
    case 3
    with False serveNodeISO_ends [OF assms, of d r raw] show ?thesis by (simp add: ServeHTTP_def)
  qed
qed

text \<open>
  C5. The ISO cache is invisible: for any sequence of requests for node ISOs, at any times, the images handed out are
  exactly those that building anew for each request would give, errors included, as long as no two of the requests
  have a colliding digest, and their fields hold no line break and no bond member a comma.
\<close>

theorem cached_iso_transparent:
  assumes "\<forall>call \<in> set calls. cleanCall call"
    and "\<forall>a \<in> set calls. \<forall>b \<in> set calls. nodeHash a = nodeHash b \<longrightarrow> callInput a = callInput b"
  shows "map (mapOutcome Data) (isoRun efi calls (fst (NewISOCache d i))) = map (nodeISO efi) calls"
proof -
  have "cachedFrom efi {} (fst (NewISOCache d i))" by (simp add: cachedFrom_def NewISOCache_def)
  then show ?thesis by (rule isoRun_transparent) (unfold Un_empty_left, fact+)
qed

theorem cached_iso_transparent_witness:
  "map (mapOutcome Data) (isoRun [1] [(\<lparr>clkSince = 0, clkNow = 0, clkSet = 0, resStart = 0, resPolls = samplePolls\<rparr>, zeroNode, ''aa'', ''http://p''),
        (\<lparr>clkSince = 5, clkNow = 5, clkSet = 5, resStart = 5, resPolls = samplePolls\<rparr>, zeroNode, ''aa'', ''http://p/'')] (fst (NewISOCache 10 0)))
    = map (nodeISO [1]) [(\<lparr>clkSince = 0, clkNow = 0, clkSet = 0, resStart = 0, resPolls = samplePolls\<rparr>, zeroNode, ''aa'', ''http://p''),
        (\<lparr>clkSince = 5, clkNow = 5, clkSet = 5, resStart = 5, resPolls = samplePolls\<rparr>, zeroNode, ''aa'', ''http://p/'')]"
  by (rule cached_iso_transparent)
    (simp_all add: cleanCall_def callInput_def hashable_def zeroNode_def newline_def hashInput_def trimRight_def)

text \<open>
  C33. The route of a node ISO: a path is taken for a node ISO exactly when it is \<open>/iso/\<close> and an address, with or without the suffix \<open>.iso\<close>;
  it yields that address, in any notation, and the node is looked up under the normalised form of it.
\<close>

theorem iso_route:
  "(submatch isoRe p = Some m \<longleftrightarrow> m \<noteq> [] \<and> list_all macChar m \<and> (p = ''/iso/'' @ m \<or> p = ''/iso/'' @ m @ ''.iso''))
    \<and> normalizeKey (requestMAC m) = normalizeKey m"
  using isoRe_match [of m "''.iso''"] isoRe_match [of m "[]"] isoRe_only [of p m] requestMAC_key [of m] by auto










text \<open>
  C37. The initrd of the overlay is added as one line: directly before the last line that starts with \<open>boot\<close>, or at the end of a
  script without one; every other character of the script is kept.
\<close>

theorem inject_initrd_line:
  assumes "url \<noteq> []"
  shows "\<exists>x y. body = x @ y \<and> injectOverlayInitrd body url = x @ ''initrd '' @ url @ [newline] @ y \<and>
    (if contains body (newline # ''boot'')
     then x \<noteq> [] \<and> last x = newline \<and> hasPrefix y ''boot'' \<and> \<not> contains y (newline # ''boot'') else y = [])"
proof (cases "lastIndex body (newline # ''boot'')")
  case None
  then have "\<not> contains body (newline # ''boot'')" using lastIndex_None [of body] by blast
  with None assms show ?thesis by (simp add: injectOverlayInitrd_def)
next
  case (Some i)
  let ?t = "newline # ''boot''"
  from lastIndex_Some [OF Some] have i: "hasPrefix (drop i body) ?t" and
    later: "\<And>j. i < j \<Longrightarrow> j \<le> length body \<Longrightarrow> \<not> hasPrefix (drop j body) ?t" by auto
  obtain z where z: "drop i body = newline # ''boot'' @ z" using i by (auto simp: hasPrefix_conv)
  have len: "i < length body" using z by (cases "i < length body") simp_all
  then have nl: "body ! i = newline" and drop: "drop (i + 1) body = ''boot'' @ z"
    using z Cons_nth_drop_Suc [of i body] by simp_all
  have "\<not> contains (drop (i + 1) body) ?t"
  proof
    assume "contains (drop (i + 1) body) ?t"
    then obtain u v where uv: "drop (i + 1) body = u @ ?t @ v" unfolding contains_conv by blast
    have "drop (length u) (drop (i + 1) body) = ?t @ v" unfolding uv by simp
    then have "drop (length u + (i + 1)) body = ?t @ v" by (simp only: drop_drop)
    then have "hasPrefix (drop (i + 1 + length u) body) ?t" by (auto simp: hasPrefix_conv ac_simps)
    moreover have "i + 1 + length u \<le> length body" using arg_cong [OF uv, of length] by simp
    ultimately show False using later by simp
  qed
  moreover have "contains body ?t" using Some lastIndex_None [of body ?t] by auto
  moreover have "last (take (i + 1) body) = newline" "take (i + 1) body \<noteq> []" using len nl by (simp_all add: take_Suc_conv_app_nth)
  moreover have "hasPrefix (drop (i + 1) body) ''boot''" unfolding drop hasPrefix_conv by blast
  moreover have "injectOverlayInitrd body url = take (i + 1) body @ ''initrd '' @ url @ [newline] @ drop (i + 1) body"
    using Some assms by (simp add: injectOverlayInitrd_def)
  ultimately show ?thesis by (metis append_take_drop_id)
qed

theorem inject_initrd_line_witness:
  "\<exists>x y. ''kernel'' = x @ y \<and> injectOverlayInitrd ''kernel'' ''http://o'' = x @ ''initrd '' @ ''http://o'' @ [newline] @ y \<and>
    (if contains ''kernel'' (newline # ''boot'')
     then x \<noteq> [] \<and> last x = newline \<and> hasPrefix y ''boot'' \<and> \<not> contains y (newline # ''boot'') else y = [])"
  by (rule inject_initrd_line) simp

text \<open>
  C38. The address sent upstream is ambiguous: the path is used decoded, so that an escaped question mark of the request's
  path begins a query there, and two different requests become the same one.
\<close>

theorem upstream_path_ambiguous:
  assumes "q \<noteq> []" "firstValue (parseQuery q) ''genesis'' = []"
  shows "upstreamRequest c (r\<lparr>URLPath := p @ ''?'' @ q, RawQuery := []\<rparr>) = upstreamRequest c (r\<lparr>URLPath := p, RawQuery := q\<rparr>)"
  using assms by (simp add: upstreamRequest_def upstreamQuery_def upstreamURL_def)

theorem upstream_path_ambiguous_witness:
  "upstreamRequest zeroConfig (sampleRequest\<lparr>URLPath := ''/a'' @ ''?'' @ ''b=c'', RawQuery := []\<rparr>) =
    upstreamRequest zeroConfig (sampleRequest\<lparr>URLPath := ''/a'', RawQuery := ''b=c''\<rparr>)"
  by (rule upstream_path_ambiguous) (simp, code_simp)

text \<open>
  Start-up establishes what the requests rely on: the server is well formed whatever the files hold and the environment says,
  the settings of the environment are in force over the config file, and the watcher gets a period it can tick with.
\<close>

lemma main_establishes:
  "wfServer (fst (main js dur getenv now configFile ipxeFile fs))
    \<and> overrides (fst (main js dur getenv now configFile ipxeFile fs)) = envOverrides getenv
    \<and> inForce (envOverrides getenv) (cfg (fst (main js dur getenv now configFile ipxeFile fs)))
    \<and> 0 < watchInterval (snd (snd (main js dur getenv now configFile ipxeFile fs)))"
proof -
  have "0 < watchInterval (snd (snd (main js dur getenv now configFile ipxeFile fs)))"
    by (simp add: main_def Let_def watchInterval_def defaultReloadInterval_def second_def)
  then show ?thesis using main_server [of js dur getenv now configFile ipxeFile fs] by (simp add: wfServer_def)
qed

end
