(* ===== verification/Boot_System.thy ===== *)
theory Boot_System
  imports Boot_Server
begin

text \<open>
  The running boot proxy: the events of its goroutines in any order on the server that \<open>main\<close> builds. An event is
  a request, a tick of the watcher or a sweep of the cache's reaper; each acts on the server as a whole, which is what the locks of the node store, the
  configuration and the cache give for the single reads and writes inside it. The invariant says of every cached image which builder made it.
\<close>

section \<open>Runs\<close>

datatype Event = HttpRequest World Request | ReloadTick files | ReapTick int

record Step =
  before :: Server
  event :: Event
  after :: Server
  answer :: "Reply outcome option"

fun systemStep :: "'m deps \<Rightarrow> Event \<Rightarrow> Server \<Rightarrow> (Server \<times> Reply outcome option) option" where
  "systemStep d (HttpRequest w r) s = map_option (\<lambda>(s', rep). (s', Some rep)) (ServeHTTP d w r s)"
| "systemStep d (ReloadTick fs) s = Some (Watch (json d) [WatchTick fs] s, None)"
| "systemStep d (ReapTick now) s = Some (s\<lparr>isoCache := fst (ReapISO now (isoCache s))\<rparr>, None)"

fun systemRun :: "'m deps \<Rightarrow> Event list \<Rightarrow> Server \<Rightarrow> Step list option" where
  "systemRun d [] s = Some []"
| "systemRun d (ev # evs) s =
     (case systemStep d ev s of
        None \<Rightarrow> None
      | Some (s', rep) \<Rightarrow>
          map_option (\<lambda>steps. \<lparr>before = s, event = ev, after = s', answer = rep\<rparr> # steps) (systemRun d evs s'))"

section \<open>The invariant\<close>

definition builtEntry :: "bytes \<Rightarrow> string \<Rightarrow> CachedISO \<Rightarrow> bool" where
  "builtEntry efi k e \<longleftrightarrow>
     (if k = genericISOKey then \<exists>base. ConfigHash e = GenericConfigHash base \<and> BuildGenericISO efi base = Ok (Data e)
      else \<exists>n mac base. ConfigHash e = ComputeNodeConfigHash n mac base \<and> BuildNodeISO efi n mac base = Ok (Data e))"

definition builtCache :: "bytes \<Rightarrow> ISOCache \<Rightarrow> bool" where
  "builtCache efi c \<longleftrightarrow> (\<forall>k e. mapGet (isos c) k = Some e \<longrightarrow> builtEntry efi k e)"

definition runInv :: "bytes \<Rightarrow> Server \<Rightarrow> bool" where
  "runInv efi s \<longleftrightarrow> wfServer s \<and> ipxeEFI s = efi \<and> builtCache efi (isoCache s)"

lemma builtEntry_same: "ConfigHash e' = ConfigHash e \<Longrightarrow> Data e' = Data e \<Longrightarrow> builtEntry efi k e' = builtEntry efi k e"
  by (simp add: builtEntry_def)

lemma builtCache_Get:
  assumes "builtCache efi c" "GetISO t t' key c = (c', found)"
  shows "builtCache efi c'" "found = Some e \<Longrightarrow> builtEntry efi (cacheKey key) e"
  using assms builtEntry_same [of "e\<lparr>LastAccess := t'\<rparr>" e for e]
  by (auto simp: builtCache_def GetISO_def Let_def split: option.splits if_splits)

lemma builtCache_Reap:
  assumes "wfCache c" "builtCache efi c"
  shows "builtCache efi (fst (ReapISO now c))"
  using assms by (auto simp: ReapISO_eq builtCache_def mapGet_filter wfCache_def split: option.splits if_splits)

text \<open>What \<open>cachedISO\<close> hands out was built for the hash it was asked for.\<close>

lemma cachedISO_built:
  assumes "builtCache efi c" "cachedISO w key h build c = (c', r)"
    and "\<And>e. build = Ok (Data e) \<Longrightarrow> ConfigHash e = h \<Longrightarrow> builtEntry efi (cacheKey key) e"
  shows "builtCache efi c' \<and> (\<forall>e. r = Ok e \<longrightarrow> builtEntry efi (cacheKey key) e \<and> ConfigHash e = h)"
proof -
  obtain c1 found where get: "GetISO (clkSince w) (clkNow w) key c = (c1, found)" by fastforce
  note got = builtCache_Get [OF assms(1) get]
  show ?thesis
  proof (cases "found \<noteq> None \<and> ConfigHash (the found) = h")
    case True
    then have "(c', r) = (c1, Ok (the found))" using assms(2) by (simp add: cachedISO_def get)
    then show ?thesis using got True by auto
  next
    case miss: False
    show ?thesis
    proof (cases build)
      case (Ok data)
      let ?e = "\<lparr>Data = data, ConfigHash = h, ModTime = clkSet w, LastAccess = clkSet w\<rparr>"
      have "builtEntry efi (cacheKey key) ?e" using assms(3) [of ?e] Ok by simp
      moreover have "(c', r) = (c1\<lparr>isos := mapSet (cacheKey key) ?e (isos c1)\<rparr>, Ok ?e)"
        using assms(2) unfolding cachedISO_def get prod.case if_not_P [OF miss] Ok outcome.case by (simp add: SetISO_def Let_def)
      ultimately show ?thesis using got(1) by (auto simp: builtCache_def)
    qed (use assms(2) miss got(1) in \<open>auto simp: cachedISO_def get\<close>)
  qed
qed

section \<open>Answers\<close>

text \<open>An image boots a script: the firmware finds the iPXE binary in it, and iPXE the script.\<close>

definition bootsScript :: "bytes \<Rightarrow> bytes \<Rightarrow> string \<Rightarrow> bool" where
  "bootsScript efi img script \<longleftrightarrow> (\<exists>vol k. elTorito img = Some (vol, k)
     \<and> readFAT12 vol [''EFI'', ''BOOT'', ''BOOTX64.EFI''] = Some efi \<and> readFAT12 vol [autoexecName] = Some (bytes_of script))"

lemma buildBootISO_boots: "buildBootISO efi (bytes_of script) = Ok img \<Longrightarrow> bootsScript efi img script"
  unfolding bootsScript_def by (erule buildBootISO_reads) blast

lemma builders_boot:
  "BuildNodeISO efi n mac base = Ok img \<Longrightarrow> bootsScript efi img (RenderNodeIPXEScript n mac base)"
  "BuildGenericISO efi base = Ok img \<Longrightarrow> bootsScript efi img (RenderGenericIPXEScript base)"
  unfolding BuildNodeISO_def BuildGenericISO_def by (auto intro: buildBootISO_boots)

text \<open>
  The contract of an answer with an image. A request for a node ISO gets an image that boots the script of a configuration with the hash of the node
  found for its address; a request for the generic ISO gets one that boots a generic script with the hash of the generic one.
\<close>

definition isoAnswer :: "bytes \<Rightarrow> Server \<Rightarrow> Request \<Rightarrow> Server \<Rightarrow> Reply \<Rightarrow> bool" where
  "isoAnswer efi s r s' rep \<longleftrightarrow> (\<forall>ct name mt img. rep = ServeContent ct name mt img \<longrightarrow>
     (\<forall>m. submatch isoRe (URLPath r) = Some m \<longrightarrow>
        (\<exists>node n mac base. lookup s' (normalizeKey m) = Some node
          \<and> ComputeNodeConfigHash node (requestMAC m) (proxyBaseOf (cfg s) r) = ComputeNodeConfigHash n mac base
          \<and> bootsScript efi img (RenderNodeIPXEScript n mac base))) \<and>
     (URLPath r = genericISOPath \<longrightarrow>
        (\<exists>base. GenericConfigHash (proxyBaseOf (cfg s) r) = GenericConfigHash base \<and> bootsScript efi img (RenderGenericIPXEScript base))))"

text \<open>No address is the key of the generic image.\<close>

lemma macChars_not_generic:
  assumes "m \<noteq> []" "list_all macChar m"
  shows "cacheKey (requestMAC m) \<noteq> genericISOKey"
proof
  assume gen: "cacheKey (requestMAC m) = genericISOKey"
  have "normalizeMAC m = normalizeMAC (requestMAC m)" by (simp add: requestMAC_def)
  also have "\<dots> = normalizeMAC (cacheKey (requestMAC m))" by (simp add: cacheKey_def)
  also have "\<dots> = []" unfolding gen genericISOKey_def by code_simp
  finally have "cacheKey (requestMAC m) = toLower (trimSpace m)"
    by (simp add: requestMAC_def cacheKey_def trimSpace_toLower)
  moreover have "\<not> isSpace c" if "macChar c" for c
    using that isHex_not_space [of c] by (auto simp: macChar_def isSpace_def code_def)
  then have "trimSpace m = m" using assms by (intro trimSpace_id) (auto simp: list_all_iff)
  ultimately have "toLower m = ''generic''" using gen by (simp add: genericISOKey_def)
  then have "lowerChar (hd m) = CHR ''g''" using assms(1) by (cases m) (auto simp: toLower_def)
  moreover have "macChar (hd m)" using assms by (cases m) auto
  ultimately show False
    by (auto simp: macChar_def isHex_def hexVal_def lowerChar_def code_def Let_def split: if_splits
        dest!: arg_cong [of "char_of _" _ "of_char :: char \<Rightarrow> nat"])
qed

section \<open>Steps keep the invariant\<close>

lemma runInv_settings: "runInv efi s \<Longrightarrow> wfServer s' \<Longrightarrow> settings s' = settings s \<Longrightarrow> runInv efi s'"
  by (simp add: runInv_def settings_def)

lemma serveISO_built:
  assumes "runInv efi s"
    and "\<And>e. build = Ok (Data e) \<Longrightarrow> ConfigHash e = h \<Longrightarrow> builtEntry efi (cacheKey key) e" "build \<noteq> Panic"
  shows "\<exists>c rep. serveISO w key h build name s = (s\<lparr>isoCache := c\<rparr>, Ok rep) \<and> runInv efi (s\<lparr>isoCache := c\<rparr>)
    \<and> (\<forall>ct nm mt img. rep = ServeContent ct nm mt img \<longrightarrow> (\<exists>e. Data e = img \<and> ConfigHash e = h \<and> builtEntry efi (cacheKey key) e))"
proof -
  have wf: "wfServer s" and cache: "builtCache efi (isoCache s)" and efi: "ipxeEFI s = efi" using assms(1) by (simp_all add: runInv_def)
  obtain c r where cr: "cachedISO w key h build (isoCache s) = (c, r)" by fastforce
  have built: "builtCache efi c" "\<And>e. r = Ok e \<Longrightarrow> builtEntry efi (cacheKey key) e \<and> ConfigHash e = h"
    using cachedISO_built [OF cache cr assms(2)] by blast+
  obtain rep where rep: "serveISO w key h build name s = (s\<lparr>isoCache := c\<rparr>, Ok rep)" "wfServer (s\<lparr>isoCache := c\<rparr>)"
    using serveISO_ends [OF wf assms(3), of w key h name] cr by (auto simp: serveISO_def split: prod.splits)
  have "\<exists>e. Data e = img \<and> ConfigHash e = h \<and> builtEntry efi (cacheKey key) e" if "rep = ServeContent ct nm mt img" for ct nm mt img
    using rep(1) that built(2) cr by (cases r) (auto simp: serveISO_def)
  then show ?thesis using rep built(1) efi by (auto simp: runInv_def)
qed

lemma serveGeneric_step:
  assumes "runInv efi s" "URLPath r = genericISOPath"
  shows "\<exists>s' rep. ServeHTTP d w r s = Some (s', Ok rep) \<and> runInv efi s' \<and> isoAnswer efi s r s' rep"
proof -
  let ?base = "proxyBaseOf (cfg s) r"
  have efi: "ipxeEFI s = efi" using assms(1) by (simp add: runInv_def)
  have key: "cacheKey genericISOKey = genericISOKey" unfolding genericISOKey_def by code_simp
  have "\<exists>c rep. serveISO w genericISOKey (GenericConfigHash ?base) (BuildGenericISO efi ?base) ''generic-boot.iso'' s = (s\<lparr>isoCache := c\<rparr>, Ok rep)
      \<and> runInv efi (s\<lparr>isoCache := c\<rparr>) \<and> (\<forall>ct nm mt img. rep = ServeContent ct nm mt img \<longrightarrow>
        (\<exists>e. Data e = img \<and> ConfigHash e = GenericConfigHash ?base \<and> builtEntry efi (cacheKey genericISOKey) e))"
    by (rule serveISO_built [OF assms(1) _ builders_no_panic(2)]) (auto simp: key builtEntry_def)
  then obtain c rep where c: "serveISO w genericISOKey (GenericConfigHash ?base) (BuildGenericISO efi ?base) ''generic-boot.iso'' s = (s\<lparr>isoCache := c\<rparr>, Ok rep)"
    "runInv efi (s\<lparr>isoCache := c\<rparr>)" and e: "\<And>ct nm mt img. rep = ServeContent ct nm mt img \<Longrightarrow>
        \<exists>e. Data e = img \<and> ConfigHash e = GenericConfigHash ?base \<and> builtEntry efi genericISOKey e"
    unfolding key by blast
  have "ServeHTTP d w r s = Some (s\<lparr>isoCache := c\<rparr>, Ok rep)" using c(1) assms(2) efi by (simp add: ServeHTTP_def serveGeneric_def Let_def)
  moreover have no: "submatch isoRe (URLPath r) \<noteq> Some m" for m
    using isoRe_only [of "URLPath r" m] assms(2) by (auto simp: genericISOPath_def)
  have "isoAnswer efi s r (s\<lparr>isoCache := c\<rparr>) rep"
    unfolding isoAnswer_def
  proof (intro allI impI conjI)
    fix ct nm mt img assume "rep = ServeContent ct nm mt img"
    from e [OF this] obtain entry :: CachedISO and base where "Data entry = img" "ConfigHash entry = GenericConfigHash ?base"
      "ConfigHash entry = GenericConfigHash base" "BuildGenericISO efi base = Ok (Data entry)"
      unfolding builtEntry_def if_P [OF refl] by blast
    then show "\<exists>base. GenericConfigHash ?base = GenericConfigHash base \<and> bootsScript efi img (RenderGenericIPXEScript base)"
      using builders_boot(2) [of efi base "Data entry"] by metis
  qed (simp add: no)
  ultimately show ?thesis using c(2) by blast
qed

lemma lookup_isoCache [simp]: "lookup (s\<lparr>isoCache := c\<rparr>) k = lookup s k"
  by (simp add: lookup_def split: option.splits)

lemma serveNode_step:
  assumes "runInv efi s" "wfWorld w" "submatch isoRe (URLPath r) = Some m"
  shows "\<exists>s' rep. ServeHTTP d w r s = Some (s', Ok rep) \<and> runInv efi s' \<and> isoAnswer efi s r s' rep"
proof -
  let ?base = "proxyBaseOf (cfg s) r" and ?mac = "requestMAC m"
  note only = isoRe_only [OF assms(3)]
  have wf: "wfServer s" and efi: "ipxeEFI s = efi" using assms(1) by (simp_all add: runInv_def)
  have path: "URLPath r \<noteq> genericISOPath" "URLPath r \<noteq> overlayPath" "URLPath r \<noteq> bondOverlayPath"
    using only by (auto simp: genericISOPath_def overlayPath_def bondOverlayPath_def)
  then have serve: "ServeHTTP d w r s = serveNodeISO d w r m s" using assms(3) by (simp add: ServeHTTP_def)
  obtain s1 where s1: "resolveNode (json d) (resStart w) (resPolls w) ?mac s = Some (s1, lookup s1 (normalizeKey m))"
    "wfServer s1" "settings s1 = settings s"
    using resolve_total [OF wf assms(2), of "json d" ?mac] macChars_key [of m] only unfolding requestMAC_key by auto
  have inv1: "runInv efi s1" using assms(1) s1(2,3) by (rule runInv_settings)
  show ?thesis
  proof (cases "lookup s1 (normalizeKey m)")
    case None
    then have "ServeHTTP d w r s = Some (s1, Ok (HttpError 404 (''node with MAC '' @ m @ '' not found'')))"
      unfolding serve serveNodeISO_def Let_def s1(1) by simp
    then show ?thesis using inv1 by (auto simp: isoAnswer_def)
  next
    case (Some node)
    let ?h = "ComputeNodeConfigHash node ?mac ?base" and ?b = "BuildNodeISO efi node ?mac ?base"
    have key: "cacheKey ?mac \<noteq> genericISOKey" using macChars_not_generic only by blast
    have "ipxeEFI s1 = efi" using inv1 by (simp add: runInv_def)
    then have reply: "ServeHTTP d w r s = Some (serveISO w ?mac ?h ?b (''ipxe-'' @ ?mac @ ''.iso'') s1)"
      unfolding serve serveNodeISO_def Let_def s1(1) Some by simp
    have "builtEntry efi (cacheKey ?mac) e" if "?b = Ok (Data e)" "ConfigHash e = ?h" for e
      unfolding builtEntry_def if_not_P [OF key] using that by blast
    from serveISO_built [OF inv1 this builders_no_panic(1)] obtain c rep where
      c: "serveISO w ?mac ?h ?b (''ipxe-'' @ ?mac @ ''.iso'') s1 = (s1\<lparr>isoCache := c\<rparr>, Ok rep)" "runInv efi (s1\<lparr>isoCache := c\<rparr>)"
      and e: "\<And>ct nm mt img. rep = ServeContent ct nm mt img \<Longrightarrow> \<exists>e. Data e = img \<and> ConfigHash e = ?h \<and> builtEntry efi (cacheKey ?mac) e"
      by blast
    have "isoAnswer efi s r (s1\<lparr>isoCache := c\<rparr>) rep"
      unfolding isoAnswer_def assms(3)
    proof (intro allI impI conjI)
      fix ct nm mt img m' assume rep: "rep = ServeContent ct nm mt img" and "Some m = Some m'"
      from e [OF rep] obtain entry :: CachedISO and n mac base where "Data entry = img" "ConfigHash entry = ?h"
        "ConfigHash entry = ComputeNodeConfigHash n mac base" "BuildNodeISO efi n mac base = Ok (Data entry)"
        unfolding builtEntry_def if_not_P [OF key] by blast
      then show "\<exists>node n mac base. lookup (s1\<lparr>isoCache := c\<rparr>) (normalizeKey m') = Some node
          \<and> ComputeNodeConfigHash node (requestMAC m') ?base = ComputeNodeConfigHash n mac base
          \<and> bootsScript efi img (RenderNodeIPXEScript n mac base)"
        using builders_boot(1) [of efi n mac base "Data entry"] Some \<open>Some m = Some m'\<close> by (metis lookup_isoCache option.inject)
    qed (use path(1) in simp)
    then show ?thesis using reply c by auto
  qed
qed

lemma injectBoot_settings:
  assumes "wfServer s" "wfWorld w" "injectBoot d w r body s = Some (s', body')"
  shows "settings s' = settings s"
proof -
  obtain s1 x where s1: "resolveNode (json d) (resStart w) (resPolls w) (ipxeMAC r) s = Some (s1, x)" "settings s1 = settings s"
    using resolve_total [OF assms(1,2)] by metis
  then show ?thesis using assms(3) by (cases x) (auto simp: injectBoot_def Let_def split: if_splits)
qed

lemma serveUpstream_settings:
  assumes "wfServer s" "wfWorld w" "serveUpstream d w r s = Some (s', x)"
  shows "settings s' = settings s"
proof -
  have "settings s' = settings s" if "serveRewritten d w r resp s = Some (s', x)" for resp
    using that injectBoot_settings [OF assms(1,2)] unfolding serveRewritten_def
    by (auto simp: Let_def split: if_splits option.splits outcome.splits)
  then show ?thesis using assms(3) unfolding serveUpstream_def by (auto simp: Let_def split: if_splits option.splits)
qed

lemma serveOther_step:
  assumes "runInv efi s" "wfWorld w" "URLPath r \<noteq> genericISOPath" "submatch isoRe (URLPath r) = None"
  shows "\<exists>s' rep. ServeHTTP d w r s = Some (s', Ok rep) \<and> runInv efi s' \<and> isoAnswer efi s r s' rep"
proof -
  have answer: "isoAnswer efi s r s' rep" for s' rep using assms(3,4) by (simp add: isoAnswer_def)
  show ?thesis
  proof (cases "URLPath r = overlayPath \<or> URLPath r = bondOverlayPath")
    case True
    then show ?thesis using assms(1,3) answer by (simp add: ServeHTTP_def)
  next
    case False
    have wf: "wfServer s" using assms(1) by (simp add: runInv_def)
    obtain s' rep where up: "serveUpstream d w r s = Some (s', Ok rep)" "wfServer s'" using serveUpstream_ends [OF wf assms(2)] by blast
    have "runInv efi s'" using assms(1) up(2) serveUpstream_settings [OF wf assms(2) up(1)] by (rule runInv_settings)
    then show ?thesis using up False assms(3,4) answer by (simp add: ServeHTTP_def)
  qed
qed

section \<open>Whole runs\<close>

definition wfEvent :: "Event \<Rightarrow> bool" where
  "wfEvent ev = (case ev of HttpRequest w r \<Rightarrow> wfWorld w | _ \<Rightarrow> True)"

definition stepAnswered :: "bytes \<Rightarrow> Step \<Rightarrow> bool" where
  "stepAnswered efi st = (case event st of
     HttpRequest w r \<Rightarrow> \<exists>rep. answer st = Some (Ok rep) \<and> isoAnswer efi (before st) r (after st) rep
   | _ \<Rightarrow> answer st = None)"

lemma systemStep_ok:
  assumes "runInv efi s" "wfEvent ev"
  shows "\<exists>s' rep. systemStep d ev s = Some (s', rep) \<and> runInv efi s'
    \<and> stepAnswered efi \<lparr>before = s, event = ev, after = s', answer = rep\<rparr>"
proof (cases ev)
  case (HttpRequest w r)
  have w: "wfWorld w" using assms(2) HttpRequest by (simp add: wfEvent_def)
  have "\<exists>s' rep. ServeHTTP d w r s = Some (s', Ok rep) \<and> runInv efi s' \<and> isoAnswer efi s r s' rep"
  proof (cases "submatch isoRe (URLPath r)")
    case None
    with serveGeneric_step serveOther_step assms(1) w show ?thesis by (cases "URLPath r = genericISOPath") blast+
  qed (use serveNode_step assms(1) w in blast)
  then show ?thesis using HttpRequest by (auto simp: stepAnswered_def)
next
  case (ReloadTick fs)
  have "wfServer (Watch (json d) [WatchTick fs] s)" "settings (Watch (json d) [WatchTick fs] s) = settings s"
    using Watch_wf assms(1) unfolding runInv_def by blast+
  then show ?thesis using ReloadTick runInv_settings [OF assms(1)] by (simp add: stepAnswered_def)
next
  case (ReapTick now)
  have "wfCache (isoCache s)" "builtCache efi (isoCache s)" using assms(1) by (simp_all add: runInv_def wfServer_def)
  then have "runInv efi (s\<lparr>isoCache := fst (ReapISO now (isoCache s))\<rparr>)"
    using assms(1) builtCache_Reap wfCache_Reap by (simp add: runInv_def wfServer_def)
  then show ?thesis using ReapTick by (simp add: stepAnswered_def)
qed

lemma systemRun_ok:
  assumes "runInv efi s" "list_all wfEvent evs"
  shows "\<exists>steps. systemRun d evs s = Some steps \<and> map event steps = evs \<and> list_all (stepAnswered efi) steps
    \<and> list_all (\<lambda>st. wfServer (after st)) steps"
  using assms
proof (induction evs arbitrary: s)
  case (Cons ev evs)
  obtain s' rep where st: "systemStep d ev s = Some (s', rep)" "runInv efi s'"
    "stepAnswered efi \<lparr>before = s, event = ev, after = s', answer = rep\<rparr>"
    using systemStep_ok [OF Cons.prems(1)] Cons.prems(2) by fastforce
  obtain steps where "systemRun d evs s' = Some steps" "map event steps = evs" "list_all (stepAnswered efi) steps"
    "list_all (\<lambda>st. wfServer (after st)) steps"
    using Cons.IH [OF st(2)] Cons.prems(2) by auto
  with st show ?case by (simp add: runInv_def)
qed simp

lemma main_runInv: "runInv (case ipxeFile of Contents b \<Rightarrow> bytes_of b | _ \<Rightarrow> []) (fst (main js dur getenv now configFile ipxeFile fs))"
  by (simp add: runInv_def main_server builtCache_def NewISOCache_def)

end
