(* ===== verification/Boot_Threads.thy ===== *)
theory Boot_Threads
  imports Boot_System
begin

text \<open>
  The goroutines of the boot proxy at the granularity of its locks. Handlers, the watcher and the reaper are threads; one step of a thread is one
  critical section of \<open>cfgMu\<close>, of the mutex of the node store or of that of the cache, together with the local work around it, or one read of a file or of the
  clock. Between two steps of a thread the others may do anything. What a thread reads from outside is the input of its step. The last part shows that
  \<open>ServeHTTP\<close>, which takes a request in one piece, is the run of these steps without interference.
\<close>

section \<open>Threads\<close>

text \<open>What a handler wants a node for, and the local variables of its \<open>resolveNode\<close>.\<close>

datatype Goal = NodeISO string | BootScript UpResponse string

record Job =
  jobReq :: Request
  jobCfg :: Config
  jobKey :: string
  jobDeadline :: int
  jobGoal :: Goal

text \<open>The arguments of a call of \<open>cachedISO\<close>, and the file name of the reply.\<close>

record Build =
  bldReq :: Request
  bldKey :: string
  bldHash :: string
  bldImage :: "bytes outcome"
  bldName :: string

datatype Caller = Watcher | Resolver Job

datatype PC =
    Free
  | Accepted Request
  | LookNodes Job bool
  | LookStatic Job bool
  | ConfRead Caller
  | ConfFetched string Caller
  | ConfDiffers string Caller
  | NodesRead Caller
  | NodesMissing Caller
  | NodesFetched string Caller
  | NodesDiffers string Caller
  | NodesNoting string Caller
  | Decide Job
  | Polling Job
  | CacheGet Build
  | CacheSet Build bytes
  | Answered Request "Reply outcome"

datatype Input = Arrive Request | FireTick | Sweep int | FileIs FileRead | Clock int | Clocks int int | TimerFired | Cancelled | Go

definition serveImage :: "Build \<Rightarrow> CachedISO \<Rightarrow> PC" where
  "serveImage b e = Answered (bldReq b) (Ok (ServeContent ''application/x-iso9660-image'' (bldName b) (ModTime e) (Data e)))"

text \<open>What a handler does with the result of \<open>resolveNode\<close>.\<close>

definition resolved :: "Job \<Rightarrow> Node option \<Rightarrow> Server \<Rightarrow> PC" where
  "resolved j found s =
     (let r = jobReq j; base = proxyBaseOf (jobCfg j) r in
      case (jobGoal j, found) of
        (NodeISO raw, None) \<Rightarrow> Answered r (Ok (HttpError 404 (''node with MAC '' @ raw @ '' not found'')))
      | (NodeISO raw, Some node) \<Rightarrow>
          (let mac = requestMAC raw in
           CacheGet \<lparr>bldReq = r, bldKey = mac, bldHash = ComputeNodeConfigHash node mac base,
             bldImage = BuildNodeISO (ipxeEFI s) node mac base, bldName = ''ipxe-'' @ mac @ ''.iso''\<rparr>)
      | (BootScript resp body, None) \<Rightarrow> Answered r (Ok (rewrittenReply resp body))
      | (BootScript resp body, Some node) \<Rightarrow> Answered r (Ok (rewrittenReply resp (injectNode (jobCfg j) base node body))))"

definition resolving :: "int \<Rightarrow> Config \<Rightarrow> Request \<Rightarrow> string \<Rightarrow> Goal \<Rightarrow> Server \<Rightarrow> PC" where
  "resolving now c r mac goal s =
     (let j = \<lparr>jobReq = r, jobCfg = c, jobKey = normalizeKey mac, jobDeadline = now + missWait s, jobGoal = goal\<rparr> in
      if normalizeKey mac = [] then resolved j None s else LookNodes j True)"

definition proxying :: "'m deps \<Rightarrow> int \<Rightarrow> Config \<Rightarrow> Request \<Rightarrow> Server \<Rightarrow> PC option" where
  "proxying d now c r s =
     (if RackUpstream c = [] then Some (Answered r (Ok (HttpError 503 ''upstream rack proxy not configured'')))
      else (let upReq = upstreamRequest c r in
        if \<not> newRequestOk d (upMethod upReq) (upURL upReq) then Some (Answered r (Ok (HttpError 500 ''bad upstream request'')))
        else (case roundTrip d upReq of
            None \<Rightarrow> Some (Answered r (Ok (HttpError 502 ''upstream unreachable'')))
          | Some resp \<Rightarrow>
              if isBinary (URLPath r) \<or> Method r \<noteq> ''GET'' then Some (Answered r (Ok (streamReply resp)))
              else if upBodyErr resp then Some (Answered r (Ok (HttpError 502 ''read error from upstream'')))
              else (case rewriteData (archives d) (upBody resp) (proxyBaseOf c r) (Rewrites c) of
                  None \<Rightarrow> None
                | Some Panic \<Rightarrow> Some (Answered r Panic)
                | Some res \<Rightarrow>
                    (let body = (case res of Ok b \<Rightarrow> b | _ \<Rightarrow> upBody resp) in
                     if ipxeMAC r = [] then Some (Answered r (Ok (rewrittenReply resp body)))
                     else Some (resolving now c r (ipxeMAC r) (BootScript resp body) s))))))"

text \<open>The start of \<open>ServeHTTP\<close>: the configuration is read once, and the route chosen.\<close>

definition routing :: "'m deps \<Rightarrow> int \<Rightarrow> Request \<Rightarrow> Server \<Rightarrow> PC option" where
  "routing d now r s =
     (let c = getConfig s; base = proxyBaseOf c r in
      if URLPath r = genericISOPath then
        Some (CacheGet \<lparr>bldReq = r, bldKey = genericISOKey, bldHash = GenericConfigHash base,
          bldImage = BuildGenericISO (ipxeEFI s) base, bldName = ''generic-boot.iso''\<rparr>)
      else if URLPath r = overlayPath \<or> URLPath r = bondOverlayPath then Some (Answered r (Ok (serveOverlay d s)))
      else (case submatch isoRe (URLPath r) of
          Some raw \<Rightarrow> Some (resolving now c r (requestMAC raw) (NodeISO raw) s)
        | None \<Rightarrow> proxying d now c r s))"

fun reloaded :: "Caller \<Rightarrow> PC" where
  "reloaded Watcher = Free"
| "reloaded (Resolver j) = LookNodes j False"

definition commitConfig :: "Config \<Rightarrow> bytes \<Rightarrow> Server \<Rightarrow> Server" where
  "commitConfig c digest s = s\<lparr>cfg := applyOverrides (c\<lparr>Nodes := normalizeNodeKeys (Nodes c)\<rparr>) (overrides s), cfgHash := digest, cfgLoaded := True\<rparr>"

section \<open>Steps\<close>

text \<open>The file, the clock, or nothing in particular as the input of a step.\<close>

definition onFile :: "Input \<Rightarrow> (FileRead \<Rightarrow> 'a) \<Rightarrow> 'a option" where
  "onFile i f = (case i of FileIs x \<Rightarrow> Some (f x) | _ \<Rightarrow> None)"

definition onClock :: "Input \<Rightarrow> (int \<Rightarrow> 'a) \<Rightarrow> 'a option" where
  "onClock i f = (case i of Clock now \<Rightarrow> Some (f now) | _ \<Rightarrow> None)"

definition onGo :: "Input \<Rightarrow> 'a \<Rightarrow> 'a option" where
  "onGo i x = (case i of Go \<Rightarrow> Some x | _ \<Rightarrow> None)"

primrec moves :: "'m deps \<Rightarrow> Input \<Rightarrow> PC \<Rightarrow> Server \<Rightarrow> (PC \<times> Server) option" where
  "moves d i Free s = (case i of
     Arrive r \<Rightarrow> Some (Accepted r, s)
   | FireTick \<Rightarrow> Some (ConfRead Watcher, s)
   | Sweep now \<Rightarrow> Some (Free, s\<lparr>isoCache := fst (ReapISO now (isoCache s))\<rparr>)
   | _ \<Rightarrow> None)"
| "moves d i (Accepted r) s = (case i of Clock now \<Rightarrow> map_option (\<lambda>pc. (pc, s)) (routing d now r s) | _ \<Rightarrow> None)"
| "moves d i (LookNodes j first) s = onGo i (case GetNode (srvNodes s) (jobKey j) of
     Some node \<Rightarrow> resolved j (Some node) s | None \<Rightarrow> LookStatic j first, s)"
| "moves d i (LookStatic j first) s = onGo i (case mapGet (Nodes (getConfig s)) (jobKey j) of
     Some node \<Rightarrow> resolved j (Some node) s | None \<Rightarrow> if first then ConfRead (Resolver j) else Decide j, s)"
| "moves d i (ConfRead who) s = onFile i (\<lambda>f. (if cfgPath s = [] then NodesRead who
     else (case f of Contents b \<Rightarrow> ConfFetched b who | _ \<Rightarrow> NodesRead who), s))"
| "moves d i (ConfFetched b who) s =
     onGo i (if cfgLoaded s \<and> sha256 (bytes_of b) = cfgHash s then NodesRead who else ConfDiffers b who, s)"
| "moves d i (ConfDiffers b who) s = onGo i (NodesRead who, case unmarshalConfig (json d) b of
     Inl err \<Rightarrow> s | Inr c \<Rightarrow> commitConfig c (sha256 (bytes_of b)) s)"
| "moves d i (NodesRead who) s = onFile i (\<lambda>f. (if storePath (srvNodes s) = [] then reloaded who
     else (case f of
         Contents b \<Rightarrow> NodesFetched b who
       | NotExist \<Rightarrow> NodesMissing who
       | ReadErr err \<Rightarrow> NodesNoting (readErrMsg (storePath (srvNodes s)) err) who), s))"
| "moves d i (NodesMissing who) s = onGo i (NodesNoting (missingMsg (srvNodes s)) who, s)"
| "moves d i (NodesFetched b who) s =
     onGo i (if storeLoaded (srvNodes s) \<and> sha256 (bytes_of b) = storeHash (srvNodes s) then reloaded who else NodesDiffers b who, s)"
| "moves d i (NodesDiffers b who) s = onGo i (case parseNodes (unmarshalNodes (json d)) b of
     Inl err \<Rightarrow> (NodesNoting (invalidMsg (storePath (srvNodes s)) err) who, s)
   | Inr ns \<Rightarrow> (reloaded who, s\<lparr>srvNodes := commitNodes ns (sha256 (bytes_of b)) (srvNodes s)\<rparr>))"
| "moves d i (NodesNoting msg who) s = onGo i (reloaded who, s\<lparr>srvNodes := fst (noteError msg (srvNodes s))\<rparr>)"
| "moves d i (Decide j) s = onClock i (\<lambda>now. (if \<not> now < jobDeadline j then resolved j None s else Polling j, s))"
| "moves d i (Polling j) s = (case i of
     Cancelled \<Rightarrow> Some (resolved j None s, s)
   | TimerFired \<Rightarrow> Some (LookNodes j True, s)
   | _ \<Rightarrow> None)"
| "moves d i (CacheGet b) s = (case i of
     Clocks since now \<Rightarrow> (case GetISO since now (bldKey b) (isoCache s) of (c, found) \<Rightarrow>
       Some (if found \<noteq> None \<and> ConfigHash (the found) = bldHash b then serveImage b (the found)
         else (case bldImage b of
             Panic \<Rightarrow> Answered (bldReq b) Panic
           | Err err \<Rightarrow> Answered (bldReq b) (Ok (HttpError (isoErrorStatus (ipxeEFI s)) ''failed to build ISO''))
           | Ok data \<Rightarrow> CacheSet b data), s\<lparr>isoCache := c\<rparr>))
   | _ \<Rightarrow> None)"
| "moves d i (CacheSet b data) s = onClock i (\<lambda>now. case SetISO now (bldKey b) (bldHash b) data (isoCache s) of (c, e) \<Rightarrow>
     (serveImage b e, s\<lparr>isoCache := c\<rparr>))"
| "moves d i (Answered r rep) s = onGo i (Free, s)"

lemma on_simps [simp]: "onFile (FileIs x) f = Some (f x)" "onClock (Clock now) g = Some (g now)" "onGo Go y = Some y"
  by (simp_all add: onFile_def onClock_def onGo_def)

lemma on_elims [elim!]:
  "onFile i f = Some z \<Longrightarrow> (\<And>x. i = FileIs x \<Longrightarrow> z = f x \<Longrightarrow> P) \<Longrightarrow> P"
  "onClock i g = Some z \<Longrightarrow> (\<And>now. i = Clock now \<Longrightarrow> z = g now \<Longrightarrow> P) \<Longrightarrow> P"
  "onGo i y = Some z \<Longrightarrow> (i = Go \<Longrightarrow> z = y \<Longrightarrow> P) \<Longrightarrow> P"
  by (auto simp: onFile_def onClock_def onGo_def split: Input.splits)

text \<open>No thread ever waits for another: at every place some input moves it on.\<close>

lemma proxying_total: "proxying d now c r s \<noteq> None"
proof -
  have *: "rewriteData (archives d) (upBody resp) base rw \<noteq> None" for resp base rw
    using rewriteData_Ok [of "archives d" "upBody resp" base rw] by auto
  show ?thesis unfolding proxying_def Let_def by (simp add: * del: not_None_eq split: option.split outcome.split)
qed

lemma routing_total: "routing d now r s \<noteq> None"
  unfolding routing_def Let_def by (simp add: proxying_total del: not_None_eq split: option.split)

lemma moves_total: "\<exists>i. moves d i pc s \<noteq> None"
proof (cases pc)
  case Free
  then show ?thesis by (intro exI [of _ FireTick]) simp
next
  case (Accepted r)
  then show ?thesis using routing_total by (intro exI [of _ "Clock 0"]) simp
next
  case (Polling j)
  then show ?thesis by (intro exI [of _ TimerFired]) simp
next
  case (CacheGet b)
  then show ?thesis by (intro exI [of _ "Clocks 0 0"]) (simp split: prod.split)
next
  case (ConfRead who)
  then show ?thesis by (intro exI [of _ "FileIs NotExist"]) simp
next
  case (NodesRead who)
  then show ?thesis by (intro exI [of _ "FileIs NotExist"]) simp
next
  case (Decide j)
  then show ?thesis by (intro exI [of _ "Clock 0"]) simp
next
  case (CacheSet b data)
  then show ?thesis by (intro exI [of _ "Clock 0"]) simp
qed (intro exI [of _ Go], simp)+

section \<open>Interleaving\<close>

text \<open>
  The server, the place of every thread, and, for the statements, the servers that were there since the last request of a thread
  arrived.
\<close>

record Sys =
  sysServer :: Server
  sysPC :: "nat \<Rightarrow> PC"
  sysSeen :: "nat \<Rightarrow> Server set"

definition arrives :: "Input \<Rightarrow> bool" where
  "arrives i = (case i of Arrive r \<Rightarrow> True | _ \<Rightarrow> False)"

definition advance :: "nat \<Rightarrow> Input \<Rightarrow> PC \<Rightarrow> Server \<Rightarrow> Sys \<Rightarrow> Sys" where
  "advance t i pc s y = \<lparr>sysServer = s, sysPC = (sysPC y)(t := pc),
     sysSeen = (\<lambda>u. if u = t \<and> arrives i then {s} else insert s (sysSeen y u))\<rparr>"

inductive interleave :: "'m deps \<Rightarrow> Sys \<Rightarrow> Sys \<Rightarrow> bool" for d where
  thread: "moves d i (sysPC y t) (sysServer y) = Some (pc, s) \<Longrightarrow> interleave d y (advance t i pc s y)"

definition bootSys :: "Server \<Rightarrow> Sys" where
  "bootSys s = \<lparr>sysServer = s, sysPC = (\<lambda>_. Free), sysSeen = (\<lambda>_. {s})\<rparr>"

section \<open>The invariant\<close>

text \<open>
  A thread knows what it read: its configuration was that of a server it has seen, and a node it found was in one of the tables of such a
  server. Images come from the builders with these arguments.
\<close>

definition known :: "Server \<Rightarrow> string \<Rightarrow> Node \<Rightarrow> bool" where
  "known s k node \<longleftrightarrow> GetNode (srvNodes s) k = Some node \<or> mapGet (Nodes (cfg s)) k = Some node"

definition nodeBuild :: "bytes \<Rightarrow> Server set \<Rightarrow> Build \<Rightarrow> bool" where
  "nodeBuild efi seen b \<longleftrightarrow> (\<exists>raw. submatch isoRe (URLPath (bldReq b)) = Some raw \<and> bldKey b = requestMAC raw
     \<and> (\<exists>s0 \<in> seen. \<exists>s1 \<in> seen. \<exists>node. known s1 (normalizeKey raw) node
        \<and> bldHash b = ComputeNodeConfigHash node (requestMAC raw) (proxyBaseOf (cfg s0) (bldReq b))
        \<and> bldImage b = BuildNodeISO efi node (requestMAC raw) (proxyBaseOf (cfg s0) (bldReq b))))"

definition genericBuild :: "bytes \<Rightarrow> Server set \<Rightarrow> Build \<Rightarrow> bool" where
  "genericBuild efi seen b \<longleftrightarrow> URLPath (bldReq b) = genericISOPath \<and> bldKey b = genericISOKey
     \<and> (\<exists>s0 \<in> seen. bldHash b = GenericConfigHash (proxyBaseOf (cfg s0) (bldReq b))
        \<and> bldImage b = BuildGenericISO efi (proxyBaseOf (cfg s0) (bldReq b)))"

definition buildOK :: "bytes \<Rightarrow> Server set \<Rightarrow> Build \<Rightarrow> bool" where
  "buildOK efi seen b \<longleftrightarrow> nodeBuild efi seen b \<or> genericBuild efi seen b"

definition jobOK :: "Server set \<Rightarrow> Job \<Rightarrow> bool" where
  "jobOK seen j \<longleftrightarrow> jobCfg j \<in> cfg ` seen \<and> (case jobGoal j of
     NodeISO raw \<Rightarrow> submatch isoRe (URLPath (jobReq j)) = Some raw \<and> jobKey j = normalizeKey raw
   | BootScript resp body \<Rightarrow> True)"

text \<open>The contract of a reply with an image, with the servers that were there while the request was handled.\<close>

definition nodeReply :: "bytes \<Rightarrow> Server set \<Rightarrow> Request \<Rightarrow> bytes \<Rightarrow> bool" where
  "nodeReply efi seen r img \<longleftrightarrow> (\<forall>raw. submatch isoRe (URLPath r) = Some raw \<longrightarrow>
     (\<exists>s0 \<in> seen. \<exists>s1 \<in> seen. \<exists>node n mac base. known s1 (normalizeKey raw) node
        \<and> ComputeNodeConfigHash node (requestMAC raw) (proxyBaseOf (cfg s0) r) = ComputeNodeConfigHash n mac base
        \<and> bootsScript efi img (RenderNodeIPXEScript n mac base)))"

definition genericReply :: "bytes \<Rightarrow> Server set \<Rightarrow> Request \<Rightarrow> bytes \<Rightarrow> bool" where
  "genericReply efi seen r img \<longleftrightarrow> (URLPath r = genericISOPath \<longrightarrow>
     (\<exists>s0 \<in> seen. \<exists>base. GenericConfigHash (proxyBaseOf (cfg s0) r) = GenericConfigHash base
        \<and> bootsScript efi img (RenderGenericIPXEScript base)))"

definition replyOK :: "bytes \<Rightarrow> Server set \<Rightarrow> Request \<Rightarrow> Reply outcome \<Rightarrow> bool" where
  "replyOK efi seen r rep \<longleftrightarrow> (\<exists>x. rep = Ok x \<and> (\<forall>ct name mt img. x = ServeContent ct name mt img \<longrightarrow>
     nodeReply efi seen r img \<and> genericReply efi seen r img))"

fun callerOK :: "Server set \<Rightarrow> Caller \<Rightarrow> bool" where
  "callerOK seen Watcher = True"
| "callerOK seen (Resolver j) = jobOK seen j"

primrec pcOK :: "bytes \<Rightarrow> Server set \<Rightarrow> PC \<Rightarrow> bool" where
  "pcOK efi seen Free = True"
| "pcOK efi seen (Accepted r) = True"
| "pcOK efi seen (LookNodes j first) = jobOK seen j"
| "pcOK efi seen (LookStatic j first) = jobOK seen j"
| "pcOK efi seen (ConfRead who) = callerOK seen who"
| "pcOK efi seen (ConfFetched b who) = callerOK seen who"
| "pcOK efi seen (ConfDiffers b who) = callerOK seen who"
| "pcOK efi seen (NodesRead who) = callerOK seen who"
| "pcOK efi seen (NodesMissing who) = callerOK seen who"
| "pcOK efi seen (NodesFetched b who) = callerOK seen who"
| "pcOK efi seen (NodesDiffers b who) = callerOK seen who"
| "pcOK efi seen (NodesNoting msg who) = callerOK seen who"
| "pcOK efi seen (Decide j) = jobOK seen j"
| "pcOK efi seen (Polling j) = jobOK seen j"
| "pcOK efi seen (CacheGet b) = buildOK efi seen b"
| "pcOK efi seen (CacheSet b data) = (buildOK efi seen b \<and> bldImage b = Ok data)"
| "pcOK efi seen (Answered r rep) = replyOK efi seen r rep"

definition sysInv :: "bytes \<Rightarrow> Sys \<Rightarrow> bool" where
  "sysInv efi y \<longleftrightarrow> runInv efi (sysServer y) \<and> (\<forall>t. sysServer y \<in> sysSeen y t \<and> pcOK efi (sysSeen y t) (sysPC y t))"

lemma pcOK_mono: "pcOK efi seen pc \<Longrightarrow> seen \<subseteq> seen' \<Longrightarrow> pcOK efi seen' pc"
proof -
  assume sub: "seen \<subseteq> seen'"
  have j: "jobOK seen j \<Longrightarrow> jobOK seen' j" for j using sub by (auto simp: jobOK_def)
  then have who: "callerOK seen who \<Longrightarrow> callerOK seen' who" for who by (cases who) auto
  have b: "buildOK efi seen b \<Longrightarrow> buildOK efi seen' b" for b
    using sub unfolding buildOK_def nodeBuild_def genericBuild_def by (meson subsetD)
  have "nodeReply efi seen r img \<Longrightarrow> nodeReply efi seen' r img" "genericReply efi seen r img \<Longrightarrow> genericReply efi seen' r img" for r img
    using sub unfolding nodeReply_def genericReply_def by (meson subsetD)+
  then have "replyOK efi seen r rep \<Longrightarrow> replyOK efi seen' r rep" for r rep unfolding replyOK_def by blast
  with j who b show "pcOK efi seen pc \<Longrightarrow> pcOK efi seen' pc" by (cases pc) auto
qed

lemma cacheKey_generic: "cacheKey genericISOKey = genericISOKey"
  unfolding genericISOKey_def by code_simp

text \<open>The builders were called for the key under which their image is cached.\<close>

lemma buildOK_entry:
  assumes "buildOK efi seen b" "bldImage b = Ok (Data e)" "ConfigHash e = bldHash b"
  shows "builtEntry efi (cacheKey (bldKey b)) e"
  using assms(1) unfolding buildOK_def
proof
  assume "nodeBuild efi seen b"
  then obtain raw where raw: "submatch isoRe (URLPath (bldReq b)) = Some raw" "bldKey b = requestMAC raw" and
    "\<exists>node base. bldHash b = ComputeNodeConfigHash node (requestMAC raw) base \<and> bldImage b = BuildNodeISO efi node (requestMAC raw) base"
    unfolding nodeBuild_def by blast
  moreover have "cacheKey (bldKey b) \<noteq> genericISOKey" unfolding raw(2) using isoRe_only [OF raw(1)] by (intro macChars_not_generic) auto
  ultimately show ?thesis unfolding builtEntry_def using assms(2,3) by metis
next
  assume "genericBuild efi seen b"
  then show ?thesis unfolding genericBuild_def builtEntry_def using assms(2,3) cacheKey_generic by metis
qed

lemma serveImage_OK:
  assumes "buildOK efi seen b" "builtEntry efi (cacheKey (bldKey b)) e" "ConfigHash e = bldHash b"
  shows "pcOK efi seen (serveImage b e)"
proof -
  have "nodeReply efi seen (bldReq b) (Data e) \<and> genericReply efi seen (bldReq b) (Data e)"
    using assms(1) unfolding buildOK_def
  proof
    assume nb: "nodeBuild efi seen b"
    then obtain raw where raw: "submatch isoRe (URLPath (bldReq b)) = Some raw" "bldKey b = requestMAC raw" unfolding nodeBuild_def by blast
    have only: "URLPath (bldReq b) \<noteq> genericISOPath" using isoRe_only [OF raw(1)] by (auto simp: genericISOPath_def)
    have "cacheKey (bldKey b) \<noteq> genericISOKey" unfolding raw(2) using isoRe_only [OF raw(1)] by (intro macChars_not_generic) auto
    then obtain n mac base where "bldHash b = ComputeNodeConfigHash n mac base" "bootsScript efi (Data e) (RenderNodeIPXEScript n mac base)"
      using assms(2,3) builders_boot(1) unfolding builtEntry_def by metis
    then have "nodeReply efi seen (bldReq b) (Data e)" using nb raw unfolding nodeBuild_def nodeReply_def by (metis option.inject)
    then show ?thesis using only by (simp add: genericReply_def)
  next
    assume gb: "genericBuild efi seen b"
    have no: "submatch isoRe (URLPath (bldReq b)) \<noteq> Some raw" for raw
      using isoRe_only [of "URLPath (bldReq b)" raw] gb by (auto simp: genericISOPath_def genericBuild_def)
    have "cacheKey (bldKey b) = genericISOKey" using gb cacheKey_generic unfolding genericBuild_def by simp
    then obtain base where "bldHash b = GenericConfigHash base" "bootsScript efi (Data e) (RenderGenericIPXEScript base)"
      using assms(2,3) builders_boot(2) unfolding builtEntry_def by metis
    then have "genericReply efi seen (bldReq b) (Data e)" using gb unfolding genericBuild_def genericReply_def by metis
    then show ?thesis using no by (simp add: nodeReply_def)
  qed
  then show ?thesis by (auto simp: serveImage_def replyOK_def)
qed

section \<open>Steps keep the invariant\<close>

lemma runInv_cache: "runInv efi s \<Longrightarrow> wfCache c \<Longrightarrow> builtCache efi c \<Longrightarrow> runInv efi (s\<lparr>isoCache := c\<rparr>)"
  by (simp add: runInv_def wfServer_def)

lemma runInv_nodes: "runInv efi s \<Longrightarrow> wfStore ns \<Longrightarrow> runInv efi (s\<lparr>srvNodes := ns\<rparr>)"
  by (simp add: runInv_def wfServer_def)

lemma runInv_commitConfig: "runInv efi s \<Longrightarrow> runInv efi (commitConfig c h s)"
  by (simp add: runInv_def wfServer_def commitConfig_def inForce_apply normalizeNodeKeys_eq normalizeEntries_wf del: set_map)

lemma runInv_parts: "runInv efi s \<Longrightarrow> wfStore (srvNodes s) \<and> wfCache (isoCache s) \<and> builtCache efi (isoCache s) \<and> ipxeEFI s = efi"
  by (simp add: runInv_def wfServer_def)

lemma wfStore_steps:
  "wfStore st \<Longrightarrow> parseNodes u b = Inr ns \<Longrightarrow> wfStore (commitNodes ns h st)" "wfStore st \<Longrightarrow> wfStore (fst (noteError msg st))"
  by (auto simp: wfStore_def commitNodes_def noteError_def parseNodes_def normalizeEntries_wf simp del: set_map split: sum.splits if_splits)

lemma builtCache_Set:
  assumes "builtCache efi c" "builtEntry efi (cacheKey key) \<lparr>Data = data, ConfigHash = h, ModTime = now, LastAccess = now\<rparr>"
  shows "builtCache efi (fst (SetISO now key h data c))"
  using assms by (auto simp: builtCache_def SetISO_def Let_def)

lemma moves_runInv:
  assumes "runInv efi s" "pcOK efi seen pc" "moves d i pc s = Some (pc', s')"
  shows "runInv efi s'"
proof (cases pc)
  case Free
  have "runInv efi (s\<lparr>isoCache := fst (ReapISO now (isoCache s))\<rparr>)" for now
    using runInv_parts [OF assms(1)] by (intro runInv_cache [OF assms(1)] wfCache_Reap builtCache_Reap) auto
  then show ?thesis using Free assms(1,3) by (auto split: Input.splits)
next
  case (ConfDiffers b who)
  then show ?thesis using assms(1,3) runInv_commitConfig by (auto split: sum.splits)
next
  case (NodesDiffers b who)
  then show ?thesis
    using assms(1,3) runInv_parts [OF assms(1)] by (auto split: sum.splits intro!: runInv_nodes wfStore_steps)
next
  case (NodesNoting msg who)
  then show ?thesis using assms(1,3) runInv_parts [OF assms(1)] by (auto intro!: runInv_nodes wfStore_steps)
next
  case (CacheGet b)
  then obtain since now c found where c: "GetISO since now (bldKey b) (isoCache s) = (c, found)" "s' = s\<lparr>isoCache := c\<rparr>"
    using assms(3) by (auto split: Input.splits prod.splits)
  have "wfCache c" using wfCache_Get [of "isoCache s" since now "bldKey b"] runInv_parts [OF assms(1)] c(1) by simp
  then show ?thesis using builtCache_Get(1) [OF _ c(1)] runInv_parts [OF assms(1)] unfolding c(2) by (intro runInv_cache [OF assms(1)]) auto
next
  case (CacheSet b data)
  then obtain now where s': "s' = s\<lparr>isoCache := fst (SetISO now (bldKey b) (bldHash b) data (isoCache s))\<rparr>"
    using assms(3) by (auto simp: split_beta)
  have "wfCache (fst (SetISO now (bldKey b) (bldHash b) data (isoCache s)))"
    using runInv_parts [OF assms(1)] by (simp add: SetISO_def wfCache_def Let_def)
  moreover have "builtCache efi (fst (SetISO now (bldKey b) (bldHash b) data (isoCache s)))"
    using assms(2) CacheSet runInv_parts [OF assms(1)] by (intro builtCache_Set buildOK_entry) auto
  ultimately show ?thesis unfolding s' by (rule runInv_cache [OF assms(1)])
qed (use assms(1,3) in \<open>auto split: Input.splits\<close>)

lemma resolved_OK:
  assumes "jobOK seen j" "ipxeEFI s = efi" "s \<in> seen" "\<And>node. found = Some node \<Longrightarrow> known s (jobKey j) node"
  shows "pcOK efi seen (resolved j found s)"
proof (cases "jobGoal j")
  case (NodeISO raw)
  show ?thesis
  proof (cases found)
    case None
    then show ?thesis using NodeISO by (simp add: resolved_def replyOK_def Let_def)
  next
    case (Some node)
    obtain s0 where s0: "s0 \<in> seen" "jobCfg j = cfg s0" using assms(1) by (auto simp: jobOK_def)
    have "submatch isoRe (URLPath (jobReq j)) = Some raw" "known s (normalizeKey raw) node"
      using assms(1,4) NodeISO Some by (simp_all add: jobOK_def)
    then show ?thesis using NodeISO Some s0 assms(2,3)
      by (auto simp: resolved_def Let_def buildOK_def nodeBuild_def)
  qed
next
  case (BootScript resp body)
  then show ?thesis by (cases found) (simp_all add: resolved_def replyOK_def rewrittenReply_def Let_def)
qed

lemma resolving_OK:
  assumes "s \<in> seen" "ipxeEFI s = efi" "\<And>raw. goal = NodeISO raw \<Longrightarrow> submatch isoRe (URLPath r) = Some raw \<and> mac = requestMAC raw"
  shows "pcOK efi seen (resolving now (cfg s) r mac goal s)"
proof -
  have "jobOK seen \<lparr>jobReq = r, jobCfg = cfg s, jobKey = normalizeKey mac, jobDeadline = now + missWait s, jobGoal = goal\<rparr>"
    using assms(1,3) by (auto simp: jobOK_def requestMAC_key split: Goal.splits)
  from this resolved_OK [OF this assms(2,1), of None] show ?thesis
    unfolding resolving_def Let_def by (cases "normalizeKey mac = []") simp_all
qed

lemma proxying_OK:
  assumes "s \<in> seen" "ipxeEFI s = efi" "proxying d now (cfg s) r s = Some pc"
  shows "pcOK efi seen pc"
proof -
  have boot: "pcOK efi seen (resolving now (cfg s) r (ipxeMAC r) (BootScript resp body) s)" for resp body
    using assms(1,2) by (rule resolving_OK) simp
  have ok: "rewriteData (archives d) (upBody resp) base rw \<noteq> Some Panic" for resp base rw
    using rewriteData_Ok [of "archives d" "upBody resp" base rw] by auto
  have plain: "pcOK efi seen (Answered r (Ok (HttpError n m)))" "pcOK efi seen (Answered r (Ok (rewrittenReply resp body)))"
    "pcOK efi seen (Answered r (Ok (streamReply resp)))" for n m resp body
    by (simp_all add: replyOK_def rewrittenReply_def streamReply_def)
  show ?thesis using assms(3) boot plain unfolding proxying_def Let_def
    by (auto simp: ok simp del: pcOK.simps split: if_splits option.splits outcome.splits)
qed

lemma routing_OK:
  assumes "s \<in> seen" "ipxeEFI s = efi" "routing d now r s = Some pc"
  shows "pcOK efi seen pc"
proof -
  consider (generic) "URLPath r = genericISOPath" | (overlay) "URLPath r \<noteq> genericISOPath" "URLPath r = overlayPath \<or> URLPath r = bondOverlayPath"
    | (node) raw where "submatch isoRe (URLPath r) = Some raw" "pc = resolving now (cfg s) r (requestMAC raw) (NodeISO raw) s"
    | (proxy) "proxying d now (cfg s) r s = Some pc"
    using assms(3) unfolding routing_def Let_def by (auto split: if_splits option.splits)
  then show ?thesis
  proof cases
    case generic
    then show ?thesis using assms unfolding routing_def Let_def by (auto simp: buildOK_def genericBuild_def)
  next
    case overlay
    have "submatch isoRe (URLPath r) \<noteq> Some raw" for raw
      using isoRe_only [of "URLPath r" raw] overlay(2) by (auto simp: overlayPath_def bondOverlayPath_def)
    then have "nodeReply efi seen r img \<and> genericReply efi seen r img" for img
      using overlay(1) by (simp add: nodeReply_def genericReply_def)
    then show ?thesis using overlay assms(3) unfolding routing_def Let_def by (auto simp: replyOK_def)
  next
    case node
    then show ?thesis unfolding node(2) by (intro resolving_OK [OF assms(1,2)]) simp
  next
    case proxy
    then show ?thesis by (rule proxying_OK [OF assms(1,2)])
  qed
qed

lemma reloaded_OK: "callerOK seen who \<Longrightarrow> pcOK efi seen (reloaded who)"
  by (cases who) simp_all

lemma cacheGet_OK:
  assumes "runInv efi s" "buildOK efi seen b" "GetISO since now (bldKey b) (isoCache s) = (c, found)"
    and "found = Some e" "ConfigHash e = bldHash b"
  shows "pcOK efi seen (serveImage b e)"
  using assms(4,5) builtCache_Get(2) [OF _ assms(3)] runInv_parts [OF assms(1)] by (intro serveImage_OK [OF assms(2)]) auto

lemma buildOK_no_panic: "buildOK efi seen b \<Longrightarrow> bldImage b \<noteq> Panic"
  by (auto simp: buildOK_def nodeBuild_def genericBuild_def builders_no_panic)

lemma moves_pcOK:
  assumes "runInv efi s" "s \<in> seen" "pcOK efi seen pc" "moves d i pc s = Some (pc', s')"
  shows "pcOK efi seen pc'"
proof (cases pc)
  case (Accepted r)
  then show ?thesis using assms(2,4) runInv_parts [OF assms(1)] by (auto split: Input.splits intro: routing_OK)
next
  case (CacheGet b)
  have b: "buildOK efi seen b" using assms(3) CacheGet by simp
  show ?thesis
    using assms(4) CacheGet b cacheGet_OK [OF assms(1) b] buildOK_no_panic [OF b]
    by (auto simp: replyOK_def split: Input.splits prod.splits if_splits outcome.splits)
next
  case (CacheSet b data)
  then have "buildOK efi seen b" "bldImage b = Ok data" using assms(3) by simp_all
  then have "pcOK efi seen (serveImage b \<lparr>Data = data, ConfigHash = bldHash b, ModTime = now, LastAccess = now\<rparr>)" for now
    by (intro serveImage_OK buildOK_entry) auto
  then show ?thesis using assms(4) CacheSet by (auto simp: SetISO_def Let_def)
qed (use assms(2-4) runInv_parts [OF assms(1)] in
  \<open>auto simp: reloaded_OK known_def split: Input.splits option.splits FileRead.splits sum.splits intro!: resolved_OK\<close>)

lemma moves_arrives: "moves d i pc s = Some (pc', s') \<Longrightarrow> arrives i \<Longrightarrow> \<exists>r. pc' = Accepted r"
  by (cases pc; cases i) (auto simp: arrives_def onFile_def onClock_def onGo_def)

lemma interleave_inv: "interleave d y y' \<Longrightarrow> sysInv efi y \<Longrightarrow> sysInv efi y'"
proof (induction rule: interleave.induct)
  case (thread i y t pc s)
  have inv: "runInv efi (sysServer y)" "sysServer y \<in> sysSeen y u" "pcOK efi (sysSeen y u) (sysPC y u)" for u
    using thread.prems by (simp_all add: sysInv_def)
  have "runInv efi s" using inv(1,3) thread.hyps by (rule moves_runInv)
  moreover have "pcOK efi (sysSeen (advance t i pc s y) t) pc"
  proof (cases "arrives i")
    case True
    then show ?thesis using moves_arrives [OF thread.hyps] by auto
  next
    case False
    then show ?thesis using pcOK_mono [OF moves_pcOK [OF inv(1-3) thread.hyps]] by (auto simp: advance_def)
  qed
  moreover have "pcOK efi (insert s (sysSeen y u)) (sysPC y u)" for u using inv(3) pcOK_mono by blast
  ultimately show ?case by (auto simp: sysInv_def advance_def)
qed

lemma interleave_run_inv: "(interleave d)\<^sup>*\<^sup>* y y' \<Longrightarrow> sysInv efi y \<Longrightarrow> sysInv efi y'"
  by (induction rule: rtranclp_induct) (auto intro: interleave_inv)

lemma bootSys_inv: "runInv efi s \<Longrightarrow> sysInv efi (bootSys s)"
  by (simp add: sysInv_def bootSys_def)

section \<open>Requests without interference\<close>

abbreviation alone :: "'m deps \<Rightarrow> PC \<times> Server \<Rightarrow> PC \<times> Server \<Rightarrow> bool" where
  "alone d \<equiv> (\<lambda>z z'. \<exists>i. moves d i (fst z) (snd z) = Some z')\<^sup>*\<^sup>*"

lemma alone_step: "moves d i pc s = Some z \<Longrightarrow> alone d z z' \<Longrightarrow> alone d (pc, s) z'"
  by (rule converse_rtranclp_into_rtranclp) auto

lemma alone_one: "moves d i pc s = Some z \<Longrightarrow> alone d (pc, s) z"
  by (rule alone_step) auto

lemma alone_config: "alone d (ConfRead who, s) (NodesRead who, fst (reloadConfig (json d) f s))"
proof (cases "\<exists>b. f = Contents b \<and> cfgPath s \<noteq> []")
  case False
  then have "fst (reloadConfig (json d) f s) = s" by (auto simp: reloadConfig_def split: FileRead.splits)
  then show ?thesis using False by (intro alone_one [of d "FileIs f"]) (auto split: FileRead.splits)
next
  case True
  then obtain b where b: "f = Contents b" "cfgPath s \<noteq> []" by blast
  have read: "moves d (FileIs f) (ConfRead who) s = Some (ConfFetched b who, s)" using b by simp
  show ?thesis
  proof (cases "cfgLoaded s \<and> sha256 (bytes_of b) = cfgHash s")
    case True
    then have "moves d Go (ConfFetched b who) s = Some (NodesRead who, fst (reloadConfig (json d) f s))" using b by (simp add: reloadConfig_def)
    then show ?thesis using read by (intro alone_step [OF read] alone_one)
  next
    case False
    then have fetched: "moves d Go (ConfFetched b who) s = Some (ConfDiffers b who, s)" by simp
    have "moves d Go (ConfDiffers b who) s = Some (NodesRead who, fst (reloadConfig (json d) f s))"
      using b False by (auto simp: reloadConfig_def commitConfig_def Let_def split: sum.splits)
    then show ?thesis by (intro alone_step [OF read] alone_step [OF fetched] alone_one)
  qed
qed

lemma alone_noting: "alone d (NodesNoting msg who, s) (reloaded who, s\<lparr>srvNodes := fst (noteError msg (srvNodes s))\<rparr>)"
  by (rule alone_one [of d Go]) simp

lemma alone_fetched:
  assumes "storePath (srvNodes s) \<noteq> []"
  shows "alone d (NodesFetched b who, s)
    (reloaded who, s\<lparr>srvNodes := fst (ReloadNodes (unmarshalNodes (json d)) mar (Contents b) (srvNodes s))\<rparr>)" (is "alone d _ ?end")
proof (cases "storeLoaded (srvNodes s) \<and> sha256 (bytes_of b) = storeHash (srvNodes s)")
  case True
  then show ?thesis using assms by (intro alone_one [of d Go]) (simp add: ReloadNodes_def)
next
  case False
  then have differs: "moves d Go (NodesFetched b who) s = Some (NodesDiffers b who, s)" by auto
  have "alone d (NodesDiffers b who, s) ?end"
  proof (cases "parseNodes (unmarshalNodes (json d)) b")
    case (Inl err)
    then have "moves d Go (NodesDiffers b who) s = Some (NodesNoting (invalidMsg (storePath (srvNodes s)) err) who, s)" by simp
    from alone_step [OF this alone_noting] show ?thesis using assms False Inl by (auto simp: ReloadNodes_def split_beta Let_def)
  next
    case (Inr ns)
    then show ?thesis using assms False by (intro alone_one [of d Go]) (auto simp: ReloadNodes_def Let_def)
  qed
  then show ?thesis by (rule alone_step [OF differs])
qed

lemma alone_nodes:
  "alone d (NodesRead who, s) (reloaded who, s\<lparr>srvNodes := fst (ReloadNodes (unmarshalNodes (json d)) mar f (srvNodes s))\<rparr>)"
proof (cases "storePath (srvNodes s) = []")
  case True
  then show ?thesis by (intro alone_one [of d "FileIs f"]) (simp add: ReloadNodes_def)
next
  case path: False
  show ?thesis
  proof (cases f)
    case NotExist
    have "moves d (FileIs f) (NodesRead who) s = Some (NodesMissing who, s)"
      "moves d Go (NodesMissing who) s = Some (NodesNoting (missingMsg (srvNodes s)) who, s)" using NotExist path by simp_all
    from alone_step [OF this(1) alone_step [OF this(2) alone_noting]] show ?thesis using NotExist path by (simp add: ReloadNodes_def split_beta)
  next
    case (ReadErr err)
    have "moves d (FileIs f) (NodesRead who) s = Some (NodesNoting (readErrMsg (storePath (srvNodes s)) err) who, s)" using ReadErr path by simp
    from alone_step [OF this alone_noting] show ?thesis using ReadErr path by (simp add: ReloadNodes_def split_beta)
  next
    case (Contents b)
    have "moves d (FileIs f) (NodesRead who) s = Some (NodesFetched b who, s)" using Contents path by simp
    from alone_step [OF this alone_fetched [OF path]] show ?thesis unfolding Contents .
  qed
qed

lemma alone_reload: "alone d (ConfRead who, s) (reloaded who, fst (Reload (json d) fs s))"
proof -
  have "srvNodes (fst (reloadConfig (json d) (fst fs) s)) = srvNodes s"
    by (simp add: reloadConfig_def Let_def split: FileRead.splits sum.splits)
  then show ?thesis
    using rtranclp_trans [OF alone_config [of d who s "fst fs"] alone_nodes [of d who _ "marshalNode (json d)" "snd fs"]] unfolding Reload_eq by simp
qed

lemma alone_lookup:
  "alone d (LookNodes j first, s) (case lookup s (jobKey j) of Some node \<Rightarrow> resolved j (Some node) s
     | None \<Rightarrow> if first then ConfRead (Resolver j) else Decide j, s)"
proof (cases "GetNode (srvNodes s) (jobKey j)")
  case None
  then have "moves d Go (LookNodes j first) s = Some (LookStatic j first, s)" by simp
  then show ?thesis by (rule alone_step) (rule alone_one [of d Go], simp add: lookup_def None)
next
  case (Some node)
  then show ?thesis by (intro alone_one [of d Go]) (simp add: lookup_def)
qed

lemma alone_resolveLoop:
  assumes "resolveLoop js polls i deadline norm s = Some z" "js = json d" "deadline = jobDeadline j" "norm = jobKey j"
  shows "alone d (LookNodes j True, s) (resolved j (snd z) (fst z), fst z)"
  using assms
proof (induction rule: resolveLoop.raw_induct [rotated, consumes 1])
  case (1 loop js polls i deadline norm s z)
  let ?s = "fst (Reload js (pollFiles (polls i)) s)"
  show ?case
  proof (cases "lookup s norm")
    case (Some node)
    then show ?thesis using alone_lookup [of d j True s] 1(2-) by auto
  next
    case None
    have look: "alone d (LookNodes j True, s) (LookNodes j False, ?s)"
      using rtranclp_trans [OF alone_lookup [of d j True s]] alone_reload [of d "Resolver j" s "pollFiles (polls i)"] None 1(3-) by simp
    show ?thesis
    proof (cases "lookup ?s norm")
      case (Some node)
      then show ?thesis using rtranclp_trans [OF look alone_lookup [of d j False ?s]] None 1(2-) by (auto simp: Let_def)
    next
      case miss: None
      have "alone d (LookNodes j True, s) (Decide j, ?s)"
        using rtranclp_trans [OF look alone_lookup [of d j False ?s]] miss 1(3-) by simp
      moreover have decide: "alone d (Decide j, ?s) (if \<not> pollNow (polls i) < jobDeadline j then resolved j None ?s else Polling j, ?s)"
        by (rule alone_one [of d "Clock (pollNow (polls i))"]) simp
      moreover have "alone d (Polling j, ?s) (resolved j None ?s, ?s)" "alone d (Polling j, ?s) (LookNodes j True, ?s)"
        by (rule alone_one [of d Cancelled], simp) (rule alone_one [of d TimerFired], simp)
      moreover have "alone d (LookNodes j True, ?s) (resolved j (snd z) (fst z), fst z)" if "loop js polls (Suc i) deadline norm ?s = Some z"
        using 1(1) [OF that] 1(3-) by blast
      ultimately show ?thesis using None miss 1(2-)
        by (auto simp: Let_def split: if_splits intro: rtranclp_trans)
    qed
  qed
qed

lemma alone_resolving:
  assumes "resolveNode (json d) now polls mac s = Some (s', found)"
  shows "alone d (resolving now c r mac goal s, s)
    (resolved \<lparr>jobReq = r, jobCfg = c, jobKey = normalizeKey mac, jobDeadline = now + missWait s, jobGoal = goal\<rparr> found s', s')"
  using assms alone_resolveLoop [of "json d" polls 0 "now + missWait s" "normalizeKey mac" s "(s', found)" d]
  by (auto simp: resolveNode_def resolving_def Let_def split: if_splits)

lemma alone_image:
  assumes "serveISO w (bldKey b) (bldHash b) (bldImage b) (bldName b) s = (s', rep)"
  shows "alone d (CacheGet b, s) (Answered (bldReq b) rep, s')"
proof -
  obtain c found where get: "GetISO (clkSince w) (clkNow w) (bldKey b) (isoCache s) = (c, found)" by fastforce
  have step: "moves d (Clocks (clkSince w) (clkNow w)) (CacheGet b) s =
      Some (if found \<noteq> None \<and> ConfigHash (the found) = bldHash b then serveImage b (the found)
         else (case bldImage b of
             Panic \<Rightarrow> Answered (bldReq b) Panic
           | Err err \<Rightarrow> Answered (bldReq b) (Ok (HttpError (isoErrorStatus (ipxeEFI s)) ''failed to build ISO''))
           | Ok data \<Rightarrow> CacheSet b data), s\<lparr>isoCache := c\<rparr>)" by (simp add: get)
  show ?thesis
  proof (cases "(found \<noteq> None \<and> ConfigHash (the found) = bldHash b) \<or> (\<forall>data. bldImage b \<noteq> Ok data)")
    case True
    then show ?thesis using assms get by (intro alone_one [OF step [THEN trans]])
        (auto simp: serveISO_def cachedISO_def serveImage_def split: if_splits outcome.splits)
  next
    case False
    then obtain data where data: "bldImage b = Ok data" by blast
    have "moves d (Clock (clkSet w)) (CacheSet b data) (s\<lparr>isoCache := c\<rparr>) = Some (Answered (bldReq b) rep, s')"
      using assms get data False by (auto simp: serveISO_def cachedISO_def serveImage_def split: if_splits prod.splits)
    moreover have miss: "\<not> (found \<noteq> None \<and> ConfigHash (the found) = bldHash b)" using False by blast
    ultimately show ?thesis by (intro alone_step [OF step [unfolded if_not_P [OF miss] data outcome.case]] alone_one)
  qed
qed

lemma alone_node:
  assumes "serveNodeISO d w r raw s = Some (s', rep)"
  shows "alone d (resolving (resStart w) (cfg s) r (requestMAC raw) (NodeISO raw) s, s) (Answered r rep, s')"
proof -
  obtain s1 found where res: "resolveNode (json d) (resStart w) (resPolls w) (requestMAC raw) s = Some (s1, found)"
    using assms by (auto simp: serveNodeISO_def Let_def split: option.splits)
  note run = alone_resolving [OF res, of "cfg s" r "NodeISO raw"]
  show ?thesis
  proof (cases found)
    case None
    then show ?thesis using run assms res by (simp add: serveNodeISO_def resolved_def Let_def)
  next
    case (Some node)
    let ?mac = "requestMAC raw" and ?base = "proxyBaseOf (cfg s) r"
    let ?b = "\<lparr>bldReq = r, bldKey = ?mac, bldHash = ComputeNodeConfigHash node ?mac ?base,
        bldImage = BuildNodeISO (ipxeEFI s1) node ?mac ?base, bldName = ''ipxe-'' @ ?mac @ ''.iso''\<rparr>"
    have "serveISO w (bldKey ?b) (bldHash ?b) (bldImage ?b) (bldName ?b) s1 = (s', rep)"
      using assms res Some by (simp add: serveNodeISO_def Let_def)
    from alone_image [OF this] run show ?thesis using Some by (auto simp: resolved_def Let_def intro: rtranclp_trans)
  qed
qed

lemma alone_boot:
  assumes "injectBoot d w r body s = Some (s', body')" "ipxeMAC r \<noteq> []"
  shows "alone d (resolving (resStart w) (cfg s) r (ipxeMAC r) (BootScript resp body) s, s) (Answered r (Ok (rewrittenReply resp body')), s')"
proof -
  obtain s1 found where res: "resolveNode (json d) (resStart w) (resPolls w) (ipxeMAC r) s = Some (s1, found)"
    using assms by (auto simp: injectBoot_def Let_def split: option.splits)
  from alone_resolving [OF res, of "cfg s" r "BootScript resp body"] show ?thesis
    using assms res by (cases found) (auto simp: injectBoot_def resolved_def Let_def)
qed

lemma alone_upstream:
  assumes "serveUpstream d w r s = Some (s', rep)"
  obtains pc where "proxying d (resStart w) (cfg s) r s = Some pc" "alone d (pc, s) (Answered r rep, s')"
proof -
  have rew: "\<exists>out. rewriteData (archives d) (upBody resp) (proxyBaseOf (cfg s) r) (Rewrites (cfg s)) = Some (Ok out)" for resp
    by (rule rewriteData_Ok)
  have "\<exists>pc. proxying d (resStart w) (cfg s) r s = Some pc \<and> alone d (pc, s) (Answered r rep, s')"
  proof (cases "\<exists>resp. roundTrip d (upstreamRequest (cfg s) r) = Some resp \<and> RackUpstream (cfg s) \<noteq> []
      \<and> newRequestOk d (upMethod (upstreamRequest (cfg s) r)) (upURL (upstreamRequest (cfg s) r))
      \<and> \<not> (isBinary (URLPath r) \<or> Method r \<noteq> ''GET'') \<and> \<not> upBodyErr resp")
    case False
    then show ?thesis using assms
      by (auto simp: serveUpstream_def proxying_def serveRewritten_def Let_def split: option.splits if_splits)
  next
    case True
    then obtain resp where resp: "roundTrip d (upstreamRequest (cfg s) r) = Some resp" "RackUpstream (cfg s) \<noteq> []"
      "newRequestOk d (upMethod (upstreamRequest (cfg s) r)) (upURL (upstreamRequest (cfg s) r))"
      "\<not> (isBinary (URLPath r) \<or> Method r \<noteq> ''GET'')" "\<not> upBodyErr resp" by blast
    obtain out where out: "rewriteData (archives d) (upBody resp) (proxyBaseOf (cfg s) r) (Rewrites (cfg s)) = Some (Ok out)" using rew by blast
    obtain s1 body where inj: "injectBoot d w r out s = Some (s1, body)" "(s', rep) = (s1, Ok (rewrittenReply resp body))"
      using assms resp out by (auto simp: serveUpstream_def serveRewritten_def Let_def split: option.splits)
    show ?thesis
      using alone_boot [OF inj(1), of resp] inj resp out by (cases "ipxeMAC r = []") (auto simp: proxying_def injectBoot_def Let_def)
  qed
  then show thesis using that by blast
qed

lemma alone_request:
  assumes "ServeHTTP d w r s = Some (s', rep)"
  shows "alone d (Free, s) (Answered r rep, s')"
proof -
  have "\<exists>pc. routing d (resStart w) r s = Some pc \<and> alone d (pc, s) (Answered r rep, s')"
  proof (cases "URLPath r = genericISOPath")
    case True
    let ?base = "proxyBaseOf (cfg s) r"
    have "serveISO w genericISOKey (GenericConfigHash ?base) (BuildGenericISO (ipxeEFI s) ?base) ''generic-boot.iso'' s = (s', rep)"
      using assms True by (simp add: ServeHTTP_def serveGeneric_def Let_def)
    then show ?thesis using alone_image [of w "\<lparr>bldReq = r, bldKey = genericISOKey, bldHash = GenericConfigHash ?base,
        bldImage = BuildGenericISO (ipxeEFI s) ?base, bldName = ''generic-boot.iso''\<rparr>" s s' rep d] True by (simp add: routing_def Let_def)
  next
    case False
    show ?thesis
    proof (cases "URLPath r = overlayPath \<or> URLPath r = bondOverlayPath")
      case True
      then show ?thesis using assms False by (auto simp: ServeHTTP_def routing_def Let_def)
    next
      case other: False
      show ?thesis
      proof (cases "submatch isoRe (URLPath r)")
        case None
        then have "serveUpstream d w r s = Some (s', rep)" using assms False other by (simp add: ServeHTTP_def)
        then show ?thesis using None False other by (elim alone_upstream) (simp add: routing_def)
      next
        case (Some raw)
        then have "serveNodeISO d w r raw s = Some (s', rep)" using assms False other by (simp add: ServeHTTP_def)
        from alone_node [OF this] show ?thesis using Some False other by (simp add: routing_def)
      qed
    qed
  qed
  then obtain pc where "moves d (Clock (resStart w)) (Accepted r) s = Some (pc, s)" "alone d (pc, s) (Answered r rep, s')" by auto
  from alone_step [OF this] alone_step [of d "Arrive r" Free s "(Accepted r, s)"] show ?thesis by simp
qed

text \<open>A thread running alone is a run of the whole system.\<close>

lemma alone_interleave:
  assumes "alone d (pc, s) (pc', s')" "sysPC y t = pc" "sysServer y = s"
  shows "\<exists>y'. (interleave d)\<^sup>*\<^sup>* y y' \<and> sysServer y' = s' \<and> sysPC y' = (sysPC y)(t := pc')"
proof -
  have "\<exists>y'. (interleave d)\<^sup>*\<^sup>* y y' \<and> sysServer y' = snd z \<and> sysPC y' = (sysPC y)(t := fst z)" if "alone d (pc, s) z" for z
    using that
  proof (induction rule: rtranclp_induct)
    case base
    then show ?case using assms(2,3) by (intro exI [of _ y]) auto
  next
    case (step z z')
    then obtain i y1 where y1: "(interleave d)\<^sup>*\<^sup>* y y1" "sysServer y1 = snd z" "sysPC y1 = (sysPC y)(t := fst z)"
      and i: "moves d i (fst z) (snd z) = Some z'" by blast
    have "interleave d y1 (advance t i (fst z') (snd z') y1)" using i y1(2,3) by (intro interleave.thread) simp
    then have "(interleave d)\<^sup>*\<^sup>* y (advance t i (fst z') (snd z') y1)" using y1(1) by (rule rtranclp.rtrancl_into_rtrancl [rotated])
    then show ?case using y1(3) by (intro exI [of _ "advance t i (fst z') (snd z') y1"]) (simp add: advance_def)
  qed
  from this [OF assms(1)] show ?thesis by simp
qed

text \<open>Where a thread is after an event that it took in one piece.\<close>

definition atEnd :: "Event \<Rightarrow> Reply outcome option \<Rightarrow> PC" where
  "atEnd ev a = (case (ev, a) of (HttpRequest w r, Some rep) \<Rightarrow> Answered r rep | _ \<Rightarrow> Free)"

lemma alone_event:
  assumes "systemStep d ev s = Some (s', a)"
  shows "alone d (Free, s) (atEnd ev a, s')"
proof (cases ev)
  case (HttpRequest w r)
  then show ?thesis using assms alone_request by (auto simp: atEnd_def)
next
  case (ReloadTick fs)
  have "moves d FireTick Free s = Some (ConfRead Watcher, s)" by simp
  from alone_step [OF this] alone_reload [of d Watcher s fs] show ?thesis using assms ReloadTick by (auto simp: atEnd_def)
next
  case (ReapTick now)
  then show ?thesis using assms by (intro alone_one [of d "Sweep now"]) (auto simp: atEnd_def)
qed

section \<open>Properties\<close>


text \<open>
  C13. Taking events in one piece loses nothing but interference: whatever a request, a tick or a sweep does as a whole, a free thread
  does in steps when the others stand still, with the same answer and the same server at the end.
\<close>

theorem events_refine_steps:
  assumes "systemStep d ev (sysServer y) = Some (s', a)" "sysPC y t = Free"
  shows "\<exists>y'. (interleave d)\<^sup>*\<^sup>* y y' \<and> sysServer y' = s' \<and> sysPC y' = (sysPC y)(t := atEnd ev a)"
  using alone_event [OF assms(1)] assms(2) by (rule alone_interleave) simp

text \<open>The server of \<open>main\<close> in an empty environment.\<close>

definition sampleMain :: Server where
  "sampleMain = fst (main (json sampleDeps) (\<lambda>_. None) (\<lambda>_. []) 0 NotExist (Contents ''MZ'') (NotExist, NotExist))"

lemma sampleMain_answers: "\<exists>s' rep. ServeHTTP sampleDeps sampleWorld sampleRequest sampleMain = Some (s', Ok rep)"
  using main_server [of "json sampleDeps" "\<lambda>_. None" "\<lambda>_. []" 0 NotExist "Contents ''MZ''" "(NotExist, NotExist)"] request_answered [OF _ sampleWorld_wf]
  unfolding sampleMain_def by metis


theorem events_refine_steps_witness:
  "\<exists>y'. (interleave sampleDeps)\<^sup>*\<^sup>* (bootSys sampleServer) y' \<and> sysServer y' = sampleServer
    \<and> sysPC y' = (\<lambda>_. Free)(3 := Answered (sampleRequest\<lparr>URLPath := overlayPath\<rparr>) (Ok (serveOverlay sampleDeps sampleServer)))"
proof -
  let ?r = "sampleRequest\<lparr>URLPath := overlayPath\<rparr>"
  have "systemStep sampleDeps (HttpRequest sampleWorld ?r) (sysServer (bootSys sampleServer)) = Some (sampleServer, Some (Ok (serveOverlay sampleDeps sampleServer)))"
    by (simp add: ServeHTTP_def bootSys_def overlayPath_def genericISOPath_def)
  from events_refine_steps [OF this, of 3] show ?thesis by (simp add: bootSys_def atEnd_def)
qed

end
