(* ===== verification/Go_Heap.thy ===== *)
theory Go_Heap
  imports Go_Maps "HOL-Library.Monad_Syntax"
begin

text \<open>
  The Go heap, for code whose contract is about sharing. A heap is the list of its cells and an address an index into it,
  so that allocation appends a cell; a cell holds an object, the backing array of slices, or a map. A slice names
  its array, offset and length. The view of a value is the tree of everything it reaches, labelled with addresses. The
  locale \<open>deep_copier\<close> is the contract of a \<open>DeepCopyInto\<close> method, and pointers, slices and maps keep it.
\<close>

named_theorems framed_intros
named_theorems copy_steps

section \<open>Cells\<close>

type_synonym addr = nat

datatype 'v cell = Obj 'v | Arr "'v list" | Dict "'v gomap"

type_synonym 'v heap = "'v cell list"

type_synonym ref = "addr option"
type_synonym slice = "(addr \<times> nat \<times> nat) option"

definition load :: "addr \<Rightarrow> 'v heap \<Rightarrow> 'v cell option" where
  "load a h = (if a < length h then Some (h ! a) else None)"

definition store :: "addr \<Rightarrow> 'v cell \<Rightarrow> 'v heap \<Rightarrow> 'v heap" where
  "store a c h = h[a := c]"

definition alloc :: "'v cell \<Rightarrow> 'v heap \<Rightarrow> addr \<times> 'v heap" where
  "alloc c h = (length h, h @ [c])"

text \<open>
  Typed reads: the heap is one for all types, a function such as \<open>dec\<close> gives the value of one type. Reading
  a cell of another type is not possible in Go and has no result here.
\<close>

definition loadObj :: "('v \<Rightarrow> 'a option) \<Rightarrow> addr \<Rightarrow> 'v heap \<Rightarrow> 'a option" where
  "loadObj dec a h = (case load a h of Some (Obj v) \<Rightarrow> dec v | _ \<Rightarrow> None)"

definition loadArr :: "('v \<Rightarrow> 'a option) \<Rightarrow> addr \<times> nat \<times> nat \<Rightarrow> 'v heap \<Rightarrow> 'a list option" where
  "loadArr dec s h = (case s of (a, off, n) \<Rightarrow> (case load a h of
       Some (Arr vs) \<Rightarrow> if off + n \<le> length vs then those (map dec (take n (drop off vs))) else None
     | _ \<Rightarrow> None))"

definition loadDict :: "('v \<Rightarrow> 'a option) \<Rightarrow> addr \<Rightarrow> 'v heap \<Rightarrow> 'a gomap option" where
  "loadDict dec a h = (case load a h of
       Some (Dict m) \<Rightarrow> if wfMap m then map_option (zip (keys m)) (those (map (dec \<circ> snd) m)) else None
     | _ \<Rightarrow> None)"

section \<open>Copying\<close>

text \<open>
  The statements of generated copying code, given the copying of one element. \<open>copyRef\<close> is
  \<open>new\<close> followed by a copy into the new object, of a pointer that may be \<open>nil\<close>; \<open>copySlice\<close> is \<open>make\<close> followed by the loop over the
  indices; \<open>copyDict\<close> is \<open>make\<close> followed by the loop over the entries. The elements of an array or map are
  written when all of them are copied. Plain values are copied by assignment.
\<close>

definition assign :: "'a \<Rightarrow> 'v heap \<Rightarrow> ('a \<times> 'v heap) option" where
  "assign x h = Some (x, h)"

definition copyRef :: "('a \<Rightarrow> 'v) \<Rightarrow> ('v \<Rightarrow> 'a option) \<Rightarrow> ('a \<Rightarrow> 'v heap \<Rightarrow> ('a \<times> 'v heap) option)
    \<Rightarrow> ref \<Rightarrow> 'v heap \<Rightarrow> (ref \<times> 'v heap) option" where
  "copyRef enc dec copy p h = (case p of
       None \<Rightarrow> Some (None, h)
     | Some a \<Rightarrow> do {
         x \<leftarrow> loadObj dec a h;
         let (b, h) = alloc (Obj (enc x)) h;
         (y, h) \<leftarrow> copy x h;
         Some (Some b, store b (Obj (enc y)) h)
       })"

fun copyList :: "('a \<Rightarrow> 'v heap \<Rightarrow> ('a \<times> 'v heap) option) \<Rightarrow> 'a list \<Rightarrow> 'v heap \<Rightarrow> ('a list \<times> 'v heap) option" where
  "copyList copy [] h = Some ([], h)"
| "copyList copy (x # xs) h = do {
     (y, h) \<leftarrow> copy x h;
     (ys, h) \<leftarrow> copyList copy xs h;
     Some (y # ys, h)
   }"

definition copySlice :: "('a \<Rightarrow> 'v) \<Rightarrow> ('v \<Rightarrow> 'a option) \<Rightarrow> ('a \<Rightarrow> 'v heap \<Rightarrow> ('a \<times> 'v heap) option)
    \<Rightarrow> slice \<Rightarrow> 'v heap \<Rightarrow> (slice \<times> 'v heap) option" where
  "copySlice enc dec copy s h = (case s of
       None \<Rightarrow> Some (None, h)
     | Some s \<Rightarrow> do {
         xs \<leftarrow> loadArr dec s h;
         let (b, h) = alloc (Arr []) h;
         (ys, h) \<leftarrow> copyList copy xs h;
         Some (Some (b, 0, length xs), store b (Arr (map enc ys)) h)
       })"

definition copyDict :: "('a \<Rightarrow> 'v) \<Rightarrow> ('v \<Rightarrow> 'a option) \<Rightarrow> ('a \<Rightarrow> 'v heap \<Rightarrow> ('a \<times> 'v heap) option)
    \<Rightarrow> ref \<Rightarrow> 'v heap \<Rightarrow> (ref \<times> 'v heap) option" where
  "copyDict enc dec copy p h = (case p of
       None \<Rightarrow> Some (None, h)
     | Some a \<Rightarrow> do {
         m \<leftarrow> loadDict dec a h;
         let (b, h) = alloc (Dict []) h;
         (ys, h) \<leftarrow> copyList copy (map snd m) h;
         Some (Some b, store b (Dict (fold (\<lambda>(k, y). mapSet k (enc y)) (zip (keys m) ys) [])) h)
       })"

text \<open>\<open>*val.DeepCopy()\<close> on a local variable: the variable, the new object, and its value.\<close>

definition valCopy :: "('a \<Rightarrow> 'v) \<Rightarrow> ('v \<Rightarrow> 'a option) \<Rightarrow> (ref \<Rightarrow> 'v heap \<Rightarrow> (ref \<times> 'v heap) option)
    \<Rightarrow> 'a \<Rightarrow> 'v heap \<Rightarrow> ('a \<times> 'v heap) option" where
  "valCopy enc dec deepCopy val h = do {
     let (a, h) = alloc (Obj (enc val)) h;
     (p, h) \<leftarrow> deepCopy (Some a) h;
     b \<leftarrow> p;
     y \<leftarrow> loadObj dec b h;
     Some (y, h)
   }"

section \<open>Views\<close>

datatype 'a tree =
    Str string
  | Num int
  | Flag bool
  | NilRef
  | Struct "(string \<times> 'a tree) list"
  | Ptr 'a "'a tree"
  | Elems 'a "'a tree list"
  | Entries 'a "(string \<times> 'a tree) list"

text \<open>The addresses of a tree, and its shape: two values are deeply equal when their trees have the same shape.\<close>

primrec addrs :: "'a tree \<Rightarrow> 'a list" where
  "addrs (Str s) = []"
| "addrs (Num i) = []"
| "addrs (Flag b) = []"
| "addrs NilRef = []"
| "addrs (Struct fs) = concat (map snd (map (map_prod id addrs) fs))"
| "addrs (Ptr a t) = a # addrs t"
| "addrs (Elems a ts) = a # concat (map addrs ts)"
| "addrs (Entries a es) = a # concat (map snd (map (map_prod id addrs) es))"

definition shape :: "'a tree \<Rightarrow> unit tree" where
  "shape t = map_tree (\<lambda>_. ()) t"

type_synonym 'v view = "'v heap \<Rightarrow> addr tree option"

primrec views :: "'v view list \<Rightarrow> 'v heap \<Rightarrow> addr tree list option" where
  "views [] h = Some []"
| "views (v # vs) h = do { t \<leftarrow> v h; ts \<leftarrow> views vs h; Some (t # ts) }"

definition leaf :: "addr tree \<Rightarrow> 'v view" where
  "leaf t h = Some t"

definition structView :: "(string \<times> 'v view) list \<Rightarrow> 'v view" where
  "structView fs h = map_option (\<lambda>ts. Struct (zip (map fst fs) ts)) (views (map snd fs) h)"

definition viewRef :: "('v \<Rightarrow> 'a option) \<Rightarrow> ('a \<Rightarrow> 'v view) \<Rightarrow> ref \<Rightarrow> 'v view" where
  "viewRef dec view p h = (case p of
       None \<Rightarrow> Some NilRef
     | Some a \<Rightarrow> do { x \<leftarrow> loadObj dec a h; t \<leftarrow> view x h; Some (Ptr a t) })"

definition viewSlice :: "('v \<Rightarrow> 'a option) \<Rightarrow> ('a \<Rightarrow> 'v view) \<Rightarrow> slice \<Rightarrow> 'v view" where
  "viewSlice dec view s h = (case s of
       None \<Rightarrow> Some NilRef
     | Some s \<Rightarrow> do { xs \<leftarrow> loadArr dec s h; ts \<leftarrow> views (map view xs) h; Some (Elems (fst s) ts) })"

definition viewDict :: "('v \<Rightarrow> 'a option) \<Rightarrow> ('a \<Rightarrow> 'v view) \<Rightarrow> ref \<Rightarrow> 'v view" where
  "viewDict dec view p h = (case p of
       None \<Rightarrow> Some NilRef
     | Some a \<Rightarrow> do {
         m \<leftarrow> loadDict dec a h;
         ts \<leftarrow> views (map (view \<circ> snd) m) h;
         Some (Entries a (zip (keys m) ts))
       })"

section \<open>Framing\<close>

text \<open>A view is framed when it depends on nothing but the cells at its addresses.\<close>

definition framed :: "'v view \<Rightarrow> bool" where
  "framed v \<longleftrightarrow> (\<forall>h t. v h = Some t \<longrightarrow> set (addrs t) \<subseteq> {..<length h} \<and>
     (\<forall>h'. (\<forall>a \<in> set (addrs t). load a h' = load a h) \<longrightarrow> v h' = Some t))"

lemma framedD:
  assumes "framed v" "v h = Some t"
  shows "set (addrs t) \<subseteq> {..<length h}" "(\<And>a. a \<in> set (addrs t) \<Longrightarrow> load a h' = load a h) \<Longrightarrow> v h' = Some t"
  using assms unfolding framed_def by blast+

lemma load_append [simp]: "a < length h \<Longrightarrow> load a (h @ n) = load a h"
  by (simp add: load_def nth_append)

lemma load_Some: "load a h = Some c \<Longrightarrow> a < length h"
  by (simp add: load_def split: if_splits)

lemma framed_append:
  assumes "framed v" "v h = Some t"
  shows "v (h @ n) = Some t"
  using framedD [OF assms] by (meson lessThan_iff load_append subsetD)

lemma framed_leaf [framed_intros, simp]: "addrs t = [] \<Longrightarrow> framed (leaf t)"
  by (simp add: framed_def leaf_def)

lemma views_length: "views vs h = Some ts \<Longrightarrow> length ts = length vs"
  by (induction vs arbitrary: ts) (auto simp: bind_eq_Some_conv)

lemma addrs_zip: "length ns = length ts \<Longrightarrow> concat (map snd (map (map_prod id addrs) (zip ns ts))) = concat (map addrs ts)"
  by (induction ns ts rule: list_induct2) simp_all

lemma views_frame:
  assumes "\<forall>v \<in> set vs. framed v" "views vs h = Some ts"
  shows "set (concat (map addrs ts)) \<subseteq> {..<length h} \<and>
    (\<forall>h'. (\<forall>a \<in> set (concat (map addrs ts)). load a h' = load a h) \<longrightarrow> views vs h' = Some ts)"
  using assms
proof (induction vs arbitrary: ts)
  case (Cons v vs)
  obtain t ts' where ts: "v h = Some t" "views vs h = Some ts'" "ts = t # ts'"
    using Cons.prems(2) by (auto simp: bind_eq_Some_conv)
  have v: "framed v" and vs: "\<forall>v \<in> set vs. framed v" using Cons.prems(1) by simp_all
  note IH = Cons.IH [OF vs ts(2)]
  have "views (v # vs) h' = Some ts" if same: "\<forall>a \<in> set (concat (map addrs ts)). load a h' = load a h" for h'
  proof -
    have "v h' = Some t" by (rule framedD(2) [OF v ts(1)]) (use same in \<open>simp add: ts(3)\<close>)
    moreover have "views vs h' = Some ts'" by (rule IH [THEN conjunct2, rule_format]) (use same in \<open>simp add: ts(3)\<close>)
    ultimately show ?thesis by (simp add: ts(3))
  qed
  moreover have "set (concat (map addrs ts)) \<subseteq> {..<length h}"
    using framedD(1) [OF v ts(1)] IH [THEN conjunct1] by (simp add: ts(3))
  ultimately show ?case by blast
qed simp

lemma framed_struct [framed_intros]:
  assumes "\<forall>f \<in> set fs. framed (snd f)"
  shows "framed (structView fs)"
proof -
  have all: "\<forall>v \<in> set (map snd fs). framed v" using assms by simp
  have "set (addrs t) \<subseteq> {..<length h} \<and> (\<forall>h'. (\<forall>a \<in> set (addrs t). load a h' = load a h) \<longrightarrow> structView fs h' = Some t)"
    if st: "structView fs h = Some t" for h t
  proof -
    obtain ts where ts: "views (map snd fs) h = Some ts" "t = Struct (zip (map fst fs) ts)"
      using st by (auto simp: structView_def)
    have addrs: "addrs t = concat (map addrs ts)"
      using addrs_zip [of "map fst fs" ts] views_length [OF ts(1)] by (simp add: ts(2))
    show ?thesis using views_frame [OF all ts(1)] unfolding addrs by (simp add: structView_def ts(2))
  qed
  then show ?thesis unfolding framed_def by blast
qed

lemma loadObj_bound: "loadObj dec a h = Some x \<Longrightarrow> a < length h"
  by (auto simp: loadObj_def load_def split: option.splits if_splits)

lemma loadArr_bound: "loadArr dec s h = Some xs \<Longrightarrow> fst s < length h"
  by (auto simp: loadArr_def load_def split: option.splits if_splits prod.splits)

lemma loadDict_bound: "loadDict dec a h = Some m \<Longrightarrow> a < length h"
  by (auto simp: loadDict_def load_def split: option.splits if_splits)

lemma load_same:
  "load a h' = load a h \<Longrightarrow> loadObj dec a h' = loadObj dec a h"
  "load (fst s) h' = load (fst s) h \<Longrightarrow> loadArr dec s h' = loadArr dec s h"
  "load a h' = load a h \<Longrightarrow> loadDict dec a h' = loadDict dec a h"
  by (cases s; simp add: loadObj_def loadArr_def loadDict_def)+

lemma framedI:
  assumes "\<And>h t. v h = Some t \<Longrightarrow> set (addrs t) \<subseteq> {..<length h}"
    and "\<And>h t h'. v h = Some t \<Longrightarrow> \<forall>a \<in> set (addrs t). load a h' = load a h \<Longrightarrow> v h' = Some t"
  shows "framed v"
  using assms unfolding framed_def by blast

lemma framed_ref [framed_intros]:
  assumes "\<And>x. framed (view x)"
  shows "framed (viewRef dec view p)"
proof (cases p)
  case None
  then show ?thesis by (simp add: framed_def viewRef_def)
next
  case (Some a)
  have parts: "\<exists>x u. loadObj dec a h = Some x \<and> view x h = Some u \<and> t = Ptr a u" if "viewRef dec view p h = Some t" for h t
    using that Some by (auto simp: viewRef_def bind_eq_Some_conv)
  show ?thesis
  proof (rule framedI)
    fix h t assume "viewRef dec view p h = Some t"
    then obtain x u where x: "loadObj dec a h = Some x" "view x h = Some u" "t = Ptr a u" using parts by blast
    then show "set (addrs t) \<subseteq> {..<length h}" using framedD(1) [OF assms x(2)] loadObj_bound [OF x(1)] by simp
    fix h' assume same: "\<forall>a \<in> set (addrs t). load a h' = load a h"
    have "view x h' = Some u" by (rule framedD(2) [OF assms x(2)]) (use same x(3) in simp)
    moreover have "loadObj dec a h' = Some x" using load_same(1) [of a h' h dec] same x by simp
    ultimately show "viewRef dec view p h' = Some t" using Some x(3) by (simp add: viewRef_def)
  qed
qed

lemma framed_slice [framed_intros]:
  assumes "\<And>x. framed (view x)"
  shows "framed (viewSlice dec view p)"
proof (cases p)
  case None
  then show ?thesis by (simp add: framed_def viewSlice_def)
next
  case (Some s)
  have parts: "\<exists>xs ts. loadArr dec s h = Some xs \<and> views (map view xs) h = Some ts \<and> t = Elems (fst s) ts"
    if "viewSlice dec view p h = Some t" for h t
    using that Some by (auto simp: viewSlice_def bind_eq_Some_conv)
  show ?thesis
  proof (rule framedI)
    fix h t assume "viewSlice dec view p h = Some t"
    then obtain xs ts where x: "loadArr dec s h = Some xs" "views (map view xs) h = Some ts" "t = Elems (fst s) ts" using parts by blast
    have "\<forall>v \<in> set (map view xs). framed v" using assms by simp
    note frame = views_frame [OF this x(2)]
    show "set (addrs t) \<subseteq> {..<length h}" using frame loadArr_bound [OF x(1)] by (simp add: x(3))
    fix h' assume same: "\<forall>a \<in> set (addrs t). load a h' = load a h"
    have "views (map view xs) h' = Some ts" by (rule frame [THEN conjunct2, rule_format]) (use same x(3) in auto)
    moreover have "loadArr dec s h' = Some xs" using load_same(2) [of s h' h dec] same x by simp
    ultimately show "viewSlice dec view p h' = Some t" using Some x(3) by (simp add: viewSlice_def)
  qed
qed

lemma framed_dict [framed_intros]:
  assumes "\<And>x. framed (view x)"
  shows "framed (viewDict dec view p)"
proof (cases p)
  case None
  then show ?thesis by (simp add: framed_def viewDict_def)
next
  case (Some a)
  have parts: "\<exists>m ts. loadDict dec a h = Some m \<and> views (map (view \<circ> snd) m) h = Some ts \<and> t = Entries a (zip (keys m) ts)"
    if "viewDict dec view p h = Some t" for h t
    using that Some by (auto simp: viewDict_def bind_eq_Some_conv)
  show ?thesis
  proof (rule framedI)
    fix h t assume "viewDict dec view p h = Some t"
    then obtain m ts where x: "loadDict dec a h = Some m" "views (map (view \<circ> snd) m) h = Some ts" "t = Entries a (zip (keys m) ts)"
      using parts by blast
    have "\<forall>v \<in> set (map (view \<circ> snd) m). framed v" using assms by simp
    note frame = views_frame [OF this x(2)]
    have addrs: "addrs t = a # concat (map addrs ts)"
      using addrs_zip [of "keys m" ts] views_length [OF x(2)] by (simp add: x(3))
    show "set (addrs t) \<subseteq> {..<length h}" using frame loadDict_bound [OF x(1)] by (simp add: addrs)
    fix h' assume same: "\<forall>a \<in> set (addrs t). load a h' = load a h"
    have "views (map (view \<circ> snd) m) h' = Some ts" by (rule frame [THEN conjunct2, rule_format]) (use same addrs in auto)
    moreover have "loadDict dec a h' = Some m" using load_same(3) [of a h' h dec] same addrs x(1) by simp
    ultimately show "viewDict dec view p h' = Some t" using Some x(3) by (simp add: viewDict_def)
  qed
qed

section \<open>The contract of a deep copy\<close>

text \<open>
  A tree is fresh when its addresses are distinct and lie in a range. \<open>copied\<close> says of a copying step that it
  returns, only adds cells to the heap, and gives a value deeply equal to the original that shares no cell with anything older.
\<close>

definition freshs :: "nat \<Rightarrow> nat \<Rightarrow> addr tree list \<Rightarrow> bool" where
  "freshs lo hi ts \<longleftrightarrow> lo \<le> hi \<and> distinct (concat (map addrs ts)) \<and> set (concat (map addrs ts)) \<subseteq> {lo..<hi}"

abbreviation fresh :: "nat \<Rightarrow> nat \<Rightarrow> addr tree \<Rightarrow> bool" where
  "fresh lo hi t \<equiv> freshs lo hi [t]"

definition copied :: "('a \<times> 'v heap) option \<Rightarrow> ('a \<Rightarrow> 'v view) \<Rightarrow> 'v heap \<Rightarrow> addr tree \<Rightarrow> bool" where
  "copied r view h t \<longleftrightarrow> (\<exists>x' n t'. r = Some (x', h @ n) \<and> view x' (h @ n) = Some t' \<and> shape t' = shape t \<and> fresh (length h) (length (h @ n)) t')"

lemma freshs_Nil: "freshs lo lo []"
  by (simp add: freshs_def)

lemma freshs_Cons: "fresh lo mid t \<Longrightarrow> freshs mid hi ts \<Longrightarrow> freshs lo hi (t # ts)"
  by (fastforce simp: freshs_def)

lemma freshs_plain: "addrs t = [] \<Longrightarrow> freshs lo hi ts \<Longrightarrow> freshs lo hi (t # ts)"
  by (simp add: freshs_def)

lemma fresh_struct: "length ns = length ts \<Longrightarrow> fresh lo hi (Struct (zip ns ts)) = freshs lo hi ts"
  using addrs_zip [of ns ts] by (simp add: freshs_def)

text \<open>The result of copying a list of values.\<close>

definition copiedList :: "('a list \<times> 'v heap) option \<Rightarrow> ('a \<Rightarrow> 'v view) \<Rightarrow> 'v heap \<Rightarrow> addr tree list \<Rightarrow> bool" where
  "copiedList r view h ts \<longleftrightarrow> (\<exists>ys n ts'. r = Some (ys, h @ n) \<and> views (map view ys) (h @ n) = Some ts'
     \<and> map shape ts' = map shape ts \<and> freshs (length h) (length (h @ n)) ts')"

lemma views_append:
  assumes "\<forall>v \<in> set vs. framed v" "views vs h = Some ts"
  shows "views vs (h @ n) = Some ts"
proof (rule views_frame [OF assms, THEN conjunct2, rule_format])
  fix a assume "a \<in> set (concat (map addrs ts))"
  then have "a < length h" using views_frame [OF assms] by blast
  then show "load a (h @ n) = load a h" by simp
qed

text \<open>A cell allocated before its contents are copied can be filled in afterwards: nothing that was copied depends on it.\<close>

lemma store_fill: "store (length h) c' ((h @ [c]) @ n) = h @ c' # n"
  by (simp add: store_def)

lemma load_fill: "length h < a \<Longrightarrow> load a (h @ c' # n) = load a ((h @ [c]) @ n)"
  by (simp add: load_def nth_append)

lemma load_new [simp]: "load (length h) (h @ c # n) = Some c"
  by (simp add: load_def)

lemma views_fill:
  assumes "\<forall>v \<in> set vs. framed v" "views vs ((h @ [c]) @ n) = Some ts" "freshs (length (h @ [c])) hi ts"
  shows "views vs (h @ c' # n) = Some ts"
proof (rule views_frame [OF assms(1,2), THEN conjunct2, rule_format])
  fix a assume "a \<in> set (concat (map addrs ts))"
  then have "length h < a" using assms(3) unfolding freshs_def by auto
  then show "load a (h @ c' # n) = load a ((h @ [c]) @ n)" by (rule load_fill)
qed

text \<open>
  A field is settled when it has a copy of the tree of the original, in the given range, that any further growth of the heap keeps.
\<close>

definition grown :: "'v heap \<Rightarrow> 'v heap \<Rightarrow> bool" where
  "grown h g \<longleftrightarrow> (\<exists>n. g = h @ n)"

definition settled :: "'v view list \<Rightarrow> addr tree list \<Rightarrow> nat \<Rightarrow> 'v heap \<Rightarrow> bool" where
  "settled vs ts lo g \<longleftrightarrow> (\<exists>ts'. map shape ts' = map shape ts \<and> freshs lo (length g) ts' \<and> (\<forall>n. views vs (g @ n) = Some ts'))"

definition plain :: "'v view \<Rightarrow> bool" where
  "plain v \<longleftrightarrow> (\<exists>t. addrs t = [] \<and> v = leaf t)"

lemma grown_refl [simp]: "grown h h"
  by (simp add: grown_def)

lemma grown_append: "grown h g \<Longrightarrow> grown h (g @ n)"
  by (auto simp: grown_def)

lemma grown_simps [simp]: "grown h (h @ n)" "grown (h @ n) (h @ m) \<longleftrightarrow> grown n m"
  by (auto simp: grown_def)

locale deep_copier =
  fixes copy :: "'a \<Rightarrow> 'v heap \<Rightarrow> ('a \<times> 'v heap) option" and view :: "'a \<Rightarrow> 'v view"
  assumes view_framed [framed_intros]: "framed (view x)"
    and copy_copied: "view x h = Some t \<Longrightarrow> copied (copy x h) view h t"
begin

lemma view_grow: "view x h = Some t \<Longrightarrow> view x (h @ n) = Some t"
  using framed_append [OF view_framed] .

text \<open>Copying a field and going on.\<close>

lemma copy_bind [copy_steps]:
  assumes "view x h = Some t" "grown h g"
    and "\<And>x' n. settled [view x'] [t] (length g) (g @ n) \<Longrightarrow> grown h (g @ n) \<Longrightarrow> copied (k x' (g @ n)) v h u"
  shows "copied (copy x g \<bind> (\<lambda>(y, g). k y g)) v h u"
proof -
  have "view x g = Some t" using assms(1,2) view_grow by (auto simp: grown_def)
  from copy_copied [OF this] obtain x' n t' where c: "copy x g = Some (x', g @ n)" "view x' (g @ n) = Some t'"
    "shape t' = shape t" "fresh (length g) (length (g @ n)) t'" unfolding copied_def by blast
  have "settled [view x'] [t] (length g) (g @ n)"
    unfolding settled_def using c view_grow [OF c(2)] by (intro exI [of _ "[t']"]) simp
  from assms(3) [OF this grown_append [OF assms(2)]] c(1) show ?thesis by simp
qed

lemma copyList_copied: "views (map view xs) h = Some ts \<Longrightarrow> copiedList (copyList copy xs h) view h ts"
proof (induction xs arbitrary: h ts)
  case Nil
  then show ?case using freshs_Nil by (auto simp: copiedList_def)
next
  case (Cons x xs)
  then obtain t us where ts: "view x h = Some t" "views (map view xs) h = Some us" "ts = t # us" by (auto simp: bind_eq_Some_conv)
  obtain y n t' where y: "copy x h = Some (y, h @ n)" "view y (h @ n) = Some t'" "shape t' = shape t" "fresh (length h) (length (h @ n)) t'"
    using copy_copied [OF ts(1)] unfolding copied_def by blast
  have all: "\<forall>v \<in> set (map view xs). framed v" by (simp add: view_framed)
  obtain ys m us' where ys: "copyList copy xs (h @ n) = Some (ys, (h @ n) @ m)" "views (map view ys) ((h @ n) @ m) = Some us'"
    "map shape us' = map shape us" "freshs (length (h @ n)) (length ((h @ n) @ m)) us'"
    using Cons.IH [OF views_append [OF all ts(2)]] unfolding copiedList_def by blast
  have "freshs (length h) (length ((h @ n) @ m)) (t' # us')" using y(4) ys(4) by (rule freshs_Cons)
  moreover have "views (map view (y # ys)) ((h @ n) @ m) = Some (t' # us')" using view_grow [OF y(2), of m] ys(2) by simp
  ultimately show ?case unfolding copiedList_def
    using y(1,3) ys(1,3) by (intro exI [of _ "y # ys"] exI [of _ "n @ m"] exI [of _ "t' # us'"]) (simp add: ts(3))
qed

end

section \<open>Pointers, slices and maps\<close>

lemma those_Some: "(\<And>x. dec (enc x) = Some x) \<Longrightarrow> those (map (dec \<circ> enc) xs) = Some xs"
  by (induction xs) simp_all

lemma those_length: "those os = Some xs \<Longrightarrow> length xs = length os"
  by (induction os arbitrary: xs) (auto split: option.splits)

lemma fold_mapSet:
  assumes "distinct ks" "length ks = length ys" "set ks \<inter> set (keys m) = {}"
  shows "fold (\<lambda>(k, y). mapSet k (enc y)) (zip ks ys) m = m @ zip ks (map enc ys)"
proof -
  have new: "mapSet k v m = m @ [(k, v)]" if "k \<notin> set (keys m)" for k v and m :: "'b gomap"
    using that unfolding mapSet_def by (induction m) auto
  show ?thesis using assms(2,1,3)
  proof (induction ks ys arbitrary: m rule: list_induct2)
    case (Cons k ks y ys)
    have "k \<notin> set (keys m)" using Cons.prems by simp
    then show ?case using Cons.prems Cons.IH [of "m @ [(k, enc y)]"] by (simp add: new)
  qed simp
qed

lemma fresh_node:
  "freshs (Suc lo) hi [t] \<Longrightarrow> fresh lo hi (Ptr lo t)"
  "freshs (Suc lo) hi ts \<Longrightarrow> fresh lo hi (Elems lo ts)"
  "freshs (Suc lo) hi ts \<Longrightarrow> length ks = length ts \<Longrightarrow> fresh lo hi (Entries lo (zip ks ts))"
  using addrs_zip [of ks ts] by (fastforce simp: freshs_def)+

lemma shape_zip: "map (map_prod id shape) (zip ks ts) = zip ks (map shape ts)"
  by (simp add: zip_map2 map_prod_def)

lemma shape_simps [simp]:
  "shape (Str s) = Str s" "shape (Num i) = Num i" "shape (Flag b) = Flag b" "shape NilRef = NilRef"
  "shape (Ptr a t) = Ptr () (shape t)" "shape (Elems a ts) = Elems () (map shape ts)"
  "shape (Struct (zip ks ts)) = Struct (zip ks (map shape ts))" "shape (Entries a (zip ks ts)) = Entries () (zip ks (map shape ts))"
  using shape_zip [of ks ts] by (simp_all add: shape_def [abs_def])

lemma copied_nil: "view None h = Some NilRef \<Longrightarrow> copied (Some (None, h)) view h NilRef"
  unfolding copied_def by (intro exI [of _ None] exI [of _ "[]"] exI [of _ NilRef]) (simp add: freshs_def)

locale stored_copier = deep_copier copy view
  for copy :: "'a \<Rightarrow> 'v heap \<Rightarrow> ('a \<times> 'v heap) option" and view :: "'a \<Rightarrow> 'v view" +
  fixes enc :: "'a \<Rightarrow> 'v" and dec :: "'v \<Rightarrow> 'a option"
  assumes dec_enc [simp]: "dec (enc x) = Some x"
begin

lemma ref_copied:
  assumes "viewRef dec view p h = Some t"
  shows "copied (copyRef enc dec copy p h) (viewRef dec view) h t"
proof (cases p)
  case None
  with assms show ?thesis using copied_nil [of "viewRef dec view" h] by (simp add: viewRef_def copyRef_def)
next
  case (Some a)
  obtain x u where x: "loadObj dec a h = Some x" "view x h = Some u" "t = Ptr a u"
    using assms Some by (auto simp: viewRef_def bind_eq_Some_conv)
  let ?h = "h @ [Obj (enc x)]"
  obtain y n u' where y: "copy x ?h = Some (y, ?h @ n)" "view y (?h @ n) = Some u'" "shape u' = shape u"
    "fresh (length ?h) (length (?h @ n)) u'"
    using copy_copied [OF view_grow [OF x(2)]] unfolding copied_def by blast
  let ?h' = "h @ Obj (enc y) # n"
  have "views [view y] ?h' = Some [u']"
    by (rule views_fill [where c = "Obj (enc x)" and hi = "length (?h @ n)"]) (use y view_framed in simp_all)
  then have "viewRef dec view (Some (length h)) ?h' = Some (Ptr (length h) u')"
    by (auto simp: viewRef_def loadObj_def bind_eq_Some_conv)
  moreover have "copyRef enc dec copy p h = Some (Some (length h), ?h')"
    unfolding copyRef_def Some using x(1) y(1) store_fill [of h] by (simp add: alloc_def del: append_assoc)
  moreover have "fresh (length h) (length ?h') (Ptr (length h) u')" using y(4) by (intro fresh_node) simp
  moreover have "shape (Ptr (length h) u') = shape t" using y(3) by (simp add: x(3) shape_def)
  ultimately show ?thesis unfolding copied_def by blast
qed


lemma slice_copied:
  assumes "viewSlice dec view p h = Some t"
  shows "copied (copySlice enc dec copy p h) (viewSlice dec view) h t"
proof (cases p)
  case None
  with assms show ?thesis using copied_nil [of "viewSlice dec view" h] by (simp add: viewSlice_def copySlice_def)
next
  case (Some s)
  obtain xs ts where x: "loadArr dec s h = Some xs" "views (map view xs) h = Some ts" "t = Elems (fst s) ts"
    using assms Some by (auto simp: viewSlice_def bind_eq_Some_conv)
  let ?h = "h @ [Arr []]"
  have all: "\<forall>v \<in> set (map view xs). framed v" for xs by (simp add: view_framed)
  obtain ys n ts' where y: "copyList copy xs ?h = Some (ys, ?h @ n)" "views (map view ys) (?h @ n) = Some ts'"
    "map shape ts' = map shape ts" "freshs (length ?h) (length (?h @ n)) ts'"
    using copyList_copied [OF views_append [OF all x(2)]] unfolding copiedList_def by blast
  have len: "length ys = length xs"
    using views_length [OF y(2)] views_length [OF x(2)] map_eq_imp_length_eq [OF y(3)] by simp
  let ?h' = "h @ Arr (map enc ys) # n"
  have "views (map view ys) ?h' = Some ts'" using views_fill [OF all y(2,4)] .
  moreover have "loadArr dec (length h, 0, length xs) ?h' = Some ys"
    using those_Some [of dec enc ys] len by (simp add: loadArr_def flip: len)
  ultimately have "viewSlice dec view (Some (length h, 0, length xs)) ?h' = Some (Elems (length h) ts')"
    by (simp add: viewSlice_def)
  moreover have "copySlice enc dec copy p h = Some (Some (length h, 0, length xs), ?h')"
    unfolding copySlice_def Some using x(1) y(1) store_fill [of h] by (simp add: alloc_def del: append_assoc)
  moreover have "fresh (length h) (length ?h') (Elems (length h) ts')" using y(4) by (intro fresh_node) simp
  ultimately show ?thesis unfolding copied_def using y(3) x(3) by (metis shape_simps(6))
qed

lemma dict_copied:
  assumes "viewDict dec view p h = Some t"
  shows "copied (copyDict enc dec copy p h) (viewDict dec view) h t"
proof (cases p)
  case None
  with assms show ?thesis using copied_nil [of "viewDict dec view" h] by (simp add: viewDict_def copyDict_def)
next
  case (Some a)
  obtain m ts where x: "loadDict dec a h = Some m" "views (map view (map snd m)) h = Some ts" "t = Entries a (zip (keys m) ts)"
    using assms Some by (auto simp: viewDict_def bind_eq_Some_conv)
  let ?h = "h @ [Dict []]"
  have all: "\<forall>v \<in> set (map view xs). framed v" for xs by (simp add: view_framed)
  obtain ys n ts' where y: "copyList copy (map snd m) ?h = Some (ys, ?h @ n)" "views (map view ys) (?h @ n) = Some ts'"
    "map shape ts' = map shape ts" "freshs (length ?h) (length (?h @ n)) ts'"
    using copyList_copied [OF views_append [OF all x(2)]] unfolding copiedList_def by blast
  have len: "length ys = length (keys m)" "length ts' = length (keys m)"
    using views_length [OF y(2)] views_length [OF x(2)] map_eq_imp_length_eq [OF y(3)] by simp_all
  have keys: "distinct (keys m)"
    using x(1) by (auto simp: loadDict_def wfMap_def those_length split: option.splits cell.splits if_splits dest!: those_length)
  let ?d = "zip (keys m) (map enc ys)" and ?h' = "h @ Dict (zip (keys m) (map enc ys)) # n"
  have fill: "fold (\<lambda>(k, y). mapSet k (enc y)) (zip (keys m) ys) [] = ?d" using fold_mapSet [OF keys, of ys "[]" enc] len by simp
  have snd: "map (dec \<circ> snd) ?d = map (dec \<circ> enc) ys" using len by (simp flip: map_map)
  have "loadDict dec (length h) ?h' = Some (zip (keys m) ys)"
    unfolding loadDict_def load_new using those_Some [of dec enc ys] keys len by (simp add: snd wfMap_def)
  moreover have "views (map view ys) ?h' = Some ts'" using views_fill [OF all y(2,4)] .
  ultimately have "viewDict dec view (Some (length h)) ?h' = Some (Entries (length h) (zip (keys m) ts'))"
    using len by (simp add: viewDict_def flip: map_map)
  moreover have "copyDict enc dec copy p h = Some (Some (length h), ?h')"
    unfolding copyDict_def Some using x(1) y(1) store_fill [of h] fill by (simp add: alloc_def del: append_assoc)
  moreover have "fresh (length h) (length ?h') (Entries (length h) (zip (keys m) ts'))" using y(4) len by (intro fresh_node) simp_all
  ultimately show ?thesis unfolding copied_def using y(3) x(3) by (metis shape_simps(8))
qed


lemma val_copied:
  assumes "view x h = Some t"
  shows "copied (valCopy enc dec (copyRef enc dec copy) x h) view h t"
proof -
  let ?h = "h @ [Obj (enc x)]"
  have "viewRef dec view (Some (length h)) ?h = Some (Ptr (length h) t)"
    using view_grow [OF assms, of "[Obj (enc x)]"] by (simp add: viewRef_def loadObj_def)
  from ref_copied [OF this] obtain p n t' where p: "copyRef enc dec copy (Some (length h)) ?h = Some (p, ?h @ n)"
    "viewRef dec view p (?h @ n) = Some t'" "shape t' = shape (Ptr (length h) t)" "fresh (length ?h) (length (?h @ n)) t'"
    unfolding copied_def by blast
  from p(2,3) obtain b y u where y: "p = Some b" "loadObj dec b (?h @ n) = Some y" "view y (?h @ n) = Some u" "t' = Ptr b u"
    by (cases p) (auto simp: viewRef_def bind_eq_Some_conv)
  have "valCopy enc dec (copyRef enc dec copy) x h = Some (y, h @ Obj (enc x) # n)"
    using p(1) y by (simp add: valCopy_def alloc_def)
  moreover have "fresh (length h) (length (h @ Obj (enc x) # n)) u" using p(4) by (auto simp: y(4) freshs_def)
  ultimately show ?thesis using y(3,4) p(3) unfolding copied_def by auto
qed

end

sublocale stored_copier \<subseteq> ref: deep_copier "copyRef enc dec copy" "viewRef dec view"
  by unfold_locales (rule framed_ref, rule view_framed, rule ref_copied)

sublocale stored_copier \<subseteq> slice: deep_copier "copySlice enc dec copy" "viewSlice dec view"
  by unfold_locales (rule framed_slice, rule view_framed, rule slice_copied)

sublocale stored_copier \<subseteq> dict: deep_copier "copyDict enc dec copy" "viewDict dec view"
  by unfold_locales (rule framed_dict, rule view_framed, rule dict_copied)

context stored_copier
begin

lemmas ref_copier = ref.deep_copier_axioms
lemmas slice_copier = slice.deep_copier_axioms

lemma val_copier: "stored_copier (valCopy enc dec (copyRef enc dec copy)) view enc dec"
  by unfold_locales (rule view_framed, rule val_copied, assumption, rule dec_enc)

end

section \<open>Structs\<close>

lemma plain_leaf [simp]: "addrs t = [] \<Longrightarrow> plain (leaf t)"
  unfolding plain_def by blast

lemma plain_struct:
  assumes "\<forall>f \<in> set fs. plain (snd f)"
  shows "plain (structView fs)"
proof -
  have "\<exists>ts. concat (map addrs ts) = [] \<and> length ts = length fs \<and> (\<forall>h. views (map snd fs) h = Some ts)" using assms
  proof (induction fs)
    case (Cons f fs)
    then obtain t ts where "addrs t = []" "snd f = leaf t" "concat (map addrs ts) = []" "length ts = length fs"
      "\<forall>h. views (map snd fs) h = Some ts" by (auto simp: plain_def)
    then show ?case by (intro exI [of _ "t # ts"]) (simp add: leaf_def)
  qed simp
  then obtain ts where "concat (map addrs ts) = []" "length ts = length fs" "\<forall>h. views (map snd fs) h = Some ts" by blast
  then show ?thesis unfolding plain_def
    using addrs_zip [of "map fst fs" ts] by (intro exI [of _ "Struct (zip (map fst fs) ts)"]) (auto simp: structView_def leaf_def)
qed

lemma plain_copier:
  assumes "\<And>x. plain (view x)" "\<And>x. dec (enc x) = Some x"
  shows "stored_copier assign view enc dec"
proof
  show "framed (view x)" for x using assms(1) [of x] by (auto simp: plain_def)
  show "copied (assign x h) view h t" if "view x h = Some t" for x h t
    using that assms(1) [of x] unfolding copied_def assign_def
    by (intro exI [of _ x] exI [of _ "[]"] exI [of _ t]) (auto simp: plain_def leaf_def freshs_def)
qed (rule assms(2))

lemma settled_Nil: "settled [] [] (length g) g"
  by (auto simp: settled_def freshs_def)

lemma settled_Cons:
  assumes "settled [v] [t] lo g" "grown g g'" "settled vs ts (length g) g'"
  shows "settled (v # vs) (t # ts) lo g'"
proof -
  obtain t' where t': "shape t' = shape t" "fresh lo (length g) t'" "\<And>n. v (g @ n) = Some t'"
    using assms(1) unfolding settled_def by (auto simp: bind_eq_Some_conv map_eq_Cons_conv)
  obtain ts' where ts': "map shape ts' = map shape ts" "freshs (length g) (length g') ts'" "\<And>n. views vs (g' @ n) = Some ts'"
    using assms(3) unfolding settled_def by blast
  have "v (g' @ n) = Some t'" for n using assms(2) t'(3) by (auto simp: grown_def)
  then show ?thesis unfolding settled_def
    using t'(1) ts' freshs_Cons [OF t'(2) ts'(2)] by (intro exI [of _ "t' # ts'"]) simp
qed

lemma settled_plain:
  assumes "plain v" "v h = Some t" "settled vs ts lo g"
  shows "settled (v # vs) (t # ts) lo g"
proof -
  obtain ts' where ts': "map shape ts' = map shape ts" "freshs lo (length g) ts'" "\<And>n. views vs (g @ n) = Some ts'"
    using assms(3) unfolding settled_def by blast
  have t: "addrs t = []" "\<And>g. v g = Some t" using assms(1,2) by (auto simp: plain_def leaf_def)
  show ?thesis unfolding settled_def
    using t ts' freshs_plain [OF t(1) ts'(2)] by (intro exI [of _ "t # ts'"]) simp
qed

lemma copied_struct:
  assumes "settled (map snd (fs x')) ts (length h) g" "grown h g" "map fst (fs x') = ns"
  shows "copied (Some (x', g)) (\<lambda>x. structView (fs x)) h (Struct (zip ns ts))"
proof -
  obtain ts' n where ts': "map shape ts' = map shape ts" "freshs (length h) (length g) ts'" "views (map snd (fs x')) g = Some ts'" "g = h @ n"
    using assms(1,2) unfolding settled_def grown_def by (metis append_Nil2)
  have "fresh (length h) (length g) (Struct (zip ns ts'))"
    using ts'(2) fresh_struct [of ns ts'] views_length [OF ts'(3)] assms(3) by auto
  then show ?thesis unfolding copied_def
    using ts' assms(3) by (intro exI [of _ x'] exI [of _ n] exI [of _ "Struct (zip ns ts')"]) (auto simp: structView_def)
qed

lemma struct_copier:
  assumes "\<And>x. \<forall>f \<in> set (fs x). framed (snd f)" "\<And>x. dec (enc x) = Some x"
    and "\<And>x h ts. views (map snd (fs x)) h = Some ts \<Longrightarrow> copied (copy x h) (\<lambda>x. structView (fs x)) h (Struct (zip (map fst (fs x)) ts))"
  shows "stored_copier copy (\<lambda>x. structView (fs x)) enc dec"
proof
  show "framed (structView (fs x))" for x using assms(1) by (rule framed_struct)
  show "copied (copy x h) (\<lambda>x. structView (fs x)) h t" if "structView (fs x) h = Some t" for x h t
    using that assms(3) [of x h] by (auto simp: structView_def)
qed (rule assms(2))

lemma views_ConsE: "views (v # vs) h = Some ts \<Longrightarrow> (\<And>t us. ts = t # us \<Longrightarrow> v h = Some t \<Longrightarrow> views vs h = Some us \<Longrightarrow> thesis) \<Longrightarrow> thesis"
  by (auto simp: bind_eq_Some_conv)

lemma views_NilE: "views [] h = Some ts \<Longrightarrow> (ts = [] \<Longrightarrow> thesis) \<Longrightarrow> thesis"
  by simp

lemmas views_elims = views_ConsE views_NilE

section \<open>Independence of copies\<close>

definition stores :: "(addr \<times> 'v cell) list \<Rightarrow> 'v heap \<Rightarrow> 'v heap" where
  "stores ws h = fold (\<lambda>(a, c). store a c) ws h"

lemma load_stores: "a \<notin> fst ` set ws \<Longrightarrow> load a (stores ws h) = load a h"
  unfolding stores_def by (induction ws arbitrary: h) (auto simp: store_def load_def)

context deep_copier
begin

text \<open>Whatever is written to the cells of a copy, the original stays as it was; whatever is written anywhere else, the copy does.\<close>

lemma copy_independent:
  assumes "view x h = Some t"
  shows "\<exists>x' n t'. copy x h = Some (x', h @ n) \<and> view x' (h @ n) = Some t' \<and> shape t' = shape t \<and> view x (h @ n) = Some t \<and>
    (\<forall>ws. fst ` set ws \<subseteq> set (addrs t') \<longrightarrow> view x (stores ws (h @ n)) = Some t) \<and>
    (\<forall>ws. fst ` set ws \<inter> set (addrs t') = {} \<longrightarrow> view x' (stores ws (h @ n)) = Some t')"
proof -
  from copy_copied [OF assms] obtain x' n t' where c: "copy x h = Some (x', h @ n)" "view x' (h @ n) = Some t'"
    "shape t' = shape t" "fresh (length h) (length (h @ n)) t'" unfolding copied_def by blast
  have old: "set (addrs t) \<subseteq> {..<length h}" using framedD(1) [OF view_framed assms] .
  have new: "set (addrs t') \<subseteq> {length h..}" using c(4) by (auto simp: freshs_def)
  note orig = view_grow [OF assms, of n]
  have "view x (stores ws (h @ n)) = Some t" if "fst ` set ws \<subseteq> set (addrs t')" for ws
  proof (rule framedD(2) [OF view_framed orig])
    fix a assume "a \<in> set (addrs t)"
    then have "a \<notin> fst ` set ws" using old new that by fastforce
    then show "load a (stores ws (h @ n)) = load a (h @ n)" by (rule load_stores)
  qed
  moreover have "view x' (stores ws (h @ n)) = Some t'" if "fst ` set ws \<inter> set (addrs t') = {}" for ws
    by (rule framedD(2) [OF view_framed c(2)], rule load_stores) (use that in blast)
  ultimately show ?thesis using c(1-3) orig by blast
qed

end

end
