(* ===== verification/Api_Types.thy ===== *)
theory Api_Types
  imports Go_Heap
begin

text \<open>
  The types of the \<open>MAASMachine\<close> resource, after \<^verbatim>\<open>api/v1alpha1/shared_types.go\<close>,
    \<^verbatim>\<open>maasmachine_types.go\<close> and \<^verbatim>\<open>groupversion_info.go\<close>: every struct as a record,
    with the name of the struct before each field. Pointers and
  maps are references, slices name a range of an array; what they refer to is in the heap of \<^theory_text>\<open>Go_Heap\<close>, whose
    cells hold a \<open>val\<close>. The Kubernetes types \<open>TypeMeta\<close>, \<open>ObjectMeta\<close>,
    \<open>ListMeta\<close>, \<open>Condition\<close> and \<open>SecretKeySelector\<close> are
  the type parameter. Go's \<open>int\<close> and \<open>int64\<close> are integers: no operation here computes with them.
\<close>

section \<open>Shared types\<close>

type_synonym DesiredState = string

definition StateCommissioned :: DesiredState where "StateCommissioned = ''Commissioned''"
definition StateReady :: DesiredState where "StateReady = ''Ready''"
definition StateDeployed :: DesiredState where "StateDeployed = ''Deployed''"
definition StateReleased :: DesiredState where "StateReleased = ''Released''"

record Identity =
  Identity_SystemID :: string
  Identity_MACAddresses :: slice
  Identity_Hostname :: string
  Identity_Architecture :: string

record BMC =
  BMC_PowerType :: string
  BMC_Address :: string
  BMC_Username :: string
  BMC_Password :: string
  BMC_PasswordSecretRef :: ref
  BMC_Parameters :: ref

record OS =
  OS_Distro :: string
  OS_Release :: string
  OS_Kernel :: string

record ResourceConstraints =
  ResourceConstraints_MinCPU :: int
  ResourceConstraints_MinMemoryMB :: int
  ResourceConstraints_MinDiskGB :: int

section \<open>Placement and hardware\<close>

record Placement =
  Placement_Zone :: string
  Placement_ResourcePool :: string
  Placement_Tags :: slice

type_synonym BusType = string

record DeviceAlias =
  DeviceAlias_Name :: string
  DeviceAlias_Address :: string
  DeviceAlias_Bus :: BusType
  DeviceAlias_Dev :: string

section \<open>Networking\<close>

record Route =
  Route_Destination :: string
  Route_Gateway :: string
  Route_Metric :: ref

record SRIOVConfig =
  SRIOVConfig_VFCount :: int
  SRIOVConfig_TrustMode :: bool

record DeviceMatch =
  DeviceMatch_DeviceAlias :: string
  DeviceMatch_MACAddress :: string

record InterfaceCommon =
  InterfaceCommon_Network :: string
  InterfaceCommon_MTU :: ref
  InterfaceCommon_Addresses :: slice
  InterfaceCommon_Gateway4 :: string
  InterfaceCommon_Routes :: slice
  InterfaceCommon_LinkMode :: string
  InterfaceCommon_DNS :: ref

record EthernetConfig =
  EthernetConfig_InterfaceCommon :: InterfaceCommon
  EthernetConfig_Match :: ref
  EthernetConfig_SRIOV :: ref

record BondMemberAttachment =
  BondMemberAttachment_Match :: DeviceMatch

record BondParameters =
  BondParameters_Mode :: string
  BondParameters_LACPRate :: string
  BondParameters_TransmitHashPolicy :: string
  BondParameters_MIIMonitorInterval :: ref
  BondParameters_UpDelay :: ref
  BondParameters_DownDelay :: ref

record BondConfig =
  BondConfig_InterfaceCommon :: InterfaceCommon
  BondConfig_Interfaces :: slice
  BondConfig_Parameters :: ref

record VLANConfig =
  VLANConfig_InterfaceCommon :: InterfaceCommon
  VLANConfig_ID :: int
  VLANConfig_Link :: string

record FabricNetplanConfig =
  FabricNetplanConfig_Ethernets :: ref
  FabricNetplanConfig_Bonds :: ref
  FabricNetplanConfig_VLANs :: ref

record DNSConfig =
  DNSConfig_Nameservers :: slice
  DNSConfig_Search :: slice

record NetworkConfig =
  NetworkConfig_PrimaryNetwork :: string
  NetworkConfig_DNS :: ref
  NetworkConfig_Fabrics :: ref

section \<open>Storage\<close>

type_synonym StorageLayout = string

record Filesystem =
  Filesystem_Type :: string
  Filesystem_MountPoint :: string
  Filesystem_MountOptions :: string
  Filesystem_Label :: string

record Partition =
  Partition_Name :: string
  Partition_Number :: ref
  Partition_SizeGiB :: ref
  Partition_Grow :: bool
  Partition_Bootable :: bool
  Partition_Labels :: ref
  Partition_Filesystem :: ref

record Disk =
  Disk_DeviceAlias :: string
  Disk_Name :: string
  Disk_Bootable :: bool
  Disk_PartitionTable :: string
  Disk_Labels :: ref
  Disk_Partitions :: slice

record LogicalVolume =
  LogicalVolume_Name :: string
  LogicalVolume_SizeGiB :: ref
  LogicalVolume_Grow :: bool
  LogicalVolume_Filesystem :: ref

record VolumeGroup =
  VolumeGroup_Name :: string
  VolumeGroup_Members :: slice
  VolumeGroup_LogicalVolumes :: slice

record StorageSpec =
  StorageSpec_Layout :: StorageLayout
  StorageSpec_BootDeviceAlias :: string
  StorageSpec_Disks :: slice
  StorageSpec_VolumeGroups :: slice

section \<open>Platform tuning\<close>

type_synonym BootMode = string
type_synonym ProvisioningMethod = string

definition ProvisioningAuto :: ProvisioningMethod where "ProvisioningAuto = ''Auto''"
definition ProvisioningNetwork :: ProvisioningMethod where "ProvisioningNetwork = ''Network''"
definition ProvisioningVirtualMedia :: ProvisioningMethod where "ProvisioningVirtualMedia = ''VirtualMedia''"

record ProvisioningSpec =
  ProvisioningSpec_Method :: ProvisioningMethod

record HugePages =
  HugePages_Name :: string
  HugePages_Size :: string
  HugePages_Count :: int

record PackageRepo =
  PackageRepo_Name :: string
  PackageRepo_Type :: string
  PackageRepo_URL :: string
  PackageRepo_Distributions :: slice
  PackageRepo_Components :: slice
  PackageRepo_GPGKey :: string
  PackageRepo_Arches :: slice

section \<open>Desired and observed state\<close>

record MAASMachineSpec =
  MAASMachineSpec_DesiredState :: DesiredState
  MAASMachineSpec_Identity :: Identity
  MAASMachineSpec_BMC :: ref
  MAASMachineSpec_Placement :: Placement
  MAASMachineSpec_Resources :: ref
  MAASMachineSpec_OS :: OS
  MAASMachineSpec_BootMode :: BootMode
  MAASMachineSpec_Provisioning :: ProvisioningSpec
  MAASMachineSpec_KernelParams :: ref
  MAASMachineSpec_HugePages :: slice
  MAASMachineSpec_CPUSets :: ref
  MAASMachineSpec_DeviceAliases :: slice
  MAASMachineSpec_Network :: ref
  MAASMachineSpec_Storage :: ref
  MAASMachineSpec_OwnerData :: ref
  MAASMachineSpec_SSHAuthorizedKeys :: slice
  MAASMachineSpec_PackageRepositories :: slice
  MAASMachineSpec_UserDataSecretRef :: ref

type_synonym MachinePhase = string

definition MachinePhasePending :: MachinePhase where "MachinePhasePending = ''Pending''"
definition MachinePhaseEnlisting :: MachinePhase where "MachinePhaseEnlisting = ''Enlisting''"
definition MachinePhaseCommissioning :: MachinePhase where "MachinePhaseCommissioning = ''Commissioning''"
definition MachinePhaseReady :: MachinePhase where "MachinePhaseReady = ''Ready''"
definition MachinePhaseDeploying :: MachinePhase where "MachinePhaseDeploying = ''Deploying''"
definition MachinePhaseDeployed :: MachinePhase where "MachinePhaseDeployed = ''Deployed''"
definition MachinePhaseReleasing :: MachinePhase where "MachinePhaseReleasing = ''Releasing''"
definition MachinePhaseReleased :: MachinePhase where "MachinePhaseReleased = ''Released''"
definition MachinePhaseFailed :: MachinePhase where "MachinePhaseFailed = ''Failed''"

record MAASMachineStatus =
  MAASMachineStatus_Phase :: MachinePhase
  MAASMachineStatus_SystemID :: string
  MAASMachineStatus_ProviderID :: string
  MAASMachineStatus_PowerState :: string
  MAASMachineStatus_Addresses :: slice
  MAASMachineStatus_MACAddresses :: slice
  MAASMachineStatus_ResolvedAliases :: ref
  MAASMachineStatus_ObservedGeneration :: int
  MAASMachineStatus_ProvisioningMethod :: ProvisioningMethod
  MAASMachineStatus_ISOObjectKey :: string
  MAASMachineStatus_Conditions :: slice

record 'e MAASMachine =
  MAASMachine_TypeMeta :: "'e"
  MAASMachine_ObjectMeta :: "'e"
  MAASMachine_Spec :: MAASMachineSpec
  MAASMachine_Status :: MAASMachineStatus

record 'e MAASMachineList =
  MAASMachineList_TypeMeta :: "'e"
  MAASMachineList_ListMeta :: "'e"
  MAASMachineList_Items :: slice

section \<open>Group and version\<close>

record GroupVersionInfo =
  Group :: string
  Version :: string

definition GroupVersion :: GroupVersionInfo where
  "GroupVersion = \<lparr>Group = ''maas.airshipit.org'', Version = ''v1alpha1''\<rparr>"

section \<open>Values in the heap\<close>

datatype 'e val =
     VInt int
  | VInt64 int
  | VString string
  | VSecretKeySelector 'e
  | VCondition 'e
  | VIdentity Identity
  | VBMC BMC
  | VOS OS
  | VResourceConstraints ResourceConstraints
  | VPlacement Placement
  | VDeviceAlias DeviceAlias
  | VRoute Route
  | VSRIOVConfig SRIOVConfig
  | VDeviceMatch DeviceMatch
  | VInterfaceCommon InterfaceCommon
  | VEthernetConfig EthernetConfig
  | VBondMemberAttachment BondMemberAttachment
  | VBondParameters BondParameters
  | VBondConfig BondConfig
  | VVLANConfig VLANConfig
  | VFabricNetplanConfig FabricNetplanConfig
  | VDNSConfig DNSConfig
  | VNetworkConfig NetworkConfig
  | VFilesystem Filesystem
  | VPartition Partition
  | VDisk Disk
  | VLogicalVolume LogicalVolume
  | VVolumeGroup VolumeGroup
  | VStorageSpec StorageSpec
  | VProvisioningSpec ProvisioningSpec
  | VHugePages HugePages
  | VPackageRepo PackageRepo
  | VMAASMachineSpec MAASMachineSpec
  | VMAASMachineStatus MAASMachineStatus
  | VMAASMachine "'e MAASMachine"
  | VMAASMachineList "'e MAASMachineList"

definition asInt :: "'e val \<Rightarrow> int option" where
  "asInt v = (case v of VInt x \<Rightarrow> Some x | _ \<Rightarrow> None)"

definition asInt64 :: "'e val \<Rightarrow> int option" where
  "asInt64 v = (case v of VInt64 x \<Rightarrow> Some x | _ \<Rightarrow> None)"

definition asString :: "'e val \<Rightarrow> string option" where
  "asString v = (case v of VString x \<Rightarrow> Some x | _ \<Rightarrow> None)"

definition asSecretKeySelector :: "'e val \<Rightarrow> 'e option" where
  "asSecretKeySelector v = (case v of VSecretKeySelector x \<Rightarrow> Some x | _ \<Rightarrow> None)"

definition asCondition :: "'e val \<Rightarrow> 'e option" where
  "asCondition v = (case v of VCondition x \<Rightarrow> Some x | _ \<Rightarrow> None)"

definition asIdentity :: "'e val \<Rightarrow> Identity option" where
  "asIdentity v = (case v of VIdentity x \<Rightarrow> Some x | _ \<Rightarrow> None)"

definition asBMC :: "'e val \<Rightarrow> BMC option" where
  "asBMC v = (case v of VBMC x \<Rightarrow> Some x | _ \<Rightarrow> None)"

definition asOS :: "'e val \<Rightarrow> OS option" where
  "asOS v = (case v of VOS x \<Rightarrow> Some x | _ \<Rightarrow> None)"

definition asResourceConstraints :: "'e val \<Rightarrow> ResourceConstraints option" where
  "asResourceConstraints v = (case v of VResourceConstraints x \<Rightarrow> Some x | _ \<Rightarrow> None)"

definition asPlacement :: "'e val \<Rightarrow> Placement option" where
  "asPlacement v = (case v of VPlacement x \<Rightarrow> Some x | _ \<Rightarrow> None)"

definition asDeviceAlias :: "'e val \<Rightarrow> DeviceAlias option" where
  "asDeviceAlias v = (case v of VDeviceAlias x \<Rightarrow> Some x | _ \<Rightarrow> None)"

definition asRoute :: "'e val \<Rightarrow> Route option" where
  "asRoute v = (case v of VRoute x \<Rightarrow> Some x | _ \<Rightarrow> None)"

definition asSRIOVConfig :: "'e val \<Rightarrow> SRIOVConfig option" where
  "asSRIOVConfig v = (case v of VSRIOVConfig x \<Rightarrow> Some x | _ \<Rightarrow> None)"

definition asDeviceMatch :: "'e val \<Rightarrow> DeviceMatch option" where
  "asDeviceMatch v = (case v of VDeviceMatch x \<Rightarrow> Some x | _ \<Rightarrow> None)"

definition asInterfaceCommon :: "'e val \<Rightarrow> InterfaceCommon option" where
  "asInterfaceCommon v = (case v of VInterfaceCommon x \<Rightarrow> Some x | _ \<Rightarrow> None)"

definition asEthernetConfig :: "'e val \<Rightarrow> EthernetConfig option" where
  "asEthernetConfig v = (case v of VEthernetConfig x \<Rightarrow> Some x | _ \<Rightarrow> None)"

definition asBondMemberAttachment :: "'e val \<Rightarrow> BondMemberAttachment option" where
  "asBondMemberAttachment v = (case v of VBondMemberAttachment x \<Rightarrow> Some x | _ \<Rightarrow> None)"

definition asBondParameters :: "'e val \<Rightarrow> BondParameters option" where
  "asBondParameters v = (case v of VBondParameters x \<Rightarrow> Some x | _ \<Rightarrow> None)"

definition asBondConfig :: "'e val \<Rightarrow> BondConfig option" where
  "asBondConfig v = (case v of VBondConfig x \<Rightarrow> Some x | _ \<Rightarrow> None)"

definition asVLANConfig :: "'e val \<Rightarrow> VLANConfig option" where
  "asVLANConfig v = (case v of VVLANConfig x \<Rightarrow> Some x | _ \<Rightarrow> None)"

definition asFabricNetplanConfig :: "'e val \<Rightarrow> FabricNetplanConfig option" where
  "asFabricNetplanConfig v = (case v of VFabricNetplanConfig x \<Rightarrow> Some x | _ \<Rightarrow> None)"

definition asDNSConfig :: "'e val \<Rightarrow> DNSConfig option" where
  "asDNSConfig v = (case v of VDNSConfig x \<Rightarrow> Some x | _ \<Rightarrow> None)"

definition asNetworkConfig :: "'e val \<Rightarrow> NetworkConfig option" where
  "asNetworkConfig v = (case v of VNetworkConfig x \<Rightarrow> Some x | _ \<Rightarrow> None)"

definition asFilesystem :: "'e val \<Rightarrow> Filesystem option" where
  "asFilesystem v = (case v of VFilesystem x \<Rightarrow> Some x | _ \<Rightarrow> None)"

definition asPartition :: "'e val \<Rightarrow> Partition option" where
  "asPartition v = (case v of VPartition x \<Rightarrow> Some x | _ \<Rightarrow> None)"

definition asDisk :: "'e val \<Rightarrow> Disk option" where
  "asDisk v = (case v of VDisk x \<Rightarrow> Some x | _ \<Rightarrow> None)"

definition asLogicalVolume :: "'e val \<Rightarrow> LogicalVolume option" where
  "asLogicalVolume v = (case v of VLogicalVolume x \<Rightarrow> Some x | _ \<Rightarrow> None)"

definition asVolumeGroup :: "'e val \<Rightarrow> VolumeGroup option" where
  "asVolumeGroup v = (case v of VVolumeGroup x \<Rightarrow> Some x | _ \<Rightarrow> None)"

definition asStorageSpec :: "'e val \<Rightarrow> StorageSpec option" where
  "asStorageSpec v = (case v of VStorageSpec x \<Rightarrow> Some x | _ \<Rightarrow> None)"

definition asProvisioningSpec :: "'e val \<Rightarrow> ProvisioningSpec option" where
  "asProvisioningSpec v = (case v of VProvisioningSpec x \<Rightarrow> Some x | _ \<Rightarrow> None)"

definition asHugePages :: "'e val \<Rightarrow> HugePages option" where
  "asHugePages v = (case v of VHugePages x \<Rightarrow> Some x | _ \<Rightarrow> None)"

definition asPackageRepo :: "'e val \<Rightarrow> PackageRepo option" where
  "asPackageRepo v = (case v of VPackageRepo x \<Rightarrow> Some x | _ \<Rightarrow> None)"

definition asMAASMachineSpec :: "'e val \<Rightarrow> MAASMachineSpec option" where
  "asMAASMachineSpec v = (case v of VMAASMachineSpec x \<Rightarrow> Some x | _ \<Rightarrow> None)"

definition asMAASMachineStatus :: "'e val \<Rightarrow> MAASMachineStatus option" where
  "asMAASMachineStatus v = (case v of VMAASMachineStatus x \<Rightarrow> Some x | _ \<Rightarrow> None)"

definition asMAASMachine :: "'e val \<Rightarrow> 'e MAASMachine option" where
  "asMAASMachine v = (case v of VMAASMachine x \<Rightarrow> Some x | _ \<Rightarrow> None)"

definition asMAASMachineList :: "'e val \<Rightarrow> 'e MAASMachineList option" where
  "asMAASMachineList v = (case v of VMAASMachineList x \<Rightarrow> Some x | _ \<Rightarrow> None)"

lemma as_val [simp]:
  "asInt (VInt x0) = Some x0"
  "asInt64 (VInt64 x1) = Some x1"
  "asString (VString x2) = Some x2"
  "asSecretKeySelector (VSecretKeySelector x3) = Some x3"
  "asCondition (VCondition x4) = Some x4"
  "asIdentity (VIdentity x5) = Some x5"
  "asBMC (VBMC x6) = Some x6"
  "asOS (VOS x7) = Some x7"
  "asResourceConstraints (VResourceConstraints x8) = Some x8"
  "asPlacement (VPlacement x9) = Some x9"
  "asDeviceAlias (VDeviceAlias x10) = Some x10"
  "asRoute (VRoute x11) = Some x11"
  "asSRIOVConfig (VSRIOVConfig x12) = Some x12"
  "asDeviceMatch (VDeviceMatch x13) = Some x13"
  "asInterfaceCommon (VInterfaceCommon x14) = Some x14"
  "asEthernetConfig (VEthernetConfig x15) = Some x15"
  "asBondMemberAttachment (VBondMemberAttachment x16) = Some x16"
  "asBondParameters (VBondParameters x17) = Some x17"
  "asBondConfig (VBondConfig x18) = Some x18"
  "asVLANConfig (VVLANConfig x19) = Some x19"
  "asFabricNetplanConfig (VFabricNetplanConfig x20) = Some x20"
  "asDNSConfig (VDNSConfig x21) = Some x21"
  "asNetworkConfig (VNetworkConfig x22) = Some x22"
  "asFilesystem (VFilesystem x23) = Some x23"
  "asPartition (VPartition x24) = Some x24"
  "asDisk (VDisk x25) = Some x25"
  "asLogicalVolume (VLogicalVolume x26) = Some x26"
  "asVolumeGroup (VVolumeGroup x27) = Some x27"
  "asStorageSpec (VStorageSpec x28) = Some x28"
  "asProvisioningSpec (VProvisioningSpec x29) = Some x29"
  "asHugePages (VHugePages x30) = Some x30"
  "asPackageRepo (VPackageRepo x31) = Some x31"
  "asMAASMachineSpec (VMAASMachineSpec x32) = Some x32"
  "asMAASMachineStatus (VMAASMachineStatus x33) = Some x33"
  "asMAASMachine (VMAASMachine x34) = Some x34"
  "asMAASMachineList (VMAASMachineList x35) = Some x35"
    by (simp_all add: asInt_def asInt64_def asString_def asSecretKeySelector_def asCondition_def asIdentity_def asBMC_def asOS_def
    asResourceConstraints_def asPlacement_def asDeviceAlias_def asRoute_def asSRIOVConfig_def asDeviceMatch_def
    asInterfaceCommon_def asEthernetConfig_def asBondMemberAttachment_def asBondParameters_def asBondConfig_def asVLANConfig_def
    asFabricNetplanConfig_def asDNSConfig_def asNetworkConfig_def asFilesystem_def asPartition_def asDisk_def asLogicalVolume_def
    asVolumeGroup_def asStorageSpec_def asProvisioningSpec_def asHugePages_def asPackageRepo_def asMAASMachineSpec_def
    asMAASMachineStatus_def asMAASMachine_def asMAASMachineList_def)

end
