(* ===== verification/Api_DeepCopy.thy ===== *)
theory Api_DeepCopy
  imports Api_Types
begin

text \<open>
  The deep copies of \<^verbatim>\<open>api/v1alpha1/zz_generated.deepcopy.go\<close>. A method \<open>DeepCopyInto\<close> takes the struct it reads and the heap and gives
  the struct it writes and the grown heap: \<open>*out = *in\<close> is the record itself, each statement after it updates a field, and a
  field without a statement, or with a plain assignment, keeps its value. \<open>DeepCopy\<close> takes and gives pointers. The
  methods of the Kubernetes packages are the fields of the record \<open>k8s\<close>. No result means an ill-typed heap.
\<close>

section \<open>Methods of other packages\<close>

text \<open>
  The copying methods, and the views by which their contracts are stated.
\<close>

record 'e k8s =
  copySecretKeySelector :: "'e \<Rightarrow> 'e val heap \<Rightarrow> ('e \<times> 'e val heap) option"
  copyCondition :: "'e \<Rightarrow> 'e val heap \<Rightarrow> ('e \<times> 'e val heap) option"
  copyObjectMeta :: "'e \<Rightarrow> 'e val heap \<Rightarrow> ('e \<times> 'e val heap) option"
  copyListMeta :: "'e \<Rightarrow> 'e val heap \<Rightarrow> ('e \<times> 'e val heap) option"
  viewSecretKeySelector :: "'e \<Rightarrow> 'e val view"
  viewCondition :: "'e \<Rightarrow> 'e val view"
  viewObjectMeta :: "'e \<Rightarrow> 'e val view"
  viewListMeta :: "'e \<Rightarrow> 'e val view"
  viewTypeMeta :: "'e \<Rightarrow> addr tree"

section \<open>Structs without references\<close>

definition DeepCopyInto_OS :: "OS \<Rightarrow> 'e val heap \<Rightarrow> (OS \<times> 'e val heap) option" where
  "DeepCopyInto_OS x h = assign x h"

definition DeepCopy_OS :: "ref \<Rightarrow> 'e val heap \<Rightarrow> (ref \<times> 'e val heap) option" where
  "DeepCopy_OS = copyRef VOS asOS DeepCopyInto_OS"

definition DeepCopyInto_ResourceConstraints :: "ResourceConstraints \<Rightarrow> 'e val heap \<Rightarrow> (ResourceConstraints \<times> 'e val heap) option" where
  "DeepCopyInto_ResourceConstraints x h = assign x h"

definition DeepCopy_ResourceConstraints :: "ref \<Rightarrow> 'e val heap \<Rightarrow> (ref \<times> 'e val heap) option" where
  "DeepCopy_ResourceConstraints = copyRef VResourceConstraints asResourceConstraints DeepCopyInto_ResourceConstraints"

definition DeepCopyInto_DeviceAlias :: "DeviceAlias \<Rightarrow> 'e val heap \<Rightarrow> (DeviceAlias \<times> 'e val heap) option" where
  "DeepCopyInto_DeviceAlias x h = assign x h"

definition DeepCopy_DeviceAlias :: "ref \<Rightarrow> 'e val heap \<Rightarrow> (ref \<times> 'e val heap) option" where
  "DeepCopy_DeviceAlias = copyRef VDeviceAlias asDeviceAlias DeepCopyInto_DeviceAlias"

definition DeepCopyInto_SRIOVConfig :: "SRIOVConfig \<Rightarrow> 'e val heap \<Rightarrow> (SRIOVConfig \<times> 'e val heap) option" where
  "DeepCopyInto_SRIOVConfig x h = assign x h"

definition DeepCopy_SRIOVConfig :: "ref \<Rightarrow> 'e val heap \<Rightarrow> (ref \<times> 'e val heap) option" where
  "DeepCopy_SRIOVConfig = copyRef VSRIOVConfig asSRIOVConfig DeepCopyInto_SRIOVConfig"

definition DeepCopyInto_DeviceMatch :: "DeviceMatch \<Rightarrow> 'e val heap \<Rightarrow> (DeviceMatch \<times> 'e val heap) option" where
  "DeepCopyInto_DeviceMatch x h = assign x h"

definition DeepCopy_DeviceMatch :: "ref \<Rightarrow> 'e val heap \<Rightarrow> (ref \<times> 'e val heap) option" where
  "DeepCopy_DeviceMatch = copyRef VDeviceMatch asDeviceMatch DeepCopyInto_DeviceMatch"

definition DeepCopyInto_BondMemberAttachment :: "BondMemberAttachment \<Rightarrow> 'e val heap \<Rightarrow> (BondMemberAttachment \<times> 'e val heap) option" where
  "DeepCopyInto_BondMemberAttachment x h = assign x h"

definition DeepCopy_BondMemberAttachment :: "ref \<Rightarrow> 'e val heap \<Rightarrow> (ref \<times> 'e val heap) option" where
  "DeepCopy_BondMemberAttachment = copyRef VBondMemberAttachment asBondMemberAttachment DeepCopyInto_BondMemberAttachment"

definition DeepCopyInto_Filesystem :: "Filesystem \<Rightarrow> 'e val heap \<Rightarrow> (Filesystem \<times> 'e val heap) option" where
  "DeepCopyInto_Filesystem x h = assign x h"

definition DeepCopy_Filesystem :: "ref \<Rightarrow> 'e val heap \<Rightarrow> (ref \<times> 'e val heap) option" where
  "DeepCopy_Filesystem = copyRef VFilesystem asFilesystem DeepCopyInto_Filesystem"

definition DeepCopyInto_ProvisioningSpec :: "ProvisioningSpec \<Rightarrow> 'e val heap \<Rightarrow> (ProvisioningSpec \<times> 'e val heap) option" where
  "DeepCopyInto_ProvisioningSpec x h = assign x h"

definition DeepCopy_ProvisioningSpec :: "ref \<Rightarrow> 'e val heap \<Rightarrow> (ref \<times> 'e val heap) option" where
  "DeepCopy_ProvisioningSpec = copyRef VProvisioningSpec asProvisioningSpec DeepCopyInto_ProvisioningSpec"

definition DeepCopyInto_HugePages :: "HugePages \<Rightarrow> 'e val heap \<Rightarrow> (HugePages \<times> 'e val heap) option" where
  "DeepCopyInto_HugePages x h = assign x h"

definition DeepCopy_HugePages :: "ref \<Rightarrow> 'e val heap \<Rightarrow> (ref \<times> 'e val heap) option" where
  "DeepCopy_HugePages = copyRef VHugePages asHugePages DeepCopyInto_HugePages"

section \<open>Identity, power and placement\<close>

definition DeepCopyInto_Identity :: "Identity \<Rightarrow> 'e val heap \<Rightarrow> (Identity \<times> 'e val heap) option" where
  "DeepCopyInto_Identity x h = do {
     (macAddresses, h) \<leftarrow> copySlice VString asString assign (Identity_MACAddresses x) h;
     Some (x\<lparr>Identity_MACAddresses := macAddresses\<rparr>, h)
   }"

definition DeepCopy_Identity :: "ref \<Rightarrow> 'e val heap \<Rightarrow> (ref \<times> 'e val heap) option" where
  "DeepCopy_Identity = copyRef VIdentity asIdentity DeepCopyInto_Identity"

definition DeepCopyInto_BMC :: "'e k8s \<Rightarrow> BMC \<Rightarrow> 'e val heap \<Rightarrow> (BMC \<times> 'e val heap) option" where
  "DeepCopyInto_BMC k x h = do {
     (passwordSecretRef, h) \<leftarrow> copyRef VSecretKeySelector asSecretKeySelector (copySecretKeySelector k) (BMC_PasswordSecretRef x) h;
     (parameters, h) \<leftarrow> copyDict VString asString assign (BMC_Parameters x) h;
     Some (x\<lparr>BMC_PasswordSecretRef := passwordSecretRef, BMC_Parameters := parameters\<rparr>, h)
   }"

definition DeepCopy_BMC :: "'e k8s \<Rightarrow> ref \<Rightarrow> 'e val heap \<Rightarrow> (ref \<times> 'e val heap) option" where
  "DeepCopy_BMC k = copyRef VBMC asBMC (DeepCopyInto_BMC k)"

definition DeepCopyInto_Placement :: "Placement \<Rightarrow> 'e val heap \<Rightarrow> (Placement \<times> 'e val heap) option" where
  "DeepCopyInto_Placement x h = do {
     (tags, h) \<leftarrow> copySlice VString asString assign (Placement_Tags x) h;
     Some (x\<lparr>Placement_Tags := tags\<rparr>, h)
   }"

definition DeepCopy_Placement :: "ref \<Rightarrow> 'e val heap \<Rightarrow> (ref \<times> 'e val heap) option" where
  "DeepCopy_Placement = copyRef VPlacement asPlacement DeepCopyInto_Placement"

section \<open>Networking\<close>

definition DeepCopyInto_Route :: "Route \<Rightarrow> 'e val heap \<Rightarrow> (Route \<times> 'e val heap) option" where
  "DeepCopyInto_Route x h = do {
     (metric, h) \<leftarrow> copyRef VInt asInt assign (Route_Metric x) h;
     Some (x\<lparr>Route_Metric := metric\<rparr>, h)
   }"

definition DeepCopy_Route :: "ref \<Rightarrow> 'e val heap \<Rightarrow> (ref \<times> 'e val heap) option" where
  "DeepCopy_Route = copyRef VRoute asRoute DeepCopyInto_Route"

definition DeepCopyInto_DNSConfig :: "DNSConfig \<Rightarrow> 'e val heap \<Rightarrow> (DNSConfig \<times> 'e val heap) option" where
  "DeepCopyInto_DNSConfig x h = do {
     (nameservers, h) \<leftarrow> copySlice VString asString assign (DNSConfig_Nameservers x) h;
     (search, h) \<leftarrow> copySlice VString asString assign (DNSConfig_Search x) h;
     Some (x\<lparr>DNSConfig_Nameservers := nameservers, DNSConfig_Search := search\<rparr>, h)
   }"

definition DeepCopy_DNSConfig :: "ref \<Rightarrow> 'e val heap \<Rightarrow> (ref \<times> 'e val heap) option" where
  "DeepCopy_DNSConfig = copyRef VDNSConfig asDNSConfig DeepCopyInto_DNSConfig"

definition DeepCopyInto_InterfaceCommon :: "InterfaceCommon \<Rightarrow> 'e val heap \<Rightarrow> (InterfaceCommon \<times> 'e val heap) option" where
  "DeepCopyInto_InterfaceCommon x h = do {
     (mtu, h) \<leftarrow> copyRef VInt asInt assign (InterfaceCommon_MTU x) h;
     (addresses, h) \<leftarrow> copySlice VString asString assign (InterfaceCommon_Addresses x) h;
     (routes, h) \<leftarrow> copySlice VRoute asRoute DeepCopyInto_Route (InterfaceCommon_Routes x) h;
     (dns, h) \<leftarrow> copyRef VDNSConfig asDNSConfig DeepCopyInto_DNSConfig (InterfaceCommon_DNS x) h;
     Some (x\<lparr>InterfaceCommon_MTU := mtu, InterfaceCommon_Addresses := addresses, InterfaceCommon_Routes := routes,
         InterfaceCommon_DNS := dns\<rparr>, h)
   }"

definition DeepCopy_InterfaceCommon :: "ref \<Rightarrow> 'e val heap \<Rightarrow> (ref \<times> 'e val heap) option" where
  "DeepCopy_InterfaceCommon = copyRef VInterfaceCommon asInterfaceCommon DeepCopyInto_InterfaceCommon"

definition DeepCopyInto_EthernetConfig :: "EthernetConfig \<Rightarrow> 'e val heap \<Rightarrow> (EthernetConfig \<times> 'e val heap) option" where
  "DeepCopyInto_EthernetConfig x h = do {
     (interfaceCommon, h) \<leftarrow> DeepCopyInto_InterfaceCommon (EthernetConfig_InterfaceCommon x) h;
     (match, h) \<leftarrow> copyRef VDeviceMatch asDeviceMatch assign (EthernetConfig_Match x) h;
     (sriov, h) \<leftarrow> copyRef VSRIOVConfig asSRIOVConfig assign (EthernetConfig_SRIOV x) h;
     Some (x\<lparr>EthernetConfig_InterfaceCommon := interfaceCommon, EthernetConfig_Match := match,
         EthernetConfig_SRIOV := sriov\<rparr>, h)
   }"

definition DeepCopy_EthernetConfig :: "ref \<Rightarrow> 'e val heap \<Rightarrow> (ref \<times> 'e val heap) option" where
  "DeepCopy_EthernetConfig = copyRef VEthernetConfig asEthernetConfig DeepCopyInto_EthernetConfig"

definition DeepCopyInto_BondParameters :: "BondParameters \<Rightarrow> 'e val heap \<Rightarrow> (BondParameters \<times> 'e val heap) option" where
  "DeepCopyInto_BondParameters x h = do {
     (miiMonitorInterval, h) \<leftarrow> copyRef VInt asInt assign (BondParameters_MIIMonitorInterval x) h;
     (upDelay, h) \<leftarrow> copyRef VInt asInt assign (BondParameters_UpDelay x) h;
     (downDelay, h) \<leftarrow> copyRef VInt asInt assign (BondParameters_DownDelay x) h;
     Some (x\<lparr>BondParameters_MIIMonitorInterval := miiMonitorInterval, BondParameters_UpDelay := upDelay,
         BondParameters_DownDelay := downDelay\<rparr>, h)
   }"

definition DeepCopy_BondParameters :: "ref \<Rightarrow> 'e val heap \<Rightarrow> (ref \<times> 'e val heap) option" where
  "DeepCopy_BondParameters = copyRef VBondParameters asBondParameters DeepCopyInto_BondParameters"

definition DeepCopyInto_BondConfig :: "BondConfig \<Rightarrow> 'e val heap \<Rightarrow> (BondConfig \<times> 'e val heap) option" where
  "DeepCopyInto_BondConfig x h = do {
     (interfaceCommon, h) \<leftarrow> DeepCopyInto_InterfaceCommon (BondConfig_InterfaceCommon x) h;
     (interfaces, h) \<leftarrow> copySlice VBondMemberAttachment asBondMemberAttachment assign (BondConfig_Interfaces x) h;
     (parameters, h) \<leftarrow> copyRef VBondParameters asBondParameters DeepCopyInto_BondParameters (BondConfig_Parameters x) h;
     Some (x\<lparr>BondConfig_InterfaceCommon := interfaceCommon, BondConfig_Interfaces := interfaces,
         BondConfig_Parameters := parameters\<rparr>, h)
   }"

definition DeepCopy_BondConfig :: "ref \<Rightarrow> 'e val heap \<Rightarrow> (ref \<times> 'e val heap) option" where
  "DeepCopy_BondConfig = copyRef VBondConfig asBondConfig DeepCopyInto_BondConfig"

definition DeepCopyInto_VLANConfig :: "VLANConfig \<Rightarrow> 'e val heap \<Rightarrow> (VLANConfig \<times> 'e val heap) option" where
  "DeepCopyInto_VLANConfig x h = do {
     (interfaceCommon, h) \<leftarrow> DeepCopyInto_InterfaceCommon (VLANConfig_InterfaceCommon x) h;
     Some (x\<lparr>VLANConfig_InterfaceCommon := interfaceCommon\<rparr>, h)
   }"

definition DeepCopy_VLANConfig :: "ref \<Rightarrow> 'e val heap \<Rightarrow> (ref \<times> 'e val heap) option" where
  "DeepCopy_VLANConfig = copyRef VVLANConfig asVLANConfig DeepCopyInto_VLANConfig"

definition DeepCopyInto_FabricNetplanConfig :: "FabricNetplanConfig \<Rightarrow> 'e val heap \<Rightarrow> (FabricNetplanConfig \<times> 'e val heap) option" where
  "DeepCopyInto_FabricNetplanConfig x h = do {
     (ethernets, h) \<leftarrow> copyDict VEthernetConfig asEthernetConfig (valCopy VEthernetConfig asEthernetConfig DeepCopy_EthernetConfig) (FabricNetplanConfig_Ethernets x) h;
     (bonds, h) \<leftarrow> copyDict VBondConfig asBondConfig (valCopy VBondConfig asBondConfig DeepCopy_BondConfig) (FabricNetplanConfig_Bonds x) h;
     (vlaNs, h) \<leftarrow> copyDict VVLANConfig asVLANConfig (valCopy VVLANConfig asVLANConfig DeepCopy_VLANConfig) (FabricNetplanConfig_VLANs x) h;
     Some (x\<lparr>FabricNetplanConfig_Ethernets := ethernets, FabricNetplanConfig_Bonds := bonds,
         FabricNetplanConfig_VLANs := vlaNs\<rparr>, h)
   }"

definition DeepCopy_FabricNetplanConfig :: "ref \<Rightarrow> 'e val heap \<Rightarrow> (ref \<times> 'e val heap) option" where
  "DeepCopy_FabricNetplanConfig = copyRef VFabricNetplanConfig asFabricNetplanConfig DeepCopyInto_FabricNetplanConfig"

definition DeepCopyInto_NetworkConfig :: "NetworkConfig \<Rightarrow> 'e val heap \<Rightarrow> (NetworkConfig \<times> 'e val heap) option" where
  "DeepCopyInto_NetworkConfig x h = do {
     (dns, h) \<leftarrow> copyRef VDNSConfig asDNSConfig DeepCopyInto_DNSConfig (NetworkConfig_DNS x) h;
     (fabrics, h) \<leftarrow> copyDict VFabricNetplanConfig asFabricNetplanConfig (valCopy VFabricNetplanConfig asFabricNetplanConfig DeepCopy_FabricNetplanConfig) (NetworkConfig_Fabrics x) h;
     Some (x\<lparr>NetworkConfig_DNS := dns, NetworkConfig_Fabrics := fabrics\<rparr>, h)
   }"

definition DeepCopy_NetworkConfig :: "ref \<Rightarrow> 'e val heap \<Rightarrow> (ref \<times> 'e val heap) option" where
  "DeepCopy_NetworkConfig = copyRef VNetworkConfig asNetworkConfig DeepCopyInto_NetworkConfig"

section \<open>Storage\<close>

definition DeepCopyInto_Partition :: "Partition \<Rightarrow> 'e val heap \<Rightarrow> (Partition \<times> 'e val heap) option" where
  "DeepCopyInto_Partition x h = do {
     (number, h) \<leftarrow> copyRef VInt asInt assign (Partition_Number x) h;
     (sizeGiB, h) \<leftarrow> copyRef VInt64 asInt64 assign (Partition_SizeGiB x) h;
     (labels, h) \<leftarrow> copyDict VString asString assign (Partition_Labels x) h;
     (filesystem, h) \<leftarrow> copyRef VFilesystem asFilesystem assign (Partition_Filesystem x) h;
     Some (x\<lparr>Partition_Number := number, Partition_SizeGiB := sizeGiB, Partition_Labels := labels,
         Partition_Filesystem := filesystem\<rparr>, h)
   }"

definition DeepCopy_Partition :: "ref \<Rightarrow> 'e val heap \<Rightarrow> (ref \<times> 'e val heap) option" where
  "DeepCopy_Partition = copyRef VPartition asPartition DeepCopyInto_Partition"

definition DeepCopyInto_Disk :: "Disk \<Rightarrow> 'e val heap \<Rightarrow> (Disk \<times> 'e val heap) option" where
  "DeepCopyInto_Disk x h = do {
     (labels, h) \<leftarrow> copyDict VString asString assign (Disk_Labels x) h;
     (partitions, h) \<leftarrow> copySlice VPartition asPartition DeepCopyInto_Partition (Disk_Partitions x) h;
     Some (x\<lparr>Disk_Labels := labels, Disk_Partitions := partitions\<rparr>, h)
   }"

definition DeepCopy_Disk :: "ref \<Rightarrow> 'e val heap \<Rightarrow> (ref \<times> 'e val heap) option" where
  "DeepCopy_Disk = copyRef VDisk asDisk DeepCopyInto_Disk"

definition DeepCopyInto_LogicalVolume :: "LogicalVolume \<Rightarrow> 'e val heap \<Rightarrow> (LogicalVolume \<times> 'e val heap) option" where
  "DeepCopyInto_LogicalVolume x h = do {
     (sizeGiB, h) \<leftarrow> copyRef VInt64 asInt64 assign (LogicalVolume_SizeGiB x) h;
     (filesystem, h) \<leftarrow> copyRef VFilesystem asFilesystem assign (LogicalVolume_Filesystem x) h;
     Some (x\<lparr>LogicalVolume_SizeGiB := sizeGiB, LogicalVolume_Filesystem := filesystem\<rparr>, h)
   }"

definition DeepCopy_LogicalVolume :: "ref \<Rightarrow> 'e val heap \<Rightarrow> (ref \<times> 'e val heap) option" where
  "DeepCopy_LogicalVolume = copyRef VLogicalVolume asLogicalVolume DeepCopyInto_LogicalVolume"

definition DeepCopyInto_VolumeGroup :: "VolumeGroup \<Rightarrow> 'e val heap \<Rightarrow> (VolumeGroup \<times> 'e val heap) option" where
  "DeepCopyInto_VolumeGroup x h = do {
     (members, h) \<leftarrow> copySlice VString asString assign (VolumeGroup_Members x) h;
     (logicalVolumes, h) \<leftarrow> copySlice VLogicalVolume asLogicalVolume DeepCopyInto_LogicalVolume (VolumeGroup_LogicalVolumes x) h;
     Some (x\<lparr>VolumeGroup_Members := members, VolumeGroup_LogicalVolumes := logicalVolumes\<rparr>, h)
   }"

definition DeepCopy_VolumeGroup :: "ref \<Rightarrow> 'e val heap \<Rightarrow> (ref \<times> 'e val heap) option" where
  "DeepCopy_VolumeGroup = copyRef VVolumeGroup asVolumeGroup DeepCopyInto_VolumeGroup"

definition DeepCopyInto_StorageSpec :: "StorageSpec \<Rightarrow> 'e val heap \<Rightarrow> (StorageSpec \<times> 'e val heap) option" where
  "DeepCopyInto_StorageSpec x h = do {
     (disks, h) \<leftarrow> copySlice VDisk asDisk DeepCopyInto_Disk (StorageSpec_Disks x) h;
     (volumeGroups, h) \<leftarrow> copySlice VVolumeGroup asVolumeGroup DeepCopyInto_VolumeGroup (StorageSpec_VolumeGroups x) h;
     Some (x\<lparr>StorageSpec_Disks := disks, StorageSpec_VolumeGroups := volumeGroups\<rparr>, h)
   }"

definition DeepCopy_StorageSpec :: "ref \<Rightarrow> 'e val heap \<Rightarrow> (ref \<times> 'e val heap) option" where
  "DeepCopy_StorageSpec = copyRef VStorageSpec asStorageSpec DeepCopyInto_StorageSpec"

section \<open>The resource\<close>

definition DeepCopyInto_PackageRepo :: "PackageRepo \<Rightarrow> 'e val heap \<Rightarrow> (PackageRepo \<times> 'e val heap) option" where
  "DeepCopyInto_PackageRepo x h = do {
     (distributions, h) \<leftarrow> copySlice VString asString assign (PackageRepo_Distributions x) h;
     (components, h) \<leftarrow> copySlice VString asString assign (PackageRepo_Components x) h;
     (arches, h) \<leftarrow> copySlice VString asString assign (PackageRepo_Arches x) h;
     Some (x\<lparr>PackageRepo_Distributions := distributions, PackageRepo_Components := components, PackageRepo_Arches := arches\<rparr>, h)
   }"

definition DeepCopy_PackageRepo :: "ref \<Rightarrow> 'e val heap \<Rightarrow> (ref \<times> 'e val heap) option" where
  "DeepCopy_PackageRepo = copyRef VPackageRepo asPackageRepo DeepCopyInto_PackageRepo"

definition DeepCopyInto_MAASMachineSpec :: "'e k8s \<Rightarrow> MAASMachineSpec \<Rightarrow> 'e val heap \<Rightarrow> (MAASMachineSpec \<times> 'e val heap) option" where
  "DeepCopyInto_MAASMachineSpec k x h = do {
     (identity, h) \<leftarrow> DeepCopyInto_Identity (MAASMachineSpec_Identity x) h;
     (bmc, h) \<leftarrow> copyRef VBMC asBMC (DeepCopyInto_BMC k) (MAASMachineSpec_BMC x) h;
     (placement, h) \<leftarrow> DeepCopyInto_Placement (MAASMachineSpec_Placement x) h;
     (resources, h) \<leftarrow> copyRef VResourceConstraints asResourceConstraints assign (MAASMachineSpec_Resources x) h;
     (kernelParams, h) \<leftarrow> copyDict VString asString assign (MAASMachineSpec_KernelParams x) h;
     (hugePages, h) \<leftarrow> copySlice VHugePages asHugePages assign (MAASMachineSpec_HugePages x) h;
     (cpuSets, h) \<leftarrow> copyDict VString asString assign (MAASMachineSpec_CPUSets x) h;
     (deviceAliases, h) \<leftarrow> copySlice VDeviceAlias asDeviceAlias assign (MAASMachineSpec_DeviceAliases x) h;
     (network, h) \<leftarrow> copyRef VNetworkConfig asNetworkConfig DeepCopyInto_NetworkConfig (MAASMachineSpec_Network x) h;
     (storage, h) \<leftarrow> copyRef VStorageSpec asStorageSpec DeepCopyInto_StorageSpec (MAASMachineSpec_Storage x) h;
     (ownerData, h) \<leftarrow> copyDict VString asString assign (MAASMachineSpec_OwnerData x) h;
     (sshAuthorizedKeys, h) \<leftarrow> copySlice VString asString assign (MAASMachineSpec_SSHAuthorizedKeys x) h;
     (packageRepositories, h) \<leftarrow> copySlice VPackageRepo asPackageRepo DeepCopyInto_PackageRepo (MAASMachineSpec_PackageRepositories x) h;
     (userDataSecretRef, h) \<leftarrow> copyRef VSecretKeySelector asSecretKeySelector (copySecretKeySelector k) (MAASMachineSpec_UserDataSecretRef x) h;
     Some (x\<lparr>MAASMachineSpec_Identity := identity, MAASMachineSpec_BMC := bmc,
         MAASMachineSpec_Placement := placement, MAASMachineSpec_Resources := resources,
         MAASMachineSpec_KernelParams := kernelParams, MAASMachineSpec_HugePages := hugePages,
         MAASMachineSpec_CPUSets := cpuSets, MAASMachineSpec_DeviceAliases := deviceAliases,
         MAASMachineSpec_Network := network, MAASMachineSpec_Storage := storage,
         MAASMachineSpec_OwnerData := ownerData, MAASMachineSpec_SSHAuthorizedKeys := sshAuthorizedKeys,
         MAASMachineSpec_PackageRepositories := packageRepositories,
         MAASMachineSpec_UserDataSecretRef := userDataSecretRef\<rparr>, h)
   }"

definition DeepCopy_MAASMachineSpec :: "'e k8s \<Rightarrow> ref \<Rightarrow> 'e val heap \<Rightarrow> (ref \<times> 'e val heap) option" where
  "DeepCopy_MAASMachineSpec k = copyRef VMAASMachineSpec asMAASMachineSpec (DeepCopyInto_MAASMachineSpec k)"

definition DeepCopyInto_MAASMachineStatus :: "'e k8s \<Rightarrow> MAASMachineStatus \<Rightarrow> 'e val heap \<Rightarrow> (MAASMachineStatus \<times> 'e val heap) option" where
  "DeepCopyInto_MAASMachineStatus k x h = do {
     (addresses, h) \<leftarrow> copySlice VString asString assign (MAASMachineStatus_Addresses x) h;
     (macAddresses, h) \<leftarrow> copySlice VString asString assign (MAASMachineStatus_MACAddresses x) h;
     (resolvedAliases, h) \<leftarrow> copyDict VString asString assign (MAASMachineStatus_ResolvedAliases x) h;
     (conditions, h) \<leftarrow> copySlice VCondition asCondition (copyCondition k) (MAASMachineStatus_Conditions x) h;
     Some (x\<lparr>MAASMachineStatus_Addresses := addresses, MAASMachineStatus_MACAddresses := macAddresses,
         MAASMachineStatus_ResolvedAliases := resolvedAliases, MAASMachineStatus_Conditions := conditions\<rparr>, h)
   }"

definition DeepCopy_MAASMachineStatus :: "'e k8s \<Rightarrow> ref \<Rightarrow> 'e val heap \<Rightarrow> (ref \<times> 'e val heap) option" where
  "DeepCopy_MAASMachineStatus k = copyRef VMAASMachineStatus asMAASMachineStatus (DeepCopyInto_MAASMachineStatus k)"

definition DeepCopyInto_MAASMachine :: "'e k8s \<Rightarrow> 'e MAASMachine \<Rightarrow> 'e val heap \<Rightarrow> ('e MAASMachine \<times> 'e val heap) option" where
  "DeepCopyInto_MAASMachine k x h = do {
     (objectMeta, h) \<leftarrow> copyObjectMeta k (MAASMachine_ObjectMeta x) h;
     (spec, h) \<leftarrow> DeepCopyInto_MAASMachineSpec k (MAASMachine_Spec x) h;
     (status, h) \<leftarrow> DeepCopyInto_MAASMachineStatus k (MAASMachine_Status x) h;
     Some (x\<lparr>MAASMachine_ObjectMeta := objectMeta, MAASMachine_Spec := spec, MAASMachine_Status := status\<rparr>, h)
   }"

definition DeepCopy_MAASMachine :: "'e k8s \<Rightarrow> ref \<Rightarrow> 'e val heap \<Rightarrow> (ref \<times> 'e val heap) option" where
  "DeepCopy_MAASMachine k = copyRef VMAASMachine asMAASMachine (DeepCopyInto_MAASMachine k)"

definition DeepCopyInto_MAASMachineList :: "'e k8s \<Rightarrow> 'e MAASMachineList \<Rightarrow> 'e val heap \<Rightarrow> ('e MAASMachineList \<times> 'e val heap) option" where
  "DeepCopyInto_MAASMachineList k x h = do {
     (listMeta, h) \<leftarrow> copyListMeta k (MAASMachineList_ListMeta x) h;
     (items, h) \<leftarrow> copySlice VMAASMachine asMAASMachine (DeepCopyInto_MAASMachine k) (MAASMachineList_Items x) h;
     Some (x\<lparr>MAASMachineList_ListMeta := listMeta, MAASMachineList_Items := items\<rparr>, h)
   }"

definition DeepCopy_MAASMachineList :: "'e k8s \<Rightarrow> ref \<Rightarrow> 'e val heap \<Rightarrow> (ref \<times> 'e val heap) option" where
  "DeepCopy_MAASMachineList k = copyRef VMAASMachineList asMAASMachineList (DeepCopyInto_MAASMachineList k)"

section \<open>Runtime objects\<close>

text \<open>
  \<open>DeepCopyObject\<close> returns an interface value: \<open>nil\<close>, or a pointer with its type.
\<close>

datatype Object = NilObject | MachineObject addr | MachineListObject addr

definition DeepCopyObject_MAASMachine :: "'e k8s \<Rightarrow> ref \<Rightarrow> 'e val heap \<Rightarrow> (Object \<times> 'e val heap) option" where
  "DeepCopyObject_MAASMachine k p h = do {
     (c, h) \<leftarrow> DeepCopy_MAASMachine k p h;
     Some (case c of Some a \<Rightarrow> MachineObject a | None \<Rightarrow> NilObject, h)
   }"

definition DeepCopyObject_MAASMachineList :: "'e k8s \<Rightarrow> ref \<Rightarrow> 'e val heap \<Rightarrow> (Object \<times> 'e val heap) option" where
  "DeepCopyObject_MAASMachineList k p h = do {
     (c, h) \<leftarrow> DeepCopy_MAASMachineList k p h;
     Some (case c of Some a \<Rightarrow> MachineListObject a | None \<Rightarrow> NilObject, h)
   }"

end
