(* ===== verification/Api_Copies.thy ===== *)
theory Api_Copies
  imports Api_DeepCopy
begin

text \<open>
  The deep copies of \<^theory_text>\<open>Api_DeepCopy\<close> are deep copies: every struct has a view, the tree of its fields, labelled with their JSON tags,
  and every \<open>DeepCopyInto\<close> fulfils the contract \<open>deep_copier\<close> for it. For the structs that hold Kubernetes types, the contract
  is a consequence of the same contract for the methods of those types.
\<close>

section \<open>Views of plain structs\<close>

abbreviation viewString :: "string \<Rightarrow> 'v view" where
  "viewString s \<equiv> leaf (Str s)"

abbreviation viewInt :: "int \<Rightarrow> 'v view" where
  "viewInt i \<equiv> leaf (Num i)"

definition fields_OS :: "OS \<Rightarrow> (string \<times> 'e val view) list" where
  "fields_OS x =
     [(''distro,omitempty'', leaf (Str (OS_Distro x))),
      (''release,omitempty'', leaf (Str (OS_Release x))),
      (''kernel,omitempty'', leaf (Str (OS_Kernel x)))]"

abbreviation view_OS :: "OS \<Rightarrow> 'e val view" where
  "view_OS \<equiv> \<lambda>x. structView (fields_OS x)"

definition fields_ResourceConstraints :: "ResourceConstraints \<Rightarrow> (string \<times> 'e val view) list" where
  "fields_ResourceConstraints x =
     [(''minCPU,omitempty'', leaf (Num (ResourceConstraints_MinCPU x))),
      (''minMemoryMB,omitempty'', leaf (Num (ResourceConstraints_MinMemoryMB x))),
      (''minDiskGB,omitempty'', leaf (Num (ResourceConstraints_MinDiskGB x)))]"

abbreviation view_ResourceConstraints :: "ResourceConstraints \<Rightarrow> 'e val view" where
  "view_ResourceConstraints \<equiv> \<lambda>x. structView (fields_ResourceConstraints x)"

definition fields_DeviceAlias :: "DeviceAlias \<Rightarrow> (string \<times> 'e val view) list" where
  "fields_DeviceAlias x =
     [(''name'', leaf (Str (DeviceAlias_Name x))),
      (''address'', leaf (Str (DeviceAlias_Address x))),
      (''bus,omitempty'', leaf (Str (DeviceAlias_Bus x))),
      (''dev,omitempty'', leaf (Str (DeviceAlias_Dev x)))]"

abbreviation view_DeviceAlias :: "DeviceAlias \<Rightarrow> 'e val view" where
  "view_DeviceAlias \<equiv> \<lambda>x. structView (fields_DeviceAlias x)"

definition fields_SRIOVConfig :: "SRIOVConfig \<Rightarrow> (string \<times> 'e val view) list" where
  "fields_SRIOVConfig x =
     [(''vfCount'', leaf (Num (SRIOVConfig_VFCount x))),
      (''trustMode,omitempty'', leaf (Flag (SRIOVConfig_TrustMode x)))]"

abbreviation view_SRIOVConfig :: "SRIOVConfig \<Rightarrow> 'e val view" where
  "view_SRIOVConfig \<equiv> \<lambda>x. structView (fields_SRIOVConfig x)"

definition fields_DeviceMatch :: "DeviceMatch \<Rightarrow> (string \<times> 'e val view) list" where
  "fields_DeviceMatch x =
     [(''deviceAlias,omitempty'', leaf (Str (DeviceMatch_DeviceAlias x))),
      (''macAddress,omitempty'', leaf (Str (DeviceMatch_MACAddress x)))]"

abbreviation view_DeviceMatch :: "DeviceMatch \<Rightarrow> 'e val view" where
  "view_DeviceMatch \<equiv> \<lambda>x. structView (fields_DeviceMatch x)"

definition fields_BondMemberAttachment :: "BondMemberAttachment \<Rightarrow> (string \<times> 'e val view) list" where
  "fields_BondMemberAttachment x =
     [(''match'', view_DeviceMatch (BondMemberAttachment_Match x))]"

abbreviation view_BondMemberAttachment :: "BondMemberAttachment \<Rightarrow> 'e val view" where
  "view_BondMemberAttachment \<equiv> \<lambda>x. structView (fields_BondMemberAttachment x)"

definition fields_Filesystem :: "Filesystem \<Rightarrow> (string \<times> 'e val view) list" where
  "fields_Filesystem x =
     [(''type'', leaf (Str (Filesystem_Type x))),
      (''mountPoint,omitempty'', leaf (Str (Filesystem_MountPoint x))),
      (''mountOptions,omitempty'', leaf (Str (Filesystem_MountOptions x))),
      (''label,omitempty'', leaf (Str (Filesystem_Label x)))]"

abbreviation view_Filesystem :: "Filesystem \<Rightarrow> 'e val view" where
  "view_Filesystem \<equiv> \<lambda>x. structView (fields_Filesystem x)"

definition fields_ProvisioningSpec :: "ProvisioningSpec \<Rightarrow> (string \<times> 'e val view) list" where
  "fields_ProvisioningSpec x =
     [(''method,omitempty'', leaf (Str (ProvisioningSpec_Method x)))]"

abbreviation view_ProvisioningSpec :: "ProvisioningSpec \<Rightarrow> 'e val view" where
  "view_ProvisioningSpec \<equiv> \<lambda>x. structView (fields_ProvisioningSpec x)"

definition fields_HugePages :: "HugePages \<Rightarrow> (string \<times> 'e val view) list" where
  "fields_HugePages x =
     [(''name'', leaf (Str (HugePages_Name x))),
      (''size'', leaf (Str (HugePages_Size x))),
      (''count'', leaf (Num (HugePages_Count x)))]"

abbreviation view_HugePages :: "HugePages \<Rightarrow> 'e val view" where
  "view_HugePages \<equiv> \<lambda>x. structView (fields_HugePages x)"

lemma plain_structs [simp]:
  "plain (view_OS x0)"
  "plain (view_ResourceConstraints x1)"
  "plain (view_DeviceAlias x2)"
  "plain (view_SRIOVConfig x3)"
  "plain (view_DeviceMatch x4)"
  "plain (view_BondMemberAttachment x5)"
  "plain (view_Filesystem x6)"
  "plain (view_ProvisioningSpec x7)"
  "plain (view_HugePages x8)"
  by (rule plain_struct; simp add: fields_OS_def fields_ResourceConstraints_def fields_DeviceAlias_def fields_SRIOVConfig_def fields_DeviceMatch_def fields_BondMemberAttachment_def fields_Filesystem_def fields_ProvisioningSpec_def fields_HugePages_def)+

interpretation str: stored_copier assign viewString VString asString
  by (rule plain_copier) simp_all

interpretation int: stored_copier assign viewInt VInt asInt
  by (rule plain_copier) simp_all

interpretation int64: stored_copier assign viewInt VInt64 asInt64
  by (rule plain_copier) simp_all

interpretation os: stored_copier assign view_OS VOS asOS
  by (rule plain_copier) simp_all

interpretation resourceConstraints: stored_copier assign view_ResourceConstraints VResourceConstraints asResourceConstraints
  by (rule plain_copier) simp_all

interpretation deviceAlias: stored_copier assign view_DeviceAlias VDeviceAlias asDeviceAlias
  by (rule plain_copier) simp_all

interpretation sriovConfig: stored_copier assign view_SRIOVConfig VSRIOVConfig asSRIOVConfig
  by (rule plain_copier) simp_all

interpretation deviceMatch: stored_copier assign view_DeviceMatch VDeviceMatch asDeviceMatch
  by (rule plain_copier) simp_all

interpretation bondMemberAttachment: stored_copier assign view_BondMemberAttachment VBondMemberAttachment asBondMemberAttachment
  by (rule plain_copier) simp_all

interpretation filesystem: stored_copier assign view_Filesystem VFilesystem asFilesystem
  by (rule plain_copier) simp_all

interpretation provisioningSpec: stored_copier assign view_ProvisioningSpec VProvisioningSpec asProvisioningSpec
  by (rule plain_copier) simp_all

interpretation hugePages: stored_copier assign view_HugePages VHugePages asHugePages
  by (rule plain_copier) simp_all

definition fields_Identity :: "Identity \<Rightarrow> (string \<times> 'e val view) list" where
  "fields_Identity x =
     [(''systemId,omitempty'', leaf (Str (Identity_SystemID x))),
      (''macAddresses,omitempty'', viewSlice asString viewString (Identity_MACAddresses x)),
      (''hostname,omitempty'', leaf (Str (Identity_Hostname x))),
      (''architecture,omitempty'', leaf (Str (Identity_Architecture x)))]"

abbreviation view_Identity :: "Identity \<Rightarrow> 'e val view" where
  "view_Identity \<equiv> \<lambda>x. structView (fields_Identity x)"

interpretation identity: stored_copier DeepCopyInto_Identity view_Identity VIdentity asIdentity
proof (rule struct_copier)
  fix x h ts assume "views (map snd (fields_Identity x)) h = Some ts"
  then show "copied (DeepCopyInto_Identity x h) view_Identity h (Struct (zip (map fst (fields_Identity x)) ts))"
    unfolding fields_Identity_def [of x] DeepCopyInto_Identity_def list.map snd_conv
    by (elim views_elims) (hypsubst, ((rule copy_steps, assumption, (rule grown_refl | assumption))+), rule copied_struct,
        simp add: fields_Identity_def del: append_assoc length_append,
        (((rule settled_plain, simp, assumption) | (rule settled_Cons, assumption, simp) | rule settled_Nil)+),
        simp_all add: fields_Identity_def)
qed (simp_all add: fields_Identity_def framed_intros)

definition fields_Placement :: "Placement \<Rightarrow> (string \<times> 'e val view) list" where
  "fields_Placement x =
     [(''zone,omitempty'', leaf (Str (Placement_Zone x))),
      (''resourcePool,omitempty'', leaf (Str (Placement_ResourcePool x))),
      (''tags,omitempty'', viewSlice asString viewString (Placement_Tags x))]"

abbreviation view_Placement :: "Placement \<Rightarrow> 'e val view" where
  "view_Placement \<equiv> \<lambda>x. structView (fields_Placement x)"

interpretation placement: stored_copier DeepCopyInto_Placement view_Placement VPlacement asPlacement
proof (rule struct_copier)
  fix x h ts assume "views (map snd (fields_Placement x)) h = Some ts"
  then show "copied (DeepCopyInto_Placement x h) view_Placement h (Struct (zip (map fst (fields_Placement x)) ts))"
    unfolding fields_Placement_def [of x] DeepCopyInto_Placement_def list.map snd_conv
    by (elim views_elims) (hypsubst, ((rule copy_steps, assumption, (rule grown_refl | assumption))+), rule copied_struct,
        simp add: fields_Placement_def del: append_assoc length_append,
        (((rule settled_plain, simp, assumption) | (rule settled_Cons, assumption, simp) | rule settled_Nil)+),
        simp_all add: fields_Placement_def)
qed (simp_all add: fields_Placement_def framed_intros)

definition fields_Route :: "Route \<Rightarrow> (string \<times> 'e val view) list" where
  "fields_Route x =
     [(''destination'', leaf (Str (Route_Destination x))),
      (''gateway'', leaf (Str (Route_Gateway x))),
      (''metric,omitempty'', viewRef asInt viewInt (Route_Metric x))]"

abbreviation view_Route :: "Route \<Rightarrow> 'e val view" where
  "view_Route \<equiv> \<lambda>x. structView (fields_Route x)"

interpretation route: stored_copier DeepCopyInto_Route view_Route VRoute asRoute
proof (rule struct_copier)
  fix x h ts assume "views (map snd (fields_Route x)) h = Some ts"
  then show "copied (DeepCopyInto_Route x h) view_Route h (Struct (zip (map fst (fields_Route x)) ts))"
    unfolding fields_Route_def [of x] DeepCopyInto_Route_def list.map snd_conv
    by (elim views_elims) (hypsubst, ((rule copy_steps, assumption, (rule grown_refl | assumption))+), rule copied_struct,
        simp add: fields_Route_def del: append_assoc length_append,
        (((rule settled_plain, simp, assumption) | (rule settled_Cons, assumption, simp) | rule settled_Nil)+),
        simp_all add: fields_Route_def)
qed (simp_all add: fields_Route_def framed_intros)

definition fields_DNSConfig :: "DNSConfig \<Rightarrow> (string \<times> 'e val view) list" where
  "fields_DNSConfig x =
     [(''nameservers,omitempty'', viewSlice asString viewString (DNSConfig_Nameservers x)),
      (''search,omitempty'', viewSlice asString viewString (DNSConfig_Search x))]"

abbreviation view_DNSConfig :: "DNSConfig \<Rightarrow> 'e val view" where
  "view_DNSConfig \<equiv> \<lambda>x. structView (fields_DNSConfig x)"

interpretation dnsConfig: stored_copier DeepCopyInto_DNSConfig view_DNSConfig VDNSConfig asDNSConfig
proof (rule struct_copier)
  fix x h ts assume "views (map snd (fields_DNSConfig x)) h = Some ts"
  then show "copied (DeepCopyInto_DNSConfig x h) view_DNSConfig h (Struct (zip (map fst (fields_DNSConfig x)) ts))"
    unfolding fields_DNSConfig_def [of x] DeepCopyInto_DNSConfig_def list.map snd_conv
    by (elim views_elims) (hypsubst, ((rule copy_steps, assumption, (rule grown_refl | assumption))+), rule copied_struct,
        simp add: fields_DNSConfig_def del: append_assoc length_append,
        (((rule settled_plain, simp, assumption) | (rule settled_Cons, assumption, simp) | rule settled_Nil)+),
        simp_all add: fields_DNSConfig_def)
qed (simp_all add: fields_DNSConfig_def framed_intros)

definition fields_InterfaceCommon :: "InterfaceCommon \<Rightarrow> (string \<times> 'e val view) list" where
  "fields_InterfaceCommon x =
     [(''network,omitempty'', leaf (Str (InterfaceCommon_Network x))),
      (''mtu,omitempty'', viewRef asInt viewInt (InterfaceCommon_MTU x)),
      (''addresses,omitempty'', viewSlice asString viewString (InterfaceCommon_Addresses x)),
      (''gateway4,omitempty'', leaf (Str (InterfaceCommon_Gateway4 x))),
      (''routes,omitempty'', viewSlice asRoute view_Route (InterfaceCommon_Routes x)),
      (''linkMode,omitempty'', leaf (Str (InterfaceCommon_LinkMode x))),
      (''dns,omitempty'', viewRef asDNSConfig view_DNSConfig (InterfaceCommon_DNS x))]"

abbreviation view_InterfaceCommon :: "InterfaceCommon \<Rightarrow> 'e val view" where
  "view_InterfaceCommon \<equiv> \<lambda>x. structView (fields_InterfaceCommon x)"

interpretation interfaceCommon: stored_copier DeepCopyInto_InterfaceCommon view_InterfaceCommon VInterfaceCommon asInterfaceCommon
proof (rule struct_copier)
  fix x h ts assume "views (map snd (fields_InterfaceCommon x)) h = Some ts"
  then show "copied (DeepCopyInto_InterfaceCommon x h) view_InterfaceCommon h (Struct (zip (map fst (fields_InterfaceCommon x)) ts))"
    unfolding fields_InterfaceCommon_def [of x] DeepCopyInto_InterfaceCommon_def list.map snd_conv
    by (elim views_elims) (hypsubst, ((rule copy_steps, assumption, (rule grown_refl | assumption))+), rule copied_struct,
        simp add: fields_InterfaceCommon_def del: append_assoc length_append,
        (((rule settled_plain, simp, assumption) | (rule settled_Cons, assumption, simp) | rule settled_Nil)+),
        simp_all add: fields_InterfaceCommon_def)
qed (simp_all add: fields_InterfaceCommon_def framed_intros)

definition fields_EthernetConfig :: "EthernetConfig \<Rightarrow> (string \<times> 'e val view) list" where
  "fields_EthernetConfig x =
     [('',inline'', view_InterfaceCommon (EthernetConfig_InterfaceCommon x)),
      (''match,omitempty'', viewRef asDeviceMatch view_DeviceMatch (EthernetConfig_Match x)),
      (''sriov,omitempty'', viewRef asSRIOVConfig view_SRIOVConfig (EthernetConfig_SRIOV x))]"

abbreviation view_EthernetConfig :: "EthernetConfig \<Rightarrow> 'e val view" where
  "view_EthernetConfig \<equiv> \<lambda>x. structView (fields_EthernetConfig x)"

interpretation ethernetConfig: stored_copier DeepCopyInto_EthernetConfig view_EthernetConfig VEthernetConfig asEthernetConfig
proof (rule struct_copier)
  fix x h ts assume "views (map snd (fields_EthernetConfig x)) h = Some ts"
  then show "copied (DeepCopyInto_EthernetConfig x h) view_EthernetConfig h (Struct (zip (map fst (fields_EthernetConfig x)) ts))"
    unfolding fields_EthernetConfig_def [of x] DeepCopyInto_EthernetConfig_def list.map snd_conv
    by (elim views_elims) (hypsubst, ((rule copy_steps, assumption, (rule grown_refl | assumption))+), rule copied_struct,
        simp add: fields_EthernetConfig_def del: append_assoc length_append,
        (((rule settled_plain, simp, assumption) | (rule settled_Cons, assumption, simp) | rule settled_Nil)+),
        simp_all add: fields_EthernetConfig_def)
qed (simp_all add: fields_EthernetConfig_def framed_intros)

interpretation ethernetConfig_val: stored_copier "valCopy VEthernetConfig asEthernetConfig DeepCopy_EthernetConfig" view_EthernetConfig VEthernetConfig asEthernetConfig
  unfolding DeepCopy_EthernetConfig_def by (rule ethernetConfig.val_copier)

definition fields_BondParameters :: "BondParameters \<Rightarrow> (string \<times> 'e val view) list" where
  "fields_BondParameters x =
     [(''mode'', leaf (Str (BondParameters_Mode x))),
      (''lacpRate,omitempty'', leaf (Str (BondParameters_LACPRate x))),
      (''transmitHashPolicy,omitempty'', leaf (Str (BondParameters_TransmitHashPolicy x))),
      (''miiMonitorInterval,omitempty'', viewRef asInt viewInt (BondParameters_MIIMonitorInterval x)),
      (''upDelay,omitempty'', viewRef asInt viewInt (BondParameters_UpDelay x)),
      (''downDelay,omitempty'', viewRef asInt viewInt (BondParameters_DownDelay x))]"

abbreviation view_BondParameters :: "BondParameters \<Rightarrow> 'e val view" where
  "view_BondParameters \<equiv> \<lambda>x. structView (fields_BondParameters x)"

interpretation bondParameters: stored_copier DeepCopyInto_BondParameters view_BondParameters VBondParameters asBondParameters
proof (rule struct_copier)
  fix x h ts assume "views (map snd (fields_BondParameters x)) h = Some ts"
  then show "copied (DeepCopyInto_BondParameters x h) view_BondParameters h (Struct (zip (map fst (fields_BondParameters x)) ts))"
    unfolding fields_BondParameters_def [of x] DeepCopyInto_BondParameters_def list.map snd_conv
    by (elim views_elims) (hypsubst, ((rule copy_steps, assumption, (rule grown_refl | assumption))+), rule copied_struct,
        simp add: fields_BondParameters_def del: append_assoc length_append,
        (((rule settled_plain, simp, assumption) | (rule settled_Cons, assumption, simp) | rule settled_Nil)+),
        simp_all add: fields_BondParameters_def)
qed (simp_all add: fields_BondParameters_def framed_intros)

definition fields_BondConfig :: "BondConfig \<Rightarrow> (string \<times> 'e val view) list" where
  "fields_BondConfig x =
     [('',inline'', view_InterfaceCommon (BondConfig_InterfaceCommon x)),
      (''interfaces'', viewSlice asBondMemberAttachment view_BondMemberAttachment (BondConfig_Interfaces x)),
      (''parameters,omitempty'', viewRef asBondParameters view_BondParameters (BondConfig_Parameters x))]"

abbreviation view_BondConfig :: "BondConfig \<Rightarrow> 'e val view" where
  "view_BondConfig \<equiv> \<lambda>x. structView (fields_BondConfig x)"

interpretation bondConfig: stored_copier DeepCopyInto_BondConfig view_BondConfig VBondConfig asBondConfig
proof (rule struct_copier)
  fix x h ts assume "views (map snd (fields_BondConfig x)) h = Some ts"
  then show "copied (DeepCopyInto_BondConfig x h) view_BondConfig h (Struct (zip (map fst (fields_BondConfig x)) ts))"
    unfolding fields_BondConfig_def [of x] DeepCopyInto_BondConfig_def list.map snd_conv
    by (elim views_elims) (hypsubst, ((rule copy_steps, assumption, (rule grown_refl | assumption))+), rule copied_struct,
        simp add: fields_BondConfig_def del: append_assoc length_append,
        (((rule settled_plain, simp, assumption) | (rule settled_Cons, assumption, simp) | rule settled_Nil)+),
        simp_all add: fields_BondConfig_def)
qed (simp_all add: fields_BondConfig_def framed_intros)

interpretation bondConfig_val: stored_copier "valCopy VBondConfig asBondConfig DeepCopy_BondConfig" view_BondConfig VBondConfig asBondConfig
  unfolding DeepCopy_BondConfig_def by (rule bondConfig.val_copier)

definition fields_VLANConfig :: "VLANConfig \<Rightarrow> (string \<times> 'e val view) list" where
  "fields_VLANConfig x =
     [('',inline'', view_InterfaceCommon (VLANConfig_InterfaceCommon x)),
      (''id'', leaf (Num (VLANConfig_ID x))),
      (''link'', leaf (Str (VLANConfig_Link x)))]"

abbreviation view_VLANConfig :: "VLANConfig \<Rightarrow> 'e val view" where
  "view_VLANConfig \<equiv> \<lambda>x. structView (fields_VLANConfig x)"

interpretation vlanConfig: stored_copier DeepCopyInto_VLANConfig view_VLANConfig VVLANConfig asVLANConfig
proof (rule struct_copier)
  fix x h ts assume "views (map snd (fields_VLANConfig x)) h = Some ts"
  then show "copied (DeepCopyInto_VLANConfig x h) view_VLANConfig h (Struct (zip (map fst (fields_VLANConfig x)) ts))"
    unfolding fields_VLANConfig_def [of x] DeepCopyInto_VLANConfig_def list.map snd_conv
    by (elim views_elims) (hypsubst, ((rule copy_steps, assumption, (rule grown_refl | assumption))+), rule copied_struct,
        simp add: fields_VLANConfig_def del: append_assoc length_append,
        (((rule settled_plain, simp, assumption) | (rule settled_Cons, assumption, simp) | rule settled_Nil)+),
        simp_all add: fields_VLANConfig_def)
qed (simp_all add: fields_VLANConfig_def framed_intros)

interpretation vlanConfig_val: stored_copier "valCopy VVLANConfig asVLANConfig DeepCopy_VLANConfig" view_VLANConfig VVLANConfig asVLANConfig
  unfolding DeepCopy_VLANConfig_def by (rule vlanConfig.val_copier)

definition fields_FabricNetplanConfig :: "FabricNetplanConfig \<Rightarrow> (string \<times> 'e val view) list" where
  "fields_FabricNetplanConfig x =
     [(''ethernets,omitempty'', viewDict asEthernetConfig view_EthernetConfig (FabricNetplanConfig_Ethernets x)),
      (''bonds,omitempty'', viewDict asBondConfig view_BondConfig (FabricNetplanConfig_Bonds x)),
      (''vlans,omitempty'', viewDict asVLANConfig view_VLANConfig (FabricNetplanConfig_VLANs x))]"

abbreviation view_FabricNetplanConfig :: "FabricNetplanConfig \<Rightarrow> 'e val view" where
  "view_FabricNetplanConfig \<equiv> \<lambda>x. structView (fields_FabricNetplanConfig x)"

interpretation fabricNetplanConfig: stored_copier DeepCopyInto_FabricNetplanConfig view_FabricNetplanConfig VFabricNetplanConfig asFabricNetplanConfig
proof (rule struct_copier)
  fix x h ts assume "views (map snd (fields_FabricNetplanConfig x)) h = Some ts"
  then show "copied (DeepCopyInto_FabricNetplanConfig x h) view_FabricNetplanConfig h (Struct (zip (map fst (fields_FabricNetplanConfig x)) ts))"
    unfolding fields_FabricNetplanConfig_def [of x] DeepCopyInto_FabricNetplanConfig_def list.map snd_conv
    by (elim views_elims) (hypsubst, ((rule copy_steps, assumption, (rule grown_refl | assumption))+), rule copied_struct,
        simp add: fields_FabricNetplanConfig_def del: append_assoc length_append,
        (((rule settled_plain, simp, assumption) | (rule settled_Cons, assumption, simp) | rule settled_Nil)+),
        simp_all add: fields_FabricNetplanConfig_def)
qed (simp_all add: fields_FabricNetplanConfig_def framed_intros)

interpretation fabricNetplanConfig_val: stored_copier "valCopy VFabricNetplanConfig asFabricNetplanConfig DeepCopy_FabricNetplanConfig" view_FabricNetplanConfig VFabricNetplanConfig asFabricNetplanConfig
  unfolding DeepCopy_FabricNetplanConfig_def by (rule fabricNetplanConfig.val_copier)

definition fields_NetworkConfig :: "NetworkConfig \<Rightarrow> (string \<times> 'e val view) list" where
  "fields_NetworkConfig x =
     [(''primaryNetwork,omitempty'', leaf (Str (NetworkConfig_PrimaryNetwork x))),
      (''dns,omitempty'', viewRef asDNSConfig view_DNSConfig (NetworkConfig_DNS x)),
      (''fabrics,omitempty'', viewDict asFabricNetplanConfig view_FabricNetplanConfig (NetworkConfig_Fabrics x))]"

abbreviation view_NetworkConfig :: "NetworkConfig \<Rightarrow> 'e val view" where
  "view_NetworkConfig \<equiv> \<lambda>x. structView (fields_NetworkConfig x)"

interpretation networkConfig: stored_copier DeepCopyInto_NetworkConfig view_NetworkConfig VNetworkConfig asNetworkConfig
proof (rule struct_copier)
  fix x h ts assume "views (map snd (fields_NetworkConfig x)) h = Some ts"
  then show "copied (DeepCopyInto_NetworkConfig x h) view_NetworkConfig h (Struct (zip (map fst (fields_NetworkConfig x)) ts))"
    unfolding fields_NetworkConfig_def [of x] DeepCopyInto_NetworkConfig_def list.map snd_conv
    by (elim views_elims) (hypsubst, ((rule copy_steps, assumption, (rule grown_refl | assumption))+), rule copied_struct,
        simp add: fields_NetworkConfig_def del: append_assoc length_append,
        (((rule settled_plain, simp, assumption) | (rule settled_Cons, assumption, simp) | rule settled_Nil)+),
        simp_all add: fields_NetworkConfig_def)
qed (simp_all add: fields_NetworkConfig_def framed_intros)

definition fields_Partition :: "Partition \<Rightarrow> (string \<times> 'e val view) list" where
  "fields_Partition x =
     [(''name'', leaf (Str (Partition_Name x))),
      (''number,omitempty'', viewRef asInt viewInt (Partition_Number x)),
      (''sizeGiB,omitempty'', viewRef asInt64 viewInt (Partition_SizeGiB x)),
      (''grow,omitempty'', leaf (Flag (Partition_Grow x))),
      (''bootable,omitempty'', leaf (Flag (Partition_Bootable x))),
      (''labels,omitempty'', viewDict asString viewString (Partition_Labels x)),
      (''filesystem,omitempty'', viewRef asFilesystem view_Filesystem (Partition_Filesystem x))]"

abbreviation view_Partition :: "Partition \<Rightarrow> 'e val view" where
  "view_Partition \<equiv> \<lambda>x. structView (fields_Partition x)"

interpretation partition: stored_copier DeepCopyInto_Partition view_Partition VPartition asPartition
proof (rule struct_copier)
  fix x h ts assume "views (map snd (fields_Partition x)) h = Some ts"
  then show "copied (DeepCopyInto_Partition x h) view_Partition h (Struct (zip (map fst (fields_Partition x)) ts))"
    unfolding fields_Partition_def [of x] DeepCopyInto_Partition_def list.map snd_conv
    by (elim views_elims) (hypsubst, ((rule copy_steps, assumption, (rule grown_refl | assumption))+), rule copied_struct,
        simp add: fields_Partition_def del: append_assoc length_append,
        (((rule settled_plain, simp, assumption) | (rule settled_Cons, assumption, simp) | rule settled_Nil)+),
        simp_all add: fields_Partition_def)
qed (simp_all add: fields_Partition_def framed_intros)

definition fields_Disk :: "Disk \<Rightarrow> (string \<times> 'e val view) list" where
  "fields_Disk x =
     [(''deviceAlias,omitempty'', leaf (Str (Disk_DeviceAlias x))),
      (''name,omitempty'', leaf (Str (Disk_Name x))),
      (''bootable,omitempty'', leaf (Flag (Disk_Bootable x))),
      (''partitionTable,omitempty'', leaf (Str (Disk_PartitionTable x))),
      (''labels,omitempty'', viewDict asString viewString (Disk_Labels x)),
      (''partitions,omitempty'', viewSlice asPartition view_Partition (Disk_Partitions x))]"

abbreviation view_Disk :: "Disk \<Rightarrow> 'e val view" where
  "view_Disk \<equiv> \<lambda>x. structView (fields_Disk x)"

interpretation disk: stored_copier DeepCopyInto_Disk view_Disk VDisk asDisk
proof (rule struct_copier)
  fix x h ts assume "views (map snd (fields_Disk x)) h = Some ts"
  then show "copied (DeepCopyInto_Disk x h) view_Disk h (Struct (zip (map fst (fields_Disk x)) ts))"
    unfolding fields_Disk_def [of x] DeepCopyInto_Disk_def list.map snd_conv
    by (elim views_elims) (hypsubst, ((rule copy_steps, assumption, (rule grown_refl | assumption))+), rule copied_struct,
        simp add: fields_Disk_def del: append_assoc length_append,
        (((rule settled_plain, simp, assumption) | (rule settled_Cons, assumption, simp) | rule settled_Nil)+),
        simp_all add: fields_Disk_def)
qed (simp_all add: fields_Disk_def framed_intros)

definition fields_LogicalVolume :: "LogicalVolume \<Rightarrow> (string \<times> 'e val view) list" where
  "fields_LogicalVolume x =
     [(''name'', leaf (Str (LogicalVolume_Name x))),
      (''sizeGiB,omitempty'', viewRef asInt64 viewInt (LogicalVolume_SizeGiB x)),
      (''grow,omitempty'', leaf (Flag (LogicalVolume_Grow x))),
      (''filesystem,omitempty'', viewRef asFilesystem view_Filesystem (LogicalVolume_Filesystem x))]"

abbreviation view_LogicalVolume :: "LogicalVolume \<Rightarrow> 'e val view" where
  "view_LogicalVolume \<equiv> \<lambda>x. structView (fields_LogicalVolume x)"

interpretation logicalVolume: stored_copier DeepCopyInto_LogicalVolume view_LogicalVolume VLogicalVolume asLogicalVolume
proof (rule struct_copier)
  fix x h ts assume "views (map snd (fields_LogicalVolume x)) h = Some ts"
  then show "copied (DeepCopyInto_LogicalVolume x h) view_LogicalVolume h (Struct (zip (map fst (fields_LogicalVolume x)) ts))"
    unfolding fields_LogicalVolume_def [of x] DeepCopyInto_LogicalVolume_def list.map snd_conv
    by (elim views_elims) (hypsubst, ((rule copy_steps, assumption, (rule grown_refl | assumption))+), rule copied_struct,
        simp add: fields_LogicalVolume_def del: append_assoc length_append,
        (((rule settled_plain, simp, assumption) | (rule settled_Cons, assumption, simp) | rule settled_Nil)+),
        simp_all add: fields_LogicalVolume_def)
qed (simp_all add: fields_LogicalVolume_def framed_intros)

definition fields_VolumeGroup :: "VolumeGroup \<Rightarrow> (string \<times> 'e val view) list" where
  "fields_VolumeGroup x =
     [(''name'', leaf (Str (VolumeGroup_Name x))),
      (''members'', viewSlice asString viewString (VolumeGroup_Members x)),
      (''logicalVolumes,omitempty'', viewSlice asLogicalVolume view_LogicalVolume (VolumeGroup_LogicalVolumes x))]"

abbreviation view_VolumeGroup :: "VolumeGroup \<Rightarrow> 'e val view" where
  "view_VolumeGroup \<equiv> \<lambda>x. structView (fields_VolumeGroup x)"

interpretation volumeGroup: stored_copier DeepCopyInto_VolumeGroup view_VolumeGroup VVolumeGroup asVolumeGroup
proof (rule struct_copier)
  fix x h ts assume "views (map snd (fields_VolumeGroup x)) h = Some ts"
  then show "copied (DeepCopyInto_VolumeGroup x h) view_VolumeGroup h (Struct (zip (map fst (fields_VolumeGroup x)) ts))"
    unfolding fields_VolumeGroup_def [of x] DeepCopyInto_VolumeGroup_def list.map snd_conv
    by (elim views_elims) (hypsubst, ((rule copy_steps, assumption, (rule grown_refl | assumption))+), rule copied_struct,
        simp add: fields_VolumeGroup_def del: append_assoc length_append,
        (((rule settled_plain, simp, assumption) | (rule settled_Cons, assumption, simp) | rule settled_Nil)+),
        simp_all add: fields_VolumeGroup_def)
qed (simp_all add: fields_VolumeGroup_def framed_intros)

definition fields_StorageSpec :: "StorageSpec \<Rightarrow> (string \<times> 'e val view) list" where
  "fields_StorageSpec x =
     [(''layout,omitempty'', leaf (Str (StorageSpec_Layout x))),
      (''bootDeviceAlias,omitempty'', leaf (Str (StorageSpec_BootDeviceAlias x))),
      (''disks,omitempty'', viewSlice asDisk view_Disk (StorageSpec_Disks x)),
      (''volumeGroups,omitempty'', viewSlice asVolumeGroup view_VolumeGroup (StorageSpec_VolumeGroups x))]"

abbreviation view_StorageSpec :: "StorageSpec \<Rightarrow> 'e val view" where
  "view_StorageSpec \<equiv> \<lambda>x. structView (fields_StorageSpec x)"

interpretation storageSpec: stored_copier DeepCopyInto_StorageSpec view_StorageSpec VStorageSpec asStorageSpec
proof (rule struct_copier)
  fix x h ts assume "views (map snd (fields_StorageSpec x)) h = Some ts"
  then show "copied (DeepCopyInto_StorageSpec x h) view_StorageSpec h (Struct (zip (map fst (fields_StorageSpec x)) ts))"
    unfolding fields_StorageSpec_def [of x] DeepCopyInto_StorageSpec_def list.map snd_conv
    by (elim views_elims) (hypsubst, ((rule copy_steps, assumption, (rule grown_refl | assumption))+), rule copied_struct,
        simp add: fields_StorageSpec_def del: append_assoc length_append,
        (((rule settled_plain, simp, assumption) | (rule settled_Cons, assumption, simp) | rule settled_Nil)+),
        simp_all add: fields_StorageSpec_def)
qed (simp_all add: fields_StorageSpec_def framed_intros)

definition fields_PackageRepo :: "PackageRepo \<Rightarrow> (string \<times> 'e val view) list" where
  "fields_PackageRepo x =
     [(''name'', leaf (Str (PackageRepo_Name x))),
      (''type'', leaf (Str (PackageRepo_Type x))),
      (''url'', leaf (Str (PackageRepo_URL x))),
      (''distributions,omitempty'', viewSlice asString viewString (PackageRepo_Distributions x)),
      (''components,omitempty'', viewSlice asString viewString (PackageRepo_Components x)),
      (''gpgKey,omitempty'', leaf (Str (PackageRepo_GPGKey x))),
      (''arches,omitempty'', viewSlice asString viewString (PackageRepo_Arches x))]"

abbreviation view_PackageRepo :: "PackageRepo \<Rightarrow> 'e val view" where
  "view_PackageRepo \<equiv> \<lambda>x. structView (fields_PackageRepo x)"

interpretation packageRepo: stored_copier DeepCopyInto_PackageRepo view_PackageRepo VPackageRepo asPackageRepo
proof (rule struct_copier)
  fix x h ts assume "views (map snd (fields_PackageRepo x)) h = Some ts"
  then show "copied (DeepCopyInto_PackageRepo x h) view_PackageRepo h (Struct (zip (map fst (fields_PackageRepo x)) ts))"
    unfolding fields_PackageRepo_def [of x] DeepCopyInto_PackageRepo_def list.map snd_conv
    by (elim views_elims) (hypsubst, ((rule copy_steps, assumption, (rule grown_refl | assumption))+), rule copied_struct,
        simp add: fields_PackageRepo_def del: append_assoc length_append,
        (((rule settled_plain, simp, assumption) | (rule settled_Cons, assumption, simp) | rule settled_Nil)+),
        simp_all add: fields_PackageRepo_def)
qed (simp_all add: fields_PackageRepo_def framed_intros)

section \<open>Structs with Kubernetes types\<close>

text \<open>
  The methods of the Kubernetes packages are deep copies, as their documentation says, and a \<open>TypeMeta\<close> holds no reference.
\<close>

definition wfK8s :: "'e k8s \<Rightarrow> bool" where
  "wfK8s k \<longleftrightarrow> stored_copier (copySecretKeySelector k) (viewSecretKeySelector k) VSecretKeySelector asSecretKeySelector
     \<and> stored_copier (copyCondition k) (viewCondition k) VCondition asCondition
     \<and> deep_copier (copyObjectMeta k) (viewObjectMeta k) \<and> deep_copier (copyListMeta k) (viewListMeta k)
     \<and> (\<forall>x. addrs (viewTypeMeta k x) = [])"

lemma wfK8sD:
  assumes "wfK8s k"
  shows "stored_copier (copySecretKeySelector k) (viewSecretKeySelector k) VSecretKeySelector asSecretKeySelector"
    "stored_copier (copyCondition k) (viewCondition k) VCondition asCondition"
    "deep_copier (copyObjectMeta k) (viewObjectMeta k)" "deep_copier (copyListMeta k) (viewListMeta k)"
    "addrs (viewTypeMeta k x) = []"
  using assms by (simp_all add: wfK8s_def)

definition fields_BMC :: "'e k8s \<Rightarrow> BMC \<Rightarrow> (string \<times> 'e val view) list" where
  "fields_BMC k x =
     [(''powerType,omitempty'', leaf (Str (BMC_PowerType x))),
      (''address,omitempty'', leaf (Str (BMC_Address x))),
      (''username,omitempty'', leaf (Str (BMC_Username x))),
      (''password,omitempty'', leaf (Str (BMC_Password x))),
      (''passwordSecretRef,omitempty'', viewRef asSecretKeySelector (viewSecretKeySelector k) (BMC_PasswordSecretRef x)),
      (''parameters,omitempty'', viewDict asString viewString (BMC_Parameters x))]"

abbreviation view_BMC :: "'e k8s \<Rightarrow> BMC \<Rightarrow> 'e val view" where
  "view_BMC k \<equiv> \<lambda>x. structView (fields_BMC k x)"

lemma bmc_copier:
  assumes "wfK8s k"
  shows "stored_copier (DeepCopyInto_BMC k) (view_BMC k) VBMC asBMC"
proof (rule struct_copier)
  note wf = wfK8sD [OF assms] and [simp] = wfK8sD(5) [OF assms]
  note parts = stored_copier.ref_copier [OF wf(1)]
  note steps = copy_steps parts [THEN deep_copier.copy_bind]
  show "\<forall>f \<in> set (fields_BMC k x). framed (snd f)" for x
    using parts [THEN deep_copier.view_framed] by (simp add: fields_BMC_def framed_intros)
  fix x h ts assume "views (map snd (fields_BMC k x)) h = Some ts"
  then show "copied (DeepCopyInto_BMC k x h) (view_BMC k) h (Struct (zip (map fst (fields_BMC k x)) ts))"
    unfolding fields_BMC_def [of k x] DeepCopyInto_BMC_def list.map snd_conv
    by (elim views_elims) (hypsubst, ((rule steps, assumption, (rule grown_refl | assumption))+), rule copied_struct,
        simp add: fields_BMC_def del: append_assoc length_append,
        (((rule settled_plain, simp, assumption) | (rule settled_Cons, assumption, simp) | rule settled_Nil)+),
        simp_all add: fields_BMC_def)
qed simp

definition fields_MAASMachineStatus :: "'e k8s \<Rightarrow> MAASMachineStatus \<Rightarrow> (string \<times> 'e val view) list" where
  "fields_MAASMachineStatus k x =
     [(''phase,omitempty'', leaf (Str (MAASMachineStatus_Phase x))),
      (''systemId,omitempty'', leaf (Str (MAASMachineStatus_SystemID x))),
      (''providerId,omitempty'', leaf (Str (MAASMachineStatus_ProviderID x))),
      (''powerState,omitempty'', leaf (Str (MAASMachineStatus_PowerState x))),
      (''addresses,omitempty'', viewSlice asString viewString (MAASMachineStatus_Addresses x)),
      (''macAddresses,omitempty'', viewSlice asString viewString (MAASMachineStatus_MACAddresses x)),
      (''resolvedAliases,omitempty'', viewDict asString viewString (MAASMachineStatus_ResolvedAliases x)),
      (''observedGeneration,omitempty'', leaf (Num (MAASMachineStatus_ObservedGeneration x))),
      (''provisioningMethod,omitempty'', leaf (Str (MAASMachineStatus_ProvisioningMethod x))),
      (''isoObjectKey,omitempty'', leaf (Str (MAASMachineStatus_ISOObjectKey x))),
      (''conditions,omitempty'', viewSlice asCondition (viewCondition k) (MAASMachineStatus_Conditions x))]"

abbreviation view_MAASMachineStatus :: "'e k8s \<Rightarrow> MAASMachineStatus \<Rightarrow> 'e val view" where
  "view_MAASMachineStatus k \<equiv> \<lambda>x. structView (fields_MAASMachineStatus k x)"

lemma machineStatus_copier:
  assumes "wfK8s k"
  shows "stored_copier (DeepCopyInto_MAASMachineStatus k) (view_MAASMachineStatus k) VMAASMachineStatus asMAASMachineStatus"
proof (rule struct_copier)
  note wf = wfK8sD [OF assms] and [simp] = wfK8sD(5) [OF assms]
  note parts = stored_copier.slice_copier [OF wf(2)]
  note steps = copy_steps parts [THEN deep_copier.copy_bind]
  show "\<forall>f \<in> set (fields_MAASMachineStatus k x). framed (snd f)" for x
    using parts [THEN deep_copier.view_framed] by (simp add: fields_MAASMachineStatus_def framed_intros)
  fix x h ts assume "views (map snd (fields_MAASMachineStatus k x)) h = Some ts"
  then show "copied (DeepCopyInto_MAASMachineStatus k x h) (view_MAASMachineStatus k) h (Struct (zip (map fst (fields_MAASMachineStatus k x)) ts))"
    unfolding fields_MAASMachineStatus_def [of k x] DeepCopyInto_MAASMachineStatus_def list.map snd_conv
    by (elim views_elims) (hypsubst, ((rule steps, assumption, (rule grown_refl | assumption))+), rule copied_struct,
        simp add: fields_MAASMachineStatus_def del: append_assoc length_append,
        (((rule settled_plain, simp, assumption) | (rule settled_Cons, assumption, simp) | rule settled_Nil)+),
        simp_all add: fields_MAASMachineStatus_def)
qed simp

definition fields_MAASMachineSpec :: "'e k8s \<Rightarrow> MAASMachineSpec \<Rightarrow> (string \<times> 'e val view) list" where
  "fields_MAASMachineSpec k x =
     [(''desiredState,omitempty'', leaf (Str (MAASMachineSpec_DesiredState x))),
      (''identity,omitempty'', view_Identity (MAASMachineSpec_Identity x)),
      (''bmc,omitempty'', viewRef asBMC (view_BMC k) (MAASMachineSpec_BMC x)),
      (''placement,omitempty'', view_Placement (MAASMachineSpec_Placement x)),
      (''resources,omitempty'', viewRef asResourceConstraints view_ResourceConstraints (MAASMachineSpec_Resources x)),
      (''os,omitempty'', view_OS (MAASMachineSpec_OS x)),
      (''bootMode,omitempty'', leaf (Str (MAASMachineSpec_BootMode x))),
      (''provisioning,omitempty'', view_ProvisioningSpec (MAASMachineSpec_Provisioning x)),
      (''kernelParams,omitempty'', viewDict asString viewString (MAASMachineSpec_KernelParams x)),
      (''hugePages,omitempty'', viewSlice asHugePages view_HugePages (MAASMachineSpec_HugePages x)),
      (''cpuSets,omitempty'', viewDict asString viewString (MAASMachineSpec_CPUSets x)),
      (''deviceAliases,omitempty'', viewSlice asDeviceAlias view_DeviceAlias (MAASMachineSpec_DeviceAliases x)),
      (''network,omitempty'', viewRef asNetworkConfig view_NetworkConfig (MAASMachineSpec_Network x)),
      (''storage,omitempty'', viewRef asStorageSpec view_StorageSpec (MAASMachineSpec_Storage x)),
      (''ownerData,omitempty'', viewDict asString viewString (MAASMachineSpec_OwnerData x)),
      (''sshAuthorizedKeys,omitempty'', viewSlice asString viewString (MAASMachineSpec_SSHAuthorizedKeys x)),
      (''packageRepositories,omitempty'', viewSlice asPackageRepo view_PackageRepo (MAASMachineSpec_PackageRepositories x)),
      (''userDataSecretRef,omitempty'', viewRef asSecretKeySelector (viewSecretKeySelector k) (MAASMachineSpec_UserDataSecretRef x))]"

abbreviation view_MAASMachineSpec :: "'e k8s \<Rightarrow> MAASMachineSpec \<Rightarrow> 'e val view" where
  "view_MAASMachineSpec k \<equiv> \<lambda>x. structView (fields_MAASMachineSpec k x)"

lemma machineSpec_copier:
  assumes "wfK8s k"
  shows "stored_copier (DeepCopyInto_MAASMachineSpec k) (view_MAASMachineSpec k) VMAASMachineSpec asMAASMachineSpec"
proof (rule struct_copier)
  note wf = wfK8sD [OF assms] and [simp] = wfK8sD(5) [OF assms]
  note parts = stored_copier.ref_copier [OF wf(1)] stored_copier.ref_copier [OF bmc_copier [OF assms]]
  note steps = copy_steps parts [THEN deep_copier.copy_bind]
  show "\<forall>f \<in> set (fields_MAASMachineSpec k x). framed (snd f)" for x
    using parts [THEN deep_copier.view_framed] by (simp add: fields_MAASMachineSpec_def framed_intros)
  fix x h ts assume "views (map snd (fields_MAASMachineSpec k x)) h = Some ts"
  then show "copied (DeepCopyInto_MAASMachineSpec k x h) (view_MAASMachineSpec k) h (Struct (zip (map fst (fields_MAASMachineSpec k x)) ts))"
    unfolding fields_MAASMachineSpec_def [of k x] DeepCopyInto_MAASMachineSpec_def list.map snd_conv
    by (elim views_elims) (hypsubst, ((rule steps, assumption, (rule grown_refl | assumption))+), rule copied_struct,
        simp add: fields_MAASMachineSpec_def del: append_assoc length_append,
        (((rule settled_plain, simp, assumption) | (rule settled_Cons, assumption, simp) | rule settled_Nil)+),
        simp_all add: fields_MAASMachineSpec_def)
qed simp

definition fields_MAASMachine :: "'e k8s \<Rightarrow> 'e MAASMachine \<Rightarrow> (string \<times> 'e val view) list" where
  "fields_MAASMachine k x =
     [('',inline'', leaf (viewTypeMeta k (MAASMachine_TypeMeta x))),
      (''metadata,omitempty'', viewObjectMeta k (MAASMachine_ObjectMeta x)),
      (''spec,omitempty'', view_MAASMachineSpec k (MAASMachine_Spec x)),
      (''status,omitempty'', view_MAASMachineStatus k (MAASMachine_Status x))]"

abbreviation view_MAASMachine :: "'e k8s \<Rightarrow> 'e MAASMachine \<Rightarrow> 'e val view" where
  "view_MAASMachine k \<equiv> \<lambda>x. structView (fields_MAASMachine k x)"

lemma machine_copier:
  assumes "wfK8s k"
  shows "stored_copier (DeepCopyInto_MAASMachine k) (view_MAASMachine k) VMAASMachine asMAASMachine"
proof (rule struct_copier)
  note wf = wfK8sD [OF assms] and [simp] = wfK8sD(5) [OF assms]
  note parts = wf(3) stored_copier.axioms(1) [OF machineSpec_copier [OF assms]] stored_copier.axioms(1) [OF machineStatus_copier [OF assms]]
  note steps = copy_steps parts [THEN deep_copier.copy_bind]
  show "\<forall>f \<in> set (fields_MAASMachine k x). framed (snd f)" for x
    using parts [THEN deep_copier.view_framed] by (simp add: fields_MAASMachine_def framed_intros)
  fix x h ts assume "views (map snd (fields_MAASMachine k x)) h = Some ts"
  then show "copied (DeepCopyInto_MAASMachine k x h) (view_MAASMachine k) h (Struct (zip (map fst (fields_MAASMachine k x)) ts))"
    unfolding fields_MAASMachine_def [of k x] DeepCopyInto_MAASMachine_def list.map snd_conv
    by (elim views_elims) (hypsubst, ((rule steps, assumption, (rule grown_refl | assumption))+), rule copied_struct,
        simp add: fields_MAASMachine_def del: append_assoc length_append,
        (((rule settled_plain, simp, assumption) | (rule settled_Cons, assumption, simp) | rule settled_Nil)+),
        simp_all add: fields_MAASMachine_def)
qed simp

definition fields_MAASMachineList :: "'e k8s \<Rightarrow> 'e MAASMachineList \<Rightarrow> (string \<times> 'e val view) list" where
  "fields_MAASMachineList k x =
     [('',inline'', leaf (viewTypeMeta k (MAASMachineList_TypeMeta x))),
      (''metadata,omitempty'', viewListMeta k (MAASMachineList_ListMeta x)),
      (''items'', viewSlice asMAASMachine (view_MAASMachine k) (MAASMachineList_Items x))]"

abbreviation view_MAASMachineList :: "'e k8s \<Rightarrow> 'e MAASMachineList \<Rightarrow> 'e val view" where
  "view_MAASMachineList k \<equiv> \<lambda>x. structView (fields_MAASMachineList k x)"

lemma machineList_copier:
  assumes "wfK8s k"
  shows "stored_copier (DeepCopyInto_MAASMachineList k) (view_MAASMachineList k) VMAASMachineList asMAASMachineList"
proof (rule struct_copier)
  note wf = wfK8sD [OF assms] and [simp] = wfK8sD(5) [OF assms]
  note parts = wf(4) stored_copier.slice_copier [OF machine_copier [OF assms]]
  note steps = copy_steps parts [THEN deep_copier.copy_bind]
  show "\<forall>f \<in> set (fields_MAASMachineList k x). framed (snd f)" for x
    using parts [THEN deep_copier.view_framed] by (simp add: fields_MAASMachineList_def framed_intros)
  fix x h ts assume "views (map snd (fields_MAASMachineList k x)) h = Some ts"
  then show "copied (DeepCopyInto_MAASMachineList k x h) (view_MAASMachineList k) h (Struct (zip (map fst (fields_MAASMachineList k x)) ts))"
    unfolding fields_MAASMachineList_def [of k x] DeepCopyInto_MAASMachineList_def list.map snd_conv
    by (elim views_elims) (hypsubst, ((rule steps, assumption, (rule grown_refl | assumption))+), rule copied_struct,
        simp add: fields_MAASMachineList_def del: append_assoc length_append,
        (((rule settled_plain, simp, assumption) | (rule settled_Cons, assumption, simp) | rule settled_Nil)+),
        simp_all add: fields_MAASMachineList_def)
qed simp

section \<open>Properties\<close>

text \<open>An external struct with a single pointer, for the example: the methods of the Kubernetes packages copy that pointer.\<close>

definition sampleK8s :: "ref k8s" where
  "sampleK8s = \<lparr>copySecretKeySelector = copyRef VInt asInt assign, copyCondition = copyRef VInt asInt assign,
     copyObjectMeta = copyRef VInt asInt assign, copyListMeta = copyRef VInt asInt assign,
     viewSecretKeySelector = viewRef asInt viewInt, viewCondition = viewRef asInt viewInt,
     viewObjectMeta = viewRef asInt viewInt, viewListMeta = viewRef asInt viewInt, viewTypeMeta = (\<lambda>_. NilRef)\<rparr>"

lemma sampleK8s_wf: "wfK8s sampleK8s"
  unfolding wfK8s_def sampleK8s_def
  by (simp add: int.ref_copier stored_copier_def stored_copier_axioms_def)

definition sampleMachine :: "ref MAASMachine" where
  "sampleMachine = \<lparr>MAASMachine_TypeMeta = None, MAASMachine_ObjectMeta = Some 0,
     MAASMachine_Spec = \<lparr>MAASMachineSpec_DesiredState = StateDeployed,
       MAASMachineSpec_Identity = \<lparr>Identity_SystemID = [], Identity_MACAddresses = Some (1, 1, 2), Identity_Hostname = ''n1'', Identity_Architecture = []\<rparr>,
       MAASMachineSpec_BMC = None, MAASMachineSpec_Placement = \<lparr>Placement_Zone = ''z'', Placement_ResourcePool = [], Placement_Tags = Some (1, 0, 2)\<rparr>,
       MAASMachineSpec_Resources = None, MAASMachineSpec_OS = \<lparr>OS_Distro = [], OS_Release = [], OS_Kernel = []\<rparr>, MAASMachineSpec_BootMode = [],
       MAASMachineSpec_Provisioning = \<lparr>ProvisioningSpec_Method = ProvisioningAuto\<rparr>, MAASMachineSpec_KernelParams = Some 2,
       MAASMachineSpec_HugePages = None, MAASMachineSpec_CPUSets = Some 2, MAASMachineSpec_DeviceAliases = None, MAASMachineSpec_Network = None,
       MAASMachineSpec_Storage = None, MAASMachineSpec_OwnerData = None, MAASMachineSpec_SSHAuthorizedKeys = None,
       MAASMachineSpec_PackageRepositories = None, MAASMachineSpec_UserDataSecretRef = None\<rparr>,
     MAASMachine_Status = \<lparr>MAASMachineStatus_Phase = MachinePhaseReady, MAASMachineStatus_SystemID = [], MAASMachineStatus_ProviderID = [],
       MAASMachineStatus_PowerState = [], MAASMachineStatus_Addresses = None, MAASMachineStatus_MACAddresses = Some (1, 0, 1),
       MAASMachineStatus_ResolvedAliases = None, MAASMachineStatus_ObservedGeneration = 1, MAASMachineStatus_ProvisioningMethod = [],
       MAASMachineStatus_ISOObjectKey = [], MAASMachineStatus_Conditions = None\<rparr>\<rparr>"

text \<open>The slices of the machine share one array, and two of its maps are the same.\<close>

definition sampleHeap :: "ref val heap" where
  "sampleHeap = [Obj (VInt 7), Arr [VString ''a'', VString ''b'', VString ''c''], Dict [(''k'', VString ''v'')], Obj (VMAASMachine sampleMachine),
     Obj (VMAASMachineList \<lparr>MAASMachineList_TypeMeta = None, MAASMachineList_ListMeta = None, MAASMachineList_Items = Some (5, 0, 2)\<rparr>),
     Arr [VMAASMachine sampleMachine, VMAASMachine sampleMachine]]"

abbreviation sampleTree :: "addr tree" where
  "sampleTree \<equiv> the (viewRef asMAASMachine (view_MAASMachine sampleK8s) (Some 3) sampleHeap)"

lemma sampleTree_view: "viewRef asMAASMachine (view_MAASMachine sampleK8s) (Some 3) sampleHeap = Some sampleTree"
  by code_simp

abbreviation sampleListTree :: "addr tree" where
  "sampleListTree \<equiv> the (viewRef asMAASMachineList (view_MAASMachineList sampleK8s) (Some 4) sampleHeap)"

lemma sampleListTree_view: "viewRef asMAASMachineList (view_MAASMachineList sampleK8s) (Some 4) sampleHeap = Some sampleListTree"
  by code_simp

text \<open>
  C9. A deep copy of a machine is independent of the original: for every well-typed machine, whatever sharing there is inside it,
  \<open>DeepCopy\<close> returns a deeply equal machine and changes nothing that was in the heap. No sequence of writes to cells of the
  copy changes the original, and no sequence of writes to any other cells changes the copy.
\<close>

theorem machine_copy_independent:
  assumes "wfK8s k" "viewRef asMAASMachine (view_MAASMachine k) p h = Some t"
  shows "\<exists>q n t'. DeepCopy_MAASMachine k p h = Some (q, h @ n) \<and> viewRef asMAASMachine (view_MAASMachine k) q (h @ n) = Some t' \<and> shape t' = shape t \<and>
    viewRef asMAASMachine (view_MAASMachine k) p (h @ n) = Some t \<and>
    (\<forall>ws. fst ` set ws \<subseteq> set (addrs t') \<longrightarrow> viewRef asMAASMachine (view_MAASMachine k) p (stores ws (h @ n)) = Some t) \<and>
    (\<forall>ws. fst ` set ws \<inter> set (addrs t') = {} \<longrightarrow> viewRef asMAASMachine (view_MAASMachine k) q (stores ws (h @ n)) = Some t')"
  unfolding DeepCopy_MAASMachine_def
  using stored_copier.ref_copier [OF machine_copier [OF assms(1)]] assms(2) by (rule deep_copier.copy_independent)

theorem machine_copy_independent_witness:
  "\<exists>q n t'. DeepCopy_MAASMachine sampleK8s (Some 3) sampleHeap = Some (q, sampleHeap @ n)
    \<and> viewRef asMAASMachine (view_MAASMachine sampleK8s) q (sampleHeap @ n) = Some t' \<and> shape t' = shape sampleTree
    \<and> viewRef asMAASMachine (view_MAASMachine sampleK8s) (Some 3) (sampleHeap @ n) = Some sampleTree \<and>
    (\<forall>ws. fst ` set ws \<subseteq> set (addrs t') \<longrightarrow> viewRef asMAASMachine (view_MAASMachine sampleK8s) (Some 3) (stores ws (sampleHeap @ n)) = Some sampleTree) \<and>
    (\<forall>ws. fst ` set ws \<inter> set (addrs t') = {} \<longrightarrow> viewRef asMAASMachine (view_MAASMachine sampleK8s) q (stores ws (sampleHeap @ n)) = Some t')"
  using sampleK8s_wf sampleTree_view by (rule machine_copy_independent)

text \<open>
  C18. \<open>DeepCopyObject\<close> of a list gives the nil interface for a nil list, never an interface around a nil pointer. Otherwise
  it gives a list whose view is deeply equal and has new, pairwise distinct cells only: no two machines of the copy share anything, even
  where those of the original do.
\<close>

theorem list_copy_object:
  assumes "wfK8s k" "viewRef asMAASMachineList (view_MAASMachineList k) p h = Some t"
  shows "\<exists>obj n. DeepCopyObject_MAASMachineList k p h = Some (obj, h @ n) \<and>
    (if p = None then obj = NilObject
     else \<exists>b t'. obj = MachineListObject b \<and> viewRef asMAASMachineList (view_MAASMachineList k) (Some b) (h @ n) = Some t'
       \<and> shape t' = shape t \<and> distinct (addrs t') \<and> (\<forall>a \<in> set (addrs t'). length h \<le> a))"
proof -
  have "copied (DeepCopy_MAASMachineList k p h) (viewRef asMAASMachineList (view_MAASMachineList k)) h t"
    unfolding DeepCopy_MAASMachineList_def
    using stored_copier.ref_copier [OF machineList_copier [OF assms(1)]] assms(2) by (rule deep_copier.copy_copied)
  then obtain q n t' where c: "DeepCopy_MAASMachineList k p h = Some (q, h @ n)"
    "viewRef asMAASMachineList (view_MAASMachineList k) q (h @ n) = Some t'" "shape t' = shape t" "fresh (length h) (length (h @ n)) t'"
    unfolding copied_def by blast
  have nil: "p = None \<longleftrightarrow> q = None" using assms(2) c(2,3) by (cases p; cases q) (auto simp: viewRef_def bind_eq_Some_conv)
  have "distinct (addrs t') \<and> (\<forall>a \<in> set (addrs t'). length h \<le> a)" using c(4) by (auto simp: freshs_def)
  with c nil show ?thesis by (cases q) (auto simp: DeepCopyObject_MAASMachineList_def)
qed

theorem list_copy_object_witness:
  "\<exists>obj n. DeepCopyObject_MAASMachineList sampleK8s (Some 4) sampleHeap = Some (obj, sampleHeap @ n) \<and>
    (if (Some 4 :: ref) = None then obj = NilObject
     else \<exists>b t'. obj = MachineListObject b \<and> viewRef asMAASMachineList (view_MAASMachineList sampleK8s) (Some b) (sampleHeap @ n) = Some t'
       \<and> shape t' = shape sampleListTree \<and> distinct (addrs t') \<and> (\<forall>a \<in> set (addrs t'). length sampleHeap \<le> a))"
  using sampleK8s_wf sampleListTree_view by (rule list_copy_object)

end
