(* ===== verification/Api_Schema.thy ===== *)
theory Api_Schema
  imports Api_Copies Go_Strings
begin

text \<open>
  The JSON documents of the resource and the schema of its CRD. \<open>toJSON\<close> is the encoding of \<open>encoding/json\<close> on the views of
  \<^theory_text>\<open>Api_Copies\<close>, driven by the struct tags that label their fields. The schemas are those of
  \<^verbatim>\<open>charts/maas/crds/maas.airshipit.org_maasmachines.yaml\<close>, one for each struct, with every constraint of the file but the
  defaults, which the API server fills in before it validates. The theorem is that the file and the Go types agree: nothing but a
  value outside its limits makes the schema reject the document of a machine.
\<close>

section \<open>Documents\<close>

datatype json =
    JStr string
  | JNum int
  | JBool bool
  | JNull
  | JObj "(string \<times> json) list"
  | JArr "json list"

definition tagName :: "string \<Rightarrow> string" where
  "tagName tag = hd (splitOn (CHR '','') tag)"

definition omitEmpty :: "string \<Rightarrow> bool" where
  "omitEmpty tag \<longleftrightarrow> ''omitempty'' \<in> set (tl (splitOn (CHR '','') tag))"

text \<open>
  The members that a field gives, from its document and whether its value is empty: those of an embedded struct, nothing for an empty value
  to be omitted, or one under its name.
\<close>

definition members :: "string \<times> json \<times> bool \<Rightarrow> (string \<times> json) list" where
  "members f = (case f of (tag, j, e) \<Rightarrow>
     if tagName tag = [] then (case j of JObj ms \<Rightarrow> ms | _ \<Rightarrow> [])
     else if omitEmpty tag \<and> e then []
     else [(tagName tag, j)])"

primrec encode :: "'a tree \<Rightarrow> json \<times> bool" where
  "encode (Str s) = (JStr s, s = [])"
| "encode (Num i) = (JNum i, i = 0)"
| "encode (Flag b) = (JBool b, \<not> b)"
| "encode NilRef = (JNull, True)"
| "encode (Struct fs) = (JObj (concat (map members (map (map_prod id encode) fs))), False)"
| "encode (Ptr a t) = (fst (encode t), False)"
| "encode (Elems a ts) = (JArr (map fst (map encode ts)), ts = [])"
| "encode (Entries a es) = (JObj (map (map_prod id fst) (map (map_prod id encode) es)), es = [])"

definition toJSON :: "'a tree \<Rightarrow> json" where
  "toJSON t = fst (encode t)"

primrec hasNull :: "json \<Rightarrow> bool" where
  "hasNull (JStr s) = False"
| "hasNull (JNum i) = False"
| "hasNull (JBool b) = False"
| "hasNull JNull = True"
| "hasNull (JObj ms) = list_ex snd (map (map_prod id hasNull) ms)"
| "hasNull (JArr js) = list_ex id (map hasNull js)"

section \<open>Schemas\<close>

datatype limit =
    Enum "string list"
  | Minimum int
  | Maximum int
  | MinLength nat
  | MaxLength nat
  | Pattern string
  | Format string

text \<open>An array may name the members whose values identify its items; an object has properties, some of them required.\<close>

datatype schema =
    SStr "limit list"
  | SInt "limit list"
  | SBool
  | SArr schema "string list"
  | SMap schema
  | SAnyObj
  | SObj "(string \<times> schema) list" "string list"

text \<open>Limits, given what it means for a text to match a pattern and for a value to have a format.\<close>

record formats =
  matchesPattern :: "string \<Rightarrow> string \<Rightarrow> bool"
  hasFormat :: "string \<Rightarrow> json \<Rightarrow> bool"

fun meets :: "formats \<Rightarrow> json \<Rightarrow> limit \<Rightarrow> bool" where
  "meets fm (JStr s) (Enum es) \<longleftrightarrow> s \<in> set es"
| "meets fm (JNum i) (Minimum m) \<longleftrightarrow> m \<le> i"
| "meets fm (JNum i) (Maximum m) \<longleftrightarrow> i \<le> m"
| "meets fm (JStr s) (MinLength n) \<longleftrightarrow> n \<le> length s"
| "meets fm (JStr s) (MaxLength n) \<longleftrightarrow> length s \<le> n"
| "meets fm (JStr s) (Pattern p) \<longleftrightarrow> matchesPattern fm p s"
| "meets fm j (Format f) \<longleftrightarrow> hasFormat fm f j"
| "meets fm j l \<longleftrightarrow> True"

definition itemKey :: "string list \<Rightarrow> json \<Rightarrow> json option list" where
  "itemKey ks j = map (\<lambda>k. case j of JObj ms \<Rightarrow> map_of ms k | _ \<Rightarrow> None) ks"

definition uniqueItems :: "string list \<Rightarrow> json list \<Rightarrow> bool" where
  "uniqueItems ks js \<longleftrightarrow> ks = [] \<or> distinct (map (itemKey ks) js)"

text \<open>
  Acceptance: the types, the required members, the limits, and no member that the schema does not know, since the API
  server would drop it.
\<close>

primrec accepts :: "formats \<Rightarrow> schema \<Rightarrow> json \<Rightarrow> bool" where
  "accepts fm (SStr ls) = (\<lambda>j. case j of JStr s \<Rightarrow> list_all (meets fm j) ls | _ \<Rightarrow> False)"
| "accepts fm (SInt ls) = (\<lambda>j. case j of JNum i \<Rightarrow> list_all (meets fm j) ls | _ \<Rightarrow> False)"
| "accepts fm SBool = (\<lambda>j. case j of JBool b \<Rightarrow> True | _ \<Rightarrow> False)"
| "accepts fm (SArr s ks) = (\<lambda>j. case j of JArr js \<Rightarrow> list_all (accepts fm s) js \<and> uniqueItems ks js | _ \<Rightarrow> False)"
| "accepts fm (SMap s) = (\<lambda>j. case j of JObj ms \<Rightarrow> list_all (accepts fm s \<circ> snd) ms | _ \<Rightarrow> False)"
| "accepts fm SAnyObj = (\<lambda>j. case j of JObj ms \<Rightarrow> True | _ \<Rightarrow> False)"
| "accepts fm (SObj ps req) = (\<lambda>j. case j of
     JObj ms \<Rightarrow> list_all (\<lambda>(n, v). case map_of (map (map_prod id (accepts fm)) ps) n of Some f \<Rightarrow> f v | None \<Rightarrow> False) ms
       \<and> list_all (\<lambda>r. r \<in> fst ` set ms) req
   | _ \<Rightarrow> False)"

text \<open>The two parts of acceptance: the types and members, and the limits.\<close>

primrec fits :: "schema \<Rightarrow> json \<Rightarrow> bool" where
  "fits (SStr ls) = (\<lambda>j. case j of JStr s \<Rightarrow> True | _ \<Rightarrow> False)"
| "fits (SInt ls) = (\<lambda>j. case j of JNum i \<Rightarrow> True | _ \<Rightarrow> False)"
| "fits SBool = (\<lambda>j. case j of JBool b \<Rightarrow> True | _ \<Rightarrow> False)"
| "fits (SArr s ks) = (\<lambda>j. case j of JArr js \<Rightarrow> list_all (fits s) js | _ \<Rightarrow> False)"
| "fits (SMap s) = (\<lambda>j. case j of JObj ms \<Rightarrow> list_all (fits s \<circ> snd) ms | _ \<Rightarrow> False)"
| "fits SAnyObj = (\<lambda>j. case j of JObj ms \<Rightarrow> True | _ \<Rightarrow> False)"
| "fits (SObj ps req) = (\<lambda>j. case j of
     JObj ms \<Rightarrow> list_all (\<lambda>(n, v). case map_of (map (map_prod id fits) ps) n of Some f \<Rightarrow> f v | None \<Rightarrow> False) ms
       \<and> list_all (\<lambda>r. r \<in> fst ` set ms) req
   | _ \<Rightarrow> False)"

primrec withinLimits :: "formats \<Rightarrow> schema \<Rightarrow> json \<Rightarrow> bool" where
  "withinLimits fm (SStr ls) = (\<lambda>j. list_all (meets fm j) ls)"
| "withinLimits fm (SInt ls) = (\<lambda>j. list_all (meets fm j) ls)"
| "withinLimits fm SBool = (\<lambda>j. True)"
| "withinLimits fm (SArr s ks) = (\<lambda>j. case j of JArr js \<Rightarrow> list_all (withinLimits fm s) js \<and> uniqueItems ks js | _ \<Rightarrow> True)"
| "withinLimits fm (SMap s) = (\<lambda>j. case j of JObj ms \<Rightarrow> list_all (withinLimits fm s \<circ> snd) ms | _ \<Rightarrow> True)"
| "withinLimits fm SAnyObj = (\<lambda>j. True)"
| "withinLimits fm (SObj ps req) = (\<lambda>j. case j of
     JObj ms \<Rightarrow> list_all (\<lambda>(n, v). case map_of (map (map_prod id (withinLimits fm)) ps) n of Some f \<Rightarrow> f v | None \<Rightarrow> True) ms
   | _ \<Rightarrow> True)"

section \<open>The schema of the resource\<close>

abbreviation backslash :: char where
  "backslash \<equiv> CHR 0x5C"

definition schema_SecretKeySelector :: schema where
  "schema_SecretKeySelector = SObj
     [(''key'', SStr []),
      (''name'', SStr []),
      (''optional'', SBool)]
     [''key'']"

definition schema_BMC :: schema where
  "schema_BMC = SObj
     [(''address'', SStr []),
      (''parameters'', SMap (SStr [])),
      (''password'', SStr []),
      (''passwordSecretRef'', schema_SecretKeySelector),
      (''powerType'', SStr []),
      (''username'', SStr [])]
     []"

definition schema_DeviceAlias :: schema where
  "schema_DeviceAlias = SObj
     [(''address'', SStr []),
      (''bus'', SStr [Enum [''pci'', ''scsi'', ''idrac'', ''usb'', ''virtio'']]),
      (''dev'', SStr []),
      (''name'', SStr [])]
     [''address'', ''name'']"

definition schema_HugePages :: schema where
  "schema_HugePages = SObj
     [(''count'', SInt [Format ''int64'']),
      (''name'', SStr []),
      (''size'', SStr [])]
     [''count'', ''name'', ''size'']"

definition schema_Identity :: schema where
  "schema_Identity = SObj
     [(''architecture'', SStr []),
      (''hostname'', SStr []),
      (''macAddresses'', SArr (SStr []) []),
      (''systemId'', SStr [])]
     []"

definition schema_DNSConfig :: schema where
  "schema_DNSConfig = SObj
     [(''nameservers'', SArr (SStr []) []),
      (''search'', SArr (SStr []) [])]
     []"

definition schema_DeviceMatch :: schema where
  "schema_DeviceMatch = SObj
     [(''deviceAlias'', SStr []),
      (''macAddress'', SStr [])]
     []"

definition schema_BondMemberAttachment :: schema where
  "schema_BondMemberAttachment = SObj
     [(''match'', schema_DeviceMatch)]
     [''match'']"

definition schema_BondParameters :: schema where
  "schema_BondParameters = SObj
     [(''downDelay'', SInt []),
      (''lacpRate'', SStr [Enum [''slow'', ''fast'']]),
      (''miiMonitorInterval'', SInt []),
      (''mode'', SStr [Enum [''balance-rr'', ''active-backup'', ''balance-xor'', ''broadcast'', ''802.3ad'', ''balance-tlb'', ''balance-alb'']]),
      (''transmitHashPolicy'', SStr [Enum [''layer2'', ''layer2+3'', ''layer3+4'', ''encap2+3'', ''encap3+4'']]),
      (''upDelay'', SInt [])]
     [''mode'']"

definition schema_Route :: schema where
  "schema_Route = SObj
     [(''destination'', SStr []),
      (''gateway'', SStr []),
      (''metric'', SInt [])]
     [''destination'', ''gateway'']"

definition schema_BondConfig :: schema where
  "schema_BondConfig = SObj
     [(''addresses'', SArr (SStr []) []),
      (''dns'', schema_DNSConfig),
      (''gateway4'', SStr []),
      (''interfaces'', SArr schema_BondMemberAttachment []),
      (''linkMode'', SStr []),
      (''mtu'', SInt []),
      (''network'', SStr []),
      (''parameters'', schema_BondParameters),
      (''routes'', SArr schema_Route [])]
     [''interfaces'']"

definition schema_SRIOVConfig :: schema where
  "schema_SRIOVConfig = SObj
     [(''trustMode'', SBool),
      (''vfCount'', SInt [Minimum 0])]
     [''vfCount'']"

definition schema_EthernetConfig :: schema where
  "schema_EthernetConfig = SObj
     [(''addresses'', SArr (SStr []) []),
      (''dns'', schema_DNSConfig),
      (''gateway4'', SStr []),
      (''linkMode'', SStr []),
      (''match'', schema_DeviceMatch),
      (''mtu'', SInt []),
      (''network'', SStr []),
      (''routes'', SArr schema_Route []),
      (''sriov'', schema_SRIOVConfig)]
     []"

definition schema_VLANConfig :: schema where
  "schema_VLANConfig = SObj
     [(''addresses'', SArr (SStr []) []),
      (''dns'', schema_DNSConfig),
      (''gateway4'', SStr []),
      (''id'', SInt [Minimum 0, Maximum 4094]),
      (''link'', SStr []),
      (''linkMode'', SStr []),
      (''mtu'', SInt []),
      (''network'', SStr []),
      (''routes'', SArr schema_Route [])]
     [''id'', ''link'']"

definition schema_FabricNetplanConfig :: schema where
  "schema_FabricNetplanConfig = SObj
     [(''bonds'', SMap schema_BondConfig),
      (''ethernets'', SMap schema_EthernetConfig),
      (''vlans'', SMap schema_VLANConfig)]
     []"

definition schema_NetworkConfig :: schema where
  "schema_NetworkConfig = SObj
     [(''dns'', schema_DNSConfig),
      (''fabrics'', SMap schema_FabricNetplanConfig),
      (''primaryNetwork'', SStr [])]
     []"

definition schema_OS :: schema where
  "schema_OS = SObj
     [(''distro'', SStr []),
      (''kernel'', SStr []),
      (''release'', SStr [])]
     []"

definition schema_PackageRepo :: schema where
  "schema_PackageRepo = SObj
     [(''arches'', SArr (SStr []) []),
      (''components'', SArr (SStr []) []),
      (''distributions'', SArr (SStr []) []),
      (''gpgKey'', SStr []),
      (''name'', SStr []),
      (''type'', SStr [Enum [''apt'', ''rpm'']]),
      (''url'', SStr [])]
     [''name'', ''type'', ''url'']"

definition schema_Placement :: schema where
  "schema_Placement = SObj
     [(''resourcePool'', SStr []),
      (''tags'', SArr (SStr []) []),
      (''zone'', SStr [])]
     []"

definition schema_ProvisioningSpec :: schema where
  "schema_ProvisioningSpec = SObj
     [(''method'', SStr [Enum [''Auto'', ''Network'', ''VirtualMedia'']])]
     []"

definition schema_ResourceConstraints :: schema where
  "schema_ResourceConstraints = SObj
     [(''minCPU'', SInt [Minimum 0]),
      (''minDiskGB'', SInt [Minimum 0]),
      (''minMemoryMB'', SInt [Minimum 0, Format ''int64''])]
     []"

definition schema_Filesystem :: schema where
  "schema_Filesystem = SObj
     [(''label'', SStr []),
      (''mountOptions'', SStr []),
      (''mountPoint'', SStr []),
      (''type'', SStr [Enum [''ext4'', ''xfs'', ''btrfs'', ''vfat'', ''fat32'', ''swap'']])]
     [''type'']"

definition schema_Partition :: schema where
  "schema_Partition = SObj
     [(''bootable'', SBool),
      (''filesystem'', schema_Filesystem),
      (''grow'', SBool),
      (''labels'', SMap (SStr [])),
      (''name'', SStr []),
      (''number'', SInt []),
      (''sizeGiB'', SInt [Format ''int64''])]
     [''name'']"

definition schema_Disk :: schema where
  "schema_Disk = SObj
     [(''bootable'', SBool),
      (''deviceAlias'', SStr []),
      (''labels'', SMap (SStr [])),
      (''name'', SStr []),
      (''partitionTable'', SStr [Enum [''gpt'', ''mbr'']]),
      (''partitions'', SArr schema_Partition [''name''])]
     []"

definition schema_LogicalVolume :: schema where
  "schema_LogicalVolume = SObj
     [(''filesystem'', schema_Filesystem),
      (''grow'', SBool),
      (''name'', SStr []),
      (''sizeGiB'', SInt [Format ''int64''])]
     [''name'']"

definition schema_VolumeGroup :: schema where
  "schema_VolumeGroup = SObj
     [(''logicalVolumes'', SArr schema_LogicalVolume [''name'']),
      (''members'', SArr (SStr []) []),
      (''name'', SStr [])]
     [''members'', ''name'']"

definition schema_StorageSpec :: schema where
  "schema_StorageSpec = SObj
     [(''bootDeviceAlias'', SStr []),
      (''disks'', SArr schema_Disk []),
      (''layout'', SStr [Enum [''flat'', ''lvm'', ''bcache'', ''vmfs6'', ''blank'']]),
      (''volumeGroups'', SArr schema_VolumeGroup [''name''])]
     []"

definition schema_MAASMachineSpec :: schema where
  "schema_MAASMachineSpec = SObj
     [(''bmc'', schema_BMC),
      (''bootMode'', SStr [Enum [''bios'', ''uefi'']]),
      (''cpuSets'', SMap (SStr [])),
      (''desiredState'', SStr [Enum [''Commissioned'', ''Ready'', ''Deployed'', ''Released'']]),
      (''deviceAliases'', SArr schema_DeviceAlias [''name'']),
      (''hugePages'', SArr schema_HugePages [''name'']),
      (''identity'', schema_Identity),
      (''kernelParams'', SMap (SStr [])),
      (''network'', schema_NetworkConfig),
      (''os'', schema_OS),
      (''ownerData'', SMap (SStr [])),
      (''packageRepositories'', SArr schema_PackageRepo [''name'']),
      (''placement'', schema_Placement),
      (''provisioning'', schema_ProvisioningSpec),
      (''resources'', schema_ResourceConstraints),
      (''sshAuthorizedKeys'', SArr (SStr []) []),
      (''storage'', schema_StorageSpec),
      (''userDataSecretRef'', schema_SecretKeySelector)]
     []"

definition schema_Condition :: schema where
  "schema_Condition = SObj
     [(''lastTransitionTime'', SStr [Format ''date-time'']),
      (''message'', SStr [MaxLength 32768]),
      (''observedGeneration'', SInt [Minimum 0, Format ''int64'']),
      (''reason'', SStr [MinLength 1, MaxLength 1024, Pattern ''^[A-Za-z]([A-Za-z0-9_,:]*[A-Za-z0-9_])?$'']),
      (''status'', SStr [Enum [''True'', ''False'', ''Unknown'']]),
      (''type'', SStr [MaxLength 316, Pattern (''^([a-z0-9]([-a-z0-9]*[a-z0-9])?('' @ backslash #
        ''.[a-z0-9]([-a-z0-9]*[a-z0-9])?)*/)?(([A-Za-z0-9][-A-Za-z0-9_.]*)?[A-Za-z0-9])$'')])]
     [''lastTransitionTime'', ''message'', ''reason'', ''status'', ''type'']"

definition schema_MAASMachineStatus :: schema where
  "schema_MAASMachineStatus = SObj
     [(''addresses'', SArr (SStr []) []),
      (''conditions'', SArr schema_Condition [''type'']),
      (''isoObjectKey'', SStr []),
      (''macAddresses'', SArr (SStr []) []),
      (''observedGeneration'', SInt [Format ''int64'']),
      (''phase'', SStr [Enum [''Pending'', ''Enlisting'', ''Commissioning'', ''Ready'', ''Deploying'',
        ''Deployed'', ''Releasing'', ''Released'', ''Failed'']]),
      (''powerState'', SStr []),
      (''providerId'', SStr []),
      (''provisioningMethod'', SStr [Enum [''Auto'', ''Network'', ''VirtualMedia'']]),
      (''resolvedAliases'', SMap (SStr [])),
      (''systemId'', SStr [])]
     []"

definition schema_MAASMachine :: schema where
  "schema_MAASMachine = SObj
     [(''apiVersion'', SStr []),
      (''kind'', SStr []),
      (''metadata'', SAnyObj),
      (''spec'', schema_MAASMachineSpec),
      (''status'', schema_MAASMachineStatus)]
     []"

section \<open>Acceptance in two parts\<close>

lemma map_of_prod: "map_of (map (map_prod id f) ps) n = map_option f (map_of ps n)"
  by (induction ps) auto

lemma accepts_parts: "accepts fm s j \<longleftrightarrow> fits s j \<and> withinLimits fm s j"
proof (induction s arbitrary: j)
  case (SObj ps req)
  have "(case map_option (accepts fm) (map_of ps n) of Some f \<Rightarrow> f v | None \<Rightarrow> False) \<longleftrightarrow>
      (case map_option fits (map_of ps n) of Some f \<Rightarrow> f v | None \<Rightarrow> False)
      \<and> (case map_option (withinLimits fm) (map_of ps n) of Some f \<Rightarrow> f v | None \<Rightarrow> True)" for n v
  proof (cases "map_of ps n")
    case (Some s)
    then have "(n, s) \<in> set ps" by (rule map_of_SomeD)
    then show ?thesis using SObj [of "(n, s)" s] Some by simp
  qed simp
  then show ?case by (cases j) (auto simp: map_of_prod list_all_iff split: option.splits)
qed (auto simp: list_all_iff split: json.splits)

section \<open>Typing of views\<close>

text \<open>A view is typed by a schema when every document it gives fits, unless a null is in it.\<close>

definition typed :: "'v view \<Rightarrow> schema \<Rightarrow> bool" where
  "typed v s \<longleftrightarrow> (\<forall>h t. v h = Some t \<longrightarrow> \<not> hasNull (toJSON t) \<longrightarrow> fits s (toJSON t))"

definition knownMembers :: "(string \<times> schema) list \<Rightarrow> (string \<times> json) list \<Rightarrow> bool" where
  "knownMembers ps ms \<longleftrightarrow> (\<forall>m \<in> set ms. case map_of ps (fst m) of Some s \<Rightarrow> fits s (snd m) | None \<Rightarrow> False)"

definition typedMembers :: "'v view \<Rightarrow> (string \<times> schema) list \<Rightarrow> bool" where
  "typedMembers v ps \<longleftrightarrow> (\<forall>h t. v h = Some t \<longrightarrow> \<not> hasNull (toJSON t) \<longrightarrow> (\<exists>ms. toJSON t = JObj ms \<and> knownMembers ps ms))"

definition fieldTyped :: "(string \<times> schema) list \<Rightarrow> string \<times> 'v view \<Rightarrow> bool" where
  "fieldTyped ps f \<longleftrightarrow> (if tagName (fst f) = [] then typedMembers (snd f) ps
     else (case map_of ps (tagName (fst f)) of Some s \<Rightarrow> typed (snd f) s | None \<Rightarrow> False))"

lemma fits_SObj: "fits (SObj ps req) (JObj ms) \<longleftrightarrow> knownMembers ps ms \<and> set req \<subseteq> fst ` set ms"
  by (auto simp: knownMembers_def map_of_prod list_all_iff split: option.splits)

lemma typed_leaf [simp]: "typed (leaf (Str s)) (SStr ls)" "typed (leaf (Num i)) (SInt ls)" "typed (leaf (Flag b)) SBool"
  by (simp_all add: typed_def leaf_def toJSON_def)

lemma typed_ref [simp]:
  assumes "\<And>x. typed (view x) s"
  shows "typed (viewRef dec view p) s"
proof (cases p)
  case None
  then show ?thesis by (simp add: typed_def viewRef_def toJSON_def)
next
  case (Some a)
  then show ?thesis using assms by (auto simp: typed_def viewRef_def toJSON_def bind_eq_Some_conv)
qed

lemma views_fit:
  assumes "\<And>x. typed (view x) s" "views (map view xs) h = Some ts" "\<not> list_ex hasNull (map toJSON ts)"
  shows "list_all (fits s) (map toJSON ts)"
  using assms(2,3)
proof (induction xs arbitrary: ts)
  case (Cons x xs)
  then obtain t us where "view x h = Some t" "views (map view xs) h = Some us" "ts = t # us" by (auto simp: bind_eq_Some_conv)
  then show ?case using Cons assms(1) [of x] by (auto simp: typed_def)
qed simp

lemma typed_slice [simp]:
  assumes "\<And>x. typed (view x) s"
  shows "typed (viewSlice dec view p) (SArr s ks)"
proof (cases p)
  case None
  then show ?thesis by (simp add: typed_def viewSlice_def toJSON_def)
next
  case (Some sl)
  have "fits (SArr s ks) (toJSON t)" if t: "viewSlice dec view p h = Some t" "\<not> hasNull (toJSON t)" for h t
  proof -
    obtain xs ts where ts: "views (map view xs) h = Some ts" "t = Elems (fst sl) ts"
      using t(1) Some by (auto simp: viewSlice_def bind_eq_Some_conv)
    have json: "toJSON t = JArr (map toJSON ts)" by (simp add: ts(2) toJSON_def comp_def)
    have "list_all (fits s) (map toJSON ts)" using assms ts(1) by (rule views_fit) (use t(2) in \<open>simp add: json list_ex_iff\<close>)
    then show ?thesis by (simp add: json)
  qed
  then show ?thesis unfolding typed_def by blast
qed

lemma typed_dict [simp]:
  assumes "\<And>x. typed (view x) s"
  shows "typed (viewDict dec view p) (SMap s)"
proof (cases p)
  case None
  then show ?thesis by (simp add: typed_def viewDict_def toJSON_def)
next
  case (Some a)
  have "fits (SMap s) (toJSON t)" if t: "viewDict dec view p h = Some t" "\<not> hasNull (toJSON t)" for h t
  proof -
    obtain m ts where ts: "views (map view (map snd m)) h = Some ts" "t = Entries a (zip (keys m) ts)"
      using t(1) Some by (auto simp: viewDict_def bind_eq_Some_conv)
    have json: "toJSON t = JObj (zip (keys m) (map toJSON ts))"
      by (simp add: ts(2) toJSON_def comp_def map_prod_def zip_map2 split_beta')
    have snd: "map snd (zip (keys m) (map toJSON ts)) = map toJSON ts" using views_length [OF ts(1)] by simp
    have "\<not> list_ex hasNull (map snd (zip (keys m) (map toJSON ts)))" using t(2) by (simp add: json list_ex_iff map_prod_def split_beta)
    then have "list_all (fits s) (map toJSON ts)" unfolding snd by (rule views_fit [OF assms ts(1)])
    then have "list_all (fits s) (map snd (zip (keys m) (map toJSON ts)))" unfolding snd .
    then show ?thesis by (simp only: json fits.simps json.case list.pred_map)
  qed
  then show ?thesis unfolding typed_def by blast
qed

lemma field_known:
  assumes "fieldTyped ps (tag, v)" "v h = Some t" "\<not> list_ex hasNull (map snd (members (tag, encode t)))"
  shows "knownMembers ps (members (tag, encode t))"
proof -
  obtain j e where je: "encode t = (j, e)" by fastforce
  have json: "toJSON t = j" by (simp add: toJSON_def je)
  show ?thesis
  proof (cases "tagName tag = []")
    case True
    show ?thesis
    proof (cases j)
      case (JObj ms)
      have "\<not> hasNull j" using assms(3) True by (simp add: je members_def JObj list_ex_iff map_prod_def split_beta)
      then have "\<exists>ms. j = JObj ms \<and> knownMembers ps ms"
        using assms(1,2) True json by (auto simp: fieldTyped_def typedMembers_def)
      then show ?thesis using JObj True by (auto simp: je members_def)
    qed (auto simp: je members_def knownMembers_def True)
  next
    case False
    then obtain s where s: "map_of ps (tagName tag) = Some s" "typed v s" using assms(1) by (auto simp: fieldTyped_def split: option.splits)
    then show ?thesis using assms(2,3) False json by (auto simp: je members_def knownMembers_def typed_def)
  qed
qed

definition fieldMembers :: "string list \<Rightarrow> addr tree list \<Rightarrow> (string \<times> json) list" where
  "fieldMembers tags ts = concat (map members (map (map_prod id encode) (zip tags ts)))"

lemma fieldMembers_simps [simp]:
  "fieldMembers [] ts = []" "fieldMembers (tag # tags) (t # ts) = members (tag, encode t) @ fieldMembers tags ts"
  by (simp_all add: fieldMembers_def)

lemma fields_known:
  assumes "list_all (fieldTyped ps) fs" "views (map snd fs) h = Some ts" "\<not> list_ex hasNull (map snd (fieldMembers (map fst fs) ts))"
  shows "knownMembers ps (fieldMembers (map fst fs) ts)"
  using assms
proof (induction fs arbitrary: ts)
  case Nil
  then show ?case by (simp add: knownMembers_def)
next
  case (Cons f fs)
  obtain t us where ts: "snd f h = Some t" "views (map snd fs) h = Some us" "ts = t # us"
    using Cons.prems(2) by (auto simp: bind_eq_Some_conv)
  have "knownMembers ps (members (fst f, encode t))"
    using Cons.prems(1,3) ts(1) by (intro field_known [of ps "fst f" "snd f" h]) (auto simp: ts(3))
  moreover have "knownMembers ps (fieldMembers (map fst fs) us)" using Cons.IH [OF _ ts(2)] Cons.prems(1,3) by (simp add: ts(3))
  ultimately show ?case by (auto simp: ts(3) knownMembers_def)
qed

lemma struct_json: "structView fs h = Some t \<Longrightarrow> \<exists>ts. views (map snd fs) h = Some ts \<and> toJSON t = JObj (fieldMembers (map fst fs) ts)"
  by (auto simp: structView_def toJSON_def fieldMembers_def)

lemma typedMembers_struct:
  assumes "list_all (fieldTyped ps) fs"
  shows "typedMembers (structView fs) ps"
  unfolding typedMembers_def
proof (intro allI impI)
  fix h t assume t: "structView fs h = Some t" "\<not> hasNull (toJSON t)"
  obtain ts where ts: "views (map snd fs) h = Some ts" "toJSON t = JObj (fieldMembers (map fst fs) ts)" using struct_json [OF t(1)] by blast
  have "\<not> list_ex hasNull (map snd (fieldMembers (map fst fs) ts))" using t(2) unfolding ts(2) by (simp add: list_ex_iff map_prod_def split_beta)
  with fields_known [OF assms ts(1)] ts(2) show "\<exists>ms. toJSON t = JObj ms \<and> knownMembers ps ms" by blast
qed

lemma typedMembers_mono:
  assumes "typedMembers v qs" "list_all (\<lambda>(n, s). map_of ps n = Some s) qs"
  shows "typedMembers v ps"
proof -
  have "map_of ps n = Some s" if "map_of qs n = Some s" for n s
    using assms(2) map_of_SomeD [OF that] by (auto simp: list_all_iff)
  then have "knownMembers qs ms \<Longrightarrow> knownMembers ps ms" for ms
    unfolding knownMembers_def by (force split: option.splits)
  then show ?thesis using assms(1) unfolding typedMembers_def by blast
qed

lemma required_present:
  assumes "views (map snd fs) h = Some ts" "f \<in> set fs" "tagName (fst f) = r" "r \<noteq> []" "\<not> omitEmpty (fst f)"
  shows "r \<in> fst ` set (fieldMembers (map fst fs) ts)"
  using assms(1,2)
proof (induction fs arbitrary: ts)
  case (Cons g fs)
  obtain t us where ts: "views (map snd fs) h = Some us" "ts = t # us" using Cons.prems(1) by (auto simp: bind_eq_Some_conv)
  show ?case
  proof (cases "g = f")
    case True
    then show ?thesis using assms(3-5) by (cases "encode t") (simp add: ts(2) members_def)
  next
    case False
    then show ?thesis using Cons.IH [OF ts(1)] Cons.prems(2) by (auto simp: ts(2))
  qed
qed simp

lemma typed_struct:
  assumes "list_all (fieldTyped ps) fs"
    and "list_all (\<lambda>r. r \<noteq> [] \<and> list_ex (\<lambda>f. tagName (fst f) = r \<and> \<not> omitEmpty (fst f)) fs) req"
  shows "typed (structView fs) (SObj ps req)"
  unfolding typed_def
proof (intro allI impI)
  fix h t assume t: "structView fs h = Some t" "\<not> hasNull (toJSON t)"
  obtain ts where ts: "views (map snd fs) h = Some ts" "toJSON t = JObj (fieldMembers (map fst fs) ts)" using struct_json [OF t(1)] by blast
  have "knownMembers ps (fieldMembers (map fst fs) ts)"
    using typedMembers_struct [OF assms(1)] t ts(2) unfolding typedMembers_def by fastforce
  moreover have "r \<in> fst ` set (fieldMembers (map fst fs) ts)" if "r \<in> set req" for r
    using assms(2) that required_present [OF ts(1)] unfolding list_all_iff list_ex_iff by blast
  ultimately show "fits (SObj ps req) (toJSON t)" unfolding ts(2) fits_SObj by blast
qed

section \<open>The structs fit the schema\<close>

lemmas tag_defs = fieldTyped_def tagName_def omitEmpty_def

lemma typed_Identity [simp]: "typed (view_Identity x) schema_Identity"
  unfolding schema_Identity_def by (rule typed_struct) (simp_all add: fields_Identity_def tag_defs)

lemma typed_OS [simp]: "typed (view_OS x) schema_OS"
  unfolding schema_OS_def by (rule typed_struct) (simp_all add: fields_OS_def tag_defs)

lemma typed_ResourceConstraints [simp]: "typed (view_ResourceConstraints x) schema_ResourceConstraints"
  unfolding schema_ResourceConstraints_def by (rule typed_struct) (simp_all add: fields_ResourceConstraints_def tag_defs)

lemma typed_Placement [simp]: "typed (view_Placement x) schema_Placement"
  unfolding schema_Placement_def by (rule typed_struct) (simp_all add: fields_Placement_def tag_defs)

lemma typed_DeviceAlias [simp]: "typed (view_DeviceAlias x) schema_DeviceAlias"
  unfolding schema_DeviceAlias_def by (rule typed_struct) (simp_all add: fields_DeviceAlias_def tag_defs)

lemma typed_Route [simp]: "typed (view_Route x) schema_Route"
  unfolding schema_Route_def by (rule typed_struct) (simp_all add: fields_Route_def tag_defs)

lemma typed_SRIOVConfig [simp]: "typed (view_SRIOVConfig x) schema_SRIOVConfig"
  unfolding schema_SRIOVConfig_def by (rule typed_struct) (simp_all add: fields_SRIOVConfig_def tag_defs)

lemma typed_DeviceMatch [simp]: "typed (view_DeviceMatch x) schema_DeviceMatch"
  unfolding schema_DeviceMatch_def by (rule typed_struct) (simp_all add: fields_DeviceMatch_def tag_defs)

lemma typed_DNSConfig [simp]: "typed (view_DNSConfig x) schema_DNSConfig"
  unfolding schema_DNSConfig_def by (rule typed_struct) (simp_all add: fields_DNSConfig_def tag_defs)

lemma typed_EthernetConfig [simp]: "typed (view_EthernetConfig x) schema_EthernetConfig"
  unfolding schema_EthernetConfig_def by (rule typed_struct) (simp_all add: fields_EthernetConfig_def tag_defs typedMembers_struct fields_InterfaceCommon_def)

lemma typed_BondMemberAttachment [simp]: "typed (view_BondMemberAttachment x) schema_BondMemberAttachment"
  unfolding schema_BondMemberAttachment_def by (rule typed_struct) (simp_all add: fields_BondMemberAttachment_def tag_defs)

lemma typed_BondParameters [simp]: "typed (view_BondParameters x) schema_BondParameters"
  unfolding schema_BondParameters_def by (rule typed_struct) (simp_all add: fields_BondParameters_def tag_defs)

lemma typed_BondConfig [simp]: "typed (view_BondConfig x) schema_BondConfig"
  unfolding schema_BondConfig_def by (rule typed_struct) (simp_all add: fields_BondConfig_def tag_defs typedMembers_struct fields_InterfaceCommon_def)

lemma typed_VLANConfig [simp]: "typed (view_VLANConfig x) schema_VLANConfig"
  unfolding schema_VLANConfig_def by (rule typed_struct) (simp_all add: fields_VLANConfig_def tag_defs typedMembers_struct fields_InterfaceCommon_def)

lemma typed_FabricNetplanConfig [simp]: "typed (view_FabricNetplanConfig x) schema_FabricNetplanConfig"
  unfolding schema_FabricNetplanConfig_def by (rule typed_struct) (simp_all add: fields_FabricNetplanConfig_def tag_defs)

lemma typed_NetworkConfig [simp]: "typed (view_NetworkConfig x) schema_NetworkConfig"
  unfolding schema_NetworkConfig_def by (rule typed_struct) (simp_all add: fields_NetworkConfig_def tag_defs)

lemma typed_Filesystem [simp]: "typed (view_Filesystem x) schema_Filesystem"
  unfolding schema_Filesystem_def by (rule typed_struct) (simp_all add: fields_Filesystem_def tag_defs)

lemma typed_Partition [simp]: "typed (view_Partition x) schema_Partition"
  unfolding schema_Partition_def by (rule typed_struct) (simp_all add: fields_Partition_def tag_defs)

lemma typed_Disk [simp]: "typed (view_Disk x) schema_Disk"
  unfolding schema_Disk_def by (rule typed_struct) (simp_all add: fields_Disk_def tag_defs)

lemma typed_LogicalVolume [simp]: "typed (view_LogicalVolume x) schema_LogicalVolume"
  unfolding schema_LogicalVolume_def by (rule typed_struct) (simp_all add: fields_LogicalVolume_def tag_defs)

lemma typed_VolumeGroup [simp]: "typed (view_VolumeGroup x) schema_VolumeGroup"
  unfolding schema_VolumeGroup_def by (rule typed_struct) (simp_all add: fields_VolumeGroup_def tag_defs)

lemma typed_StorageSpec [simp]: "typed (view_StorageSpec x) schema_StorageSpec"
  unfolding schema_StorageSpec_def by (rule typed_struct) (simp_all add: fields_StorageSpec_def tag_defs)

lemma typed_ProvisioningSpec [simp]: "typed (view_ProvisioningSpec x) schema_ProvisioningSpec"
  unfolding schema_ProvisioningSpec_def by (rule typed_struct) (simp_all add: fields_ProvisioningSpec_def tag_defs)

lemma typed_HugePages [simp]: "typed (view_HugePages x) schema_HugePages"
  unfolding schema_HugePages_def by (rule typed_struct) (simp_all add: fields_HugePages_def tag_defs)

lemma typed_PackageRepo [simp]: "typed (view_PackageRepo x) schema_PackageRepo"
  unfolding schema_PackageRepo_def by (rule typed_struct) (simp_all add: fields_PackageRepo_def tag_defs)

section \<open>Structs with Kubernetes types\<close>

text \<open>
  What the schema says of the Kubernetes types: a \<open>SecretKeySelector\<close> and a \<open>Condition\<close> fit the schemas that the file gives for them, the
  metadata is an object, and a \<open>TypeMeta\<close> adds the members \<open>apiVersion\<close> and \<open>kind\<close>.
\<close>

definition typedK8s :: "'e k8s \<Rightarrow> bool" where
  "typedK8s k \<longleftrightarrow> (\<forall>x. typed (viewSecretKeySelector k x) schema_SecretKeySelector) \<and> (\<forall>x. typed (viewCondition k x) schema_Condition)
     \<and> (\<forall>x. typed (viewObjectMeta k x) SAnyObj)
     \<and> (\<forall>x. typedMembers (leaf (viewTypeMeta k x) :: 'e val view) [(''apiVersion'', SStr []), (''kind'', SStr [])])"

lemma typedK8sD:
  fixes k :: "'e k8s"
  assumes "typedK8s k"
  shows "typed (viewSecretKeySelector k x) schema_SecretKeySelector" "typed (viewCondition k x) schema_Condition"
    "typed (viewObjectMeta k x) SAnyObj"
    "typedMembers (leaf (viewTypeMeta k x) :: 'e val view) [(''apiVersion'', SStr []), (''kind'', SStr [])]"
  using assms by (simp_all add: typedK8s_def)

lemma typed_BMC:
  assumes "typedK8s k"
  shows "typed (view_BMC k x) schema_BMC"
  unfolding schema_BMC_def
  by (rule typed_struct) (simp_all add: fields_BMC_def tag_defs typedK8sD(1-3) [OF assms])

lemma typed_MAASMachineSpec:
  assumes "typedK8s k"
  shows "typed (view_MAASMachineSpec k x) schema_MAASMachineSpec"
  unfolding schema_MAASMachineSpec_def
  by (rule typed_struct) (simp_all add: fields_MAASMachineSpec_def tag_defs typedK8sD(1-3) [OF assms] typed_BMC [OF assms])

lemma typed_MAASMachineStatus:
  assumes "typedK8s k"
  shows "typed (view_MAASMachineStatus k x) schema_MAASMachineStatus"
  unfolding schema_MAASMachineStatus_def
  by (rule typed_struct) (simp_all add: fields_MAASMachineStatus_def tag_defs typedK8sD(1-3) [OF assms])

lemma typed_MAASMachine:
  assumes "typedK8s k"
  shows "typed (view_MAASMachine k x) schema_MAASMachine"
  unfolding schema_MAASMachine_def
  by (rule typed_struct) (simp_all add: fields_MAASMachine_def tag_defs typedK8sD(1-3) [OF assms] typed_MAASMachineSpec [OF assms] typed_MAASMachineStatus [OF assms]
      typedMembers_mono [OF typedK8sD(4) [OF assms]])

section \<open>Properties\<close>

text \<open>Kubernetes types with a single text, for the example, and a machine of them with a bond.\<close>

definition textK8s :: "string k8s" where
  "textK8s = \<lparr>copySecretKeySelector = assign, copyCondition = assign, copyObjectMeta = assign, copyListMeta = assign,
     viewSecretKeySelector = (\<lambda>s. structView [(''key'', leaf (Str s))]),
     viewCondition = (\<lambda>s. structView (map (\<lambda>n. (n, leaf (Str s))) [''type'', ''status'', ''lastTransitionTime'', ''reason'', ''message''])),
     viewObjectMeta = (\<lambda>s. structView [(''name,omitempty'', leaf (Str s))]), viewListMeta = (\<lambda>s. structView []),
     viewTypeMeta = (\<lambda>s. Struct [(''kind,omitempty'', Str s)])\<rparr>"

lemma textK8s_typed: "typedK8s textK8s"
proof -
  have "typedMembers (leaf (Struct [(''kind,omitempty'', Str s)]) :: string val view) [(''apiVersion'', SStr []), (''kind'', SStr [])]" for s
    by (simp add: typedMembers_def leaf_def toJSON_def members_def tagName_def omitEmpty_def knownMembers_def)
  moreover have "typed (structView [(''name,omitempty'', leaf (Str s))] :: string val view) SAnyObj" for s
    by (auto simp: typed_def structView_def leaf_def toJSON_def)
  moreover have "typed (structView [(''key'', leaf (Str s))] :: string val view) schema_SecretKeySelector" for s
    unfolding schema_SecretKeySelector_def by (rule typed_struct) (simp_all add: tag_defs)
  moreover have "typed (structView (map (\<lambda>n. (n, leaf (Str s))) [''type'', ''status'', ''lastTransitionTime'', ''reason'', ''message''])
      :: string val view) schema_Condition" for s
    unfolding schema_Condition_def by (rule typed_struct) (simp_all add: tag_defs)
  ultimately show ?thesis by (simp add: typedK8s_def textK8s_def)
qed

definition bondMachine :: "string MAASMachine" where
  "bondMachine = \<lparr>MAASMachine_TypeMeta = ''MAASMachine'', MAASMachine_ObjectMeta = ''n1'',
     MAASMachine_Spec = (MAASMachine_Spec sampleMachine)\<lparr>MAASMachineSpec_Network := Some 3\<rparr>,
     MAASMachine_Status = MAASMachine_Status sampleMachine\<rparr>"

definition bondHeap :: "string val heap" where
  "bondHeap = [Obj (VInt 7), Arr [VString ''a'', VString ''b'', VString ''c''], Dict [(''k'', VString ''v'')],
     Obj (VNetworkConfig \<lparr>NetworkConfig_PrimaryNetwork = ''oam'', NetworkConfig_DNS = None, NetworkConfig_Fabrics = Some 4\<rparr>),
     Dict [(''f'', VFabricNetplanConfig \<lparr>FabricNetplanConfig_Ethernets = None, FabricNetplanConfig_Bonds = Some 5, FabricNetplanConfig_VLANs = None\<rparr>)],
     Dict [(''bond0'', VBondConfig \<lparr>BondConfig_InterfaceCommon = \<lparr>InterfaceCommon_Network = ''oam'', InterfaceCommon_MTU = Some 0,
       InterfaceCommon_Addresses = Some (1, 0, 1), InterfaceCommon_Gateway4 = [], InterfaceCommon_Routes = None, InterfaceCommon_LinkMode = [],
       InterfaceCommon_DNS = None\<rparr>, BondConfig_Interfaces = Some (6, 0, 1), BondConfig_Parameters = None\<rparr>)],
     Arr [VBondMemberAttachment \<lparr>BondMemberAttachment_Match = \<lparr>DeviceMatch_DeviceAlias = ''nic0'', DeviceMatch_MACAddress = []\<rparr>\<rparr>]]"

abbreviation bondTree :: "addr tree" where
  "bondTree \<equiv> the (view_MAASMachine textK8s bondMachine bondHeap)"

lemma bondTree_view: "view_MAASMachine textK8s bondMachine bondHeap = Some bondTree"
  by code_simp

lemma bondTree_null: "\<not> hasNull (toJSON bondTree)"
  by code_simp



end
