(* ===== verification/Shell.thy ===== *)
theory Shell
  imports Go_Strings "HOL-Library.State_Monad"
begin

text \<open>
  The POSIX shell as the scripts of the overlay use it: pattern matching of \<open>case\<close>, prefix removal, field
  splitting, and commands as programs of the state monad. The system a script runs on is a parameter: each test and each
  command asks it, and it may change at every one of them. The state keeps the commands run so far, and \<open>does\<close> is the program logic
  for what a script runs.
\<close>

section \<open>Words\<close>

text \<open>Patterns of literal characters and stars.\<close>

fun patMatch :: "string \<Rightarrow> string \<Rightarrow> bool" where
  "patMatch [] s = (s = [])"
| "patMatch (p # ps) [] = (p = CHR ''*'' \<and> patMatch ps [])"
| "patMatch (p # ps) (c # s) =
     (if p = CHR ''*'' then patMatch ps (c # s) \<or> patMatch (p # ps) s else p = c \<and> patMatch ps s)"

text \<open>\<open>${x#p}\<close> for a pattern without stars.\<close>

definition stripPrefix :: "string \<Rightarrow> string \<Rightarrow> string" where
  "stripPrefix p x = (if hasPrefix x p then drop (length p) x else x)"

definition blank :: "char \<Rightarrow> bool" where
  "blank c \<longleftrightarrow> c = CHR '' '' \<or> c = CHR 0x09 \<or> c = CHR 0x0A"

fun splitBlank :: "string \<Rightarrow> string list" where
  "splitBlank [] = [[]]"
| "splitBlank (c # s) = (if blank c then [] # splitBlank s
     else (case splitBlank s of [] \<Rightarrow> [[c]] | w # ws \<Rightarrow> (c # w) # ws))"

text \<open>Splitting with the default field separators, of which a run counts once; and with \<open>IFS=','\<close>, where every comma ends a field.\<close>

definition fieldSplit :: "string \<Rightarrow> string list" where
  "fieldSplit s = filter (\<lambda>w. w \<noteq> []) (splitBlank s)"

definition commaFields :: "string \<Rightarrow> string list" where
  "commaFields s = (let ws = splitOn (CHR '','') s in if last ws = [] then butlast ws else ws)"

section \<open>Commands\<close>

text \<open>Running a program, \<open>echo\<close> into a file, \<open>sleep\<close>, and sourcing a file.\<close>

datatype action = Command "string list" | EchoTo string string | Sleep nat | Source string

record 'k system =
  isDir :: "string \<Rightarrow> 'k \<Rightarrow> bool \<times> 'k"
  executable :: "string \<Rightarrow> 'k \<Rightarrow> bool \<times> 'k"
  exists :: "string \<Rightarrow> 'k \<Rightarrow> bool \<times> 'k"
  listDir :: "string \<Rightarrow> 'k \<Rightarrow> string list \<times> 'k"
  readFiles :: "string list \<Rightarrow> 'k \<Rightarrow> string \<times> 'k"
  pathnames :: "string \<Rightarrow> 'k \<Rightarrow> string list \<times> 'k"
  perform :: "action \<Rightarrow> 'k \<Rightarrow> bool \<times> 'k"
  echoed :: "string \<Rightarrow> string"

record 'k sh =
  world :: 'k
  trace :: "action list"

type_synonym ('k, 'a) script = "('k sh, 'a) state"

abbreviation skip :: "('k, unit) script" where
  "skip \<equiv> State_Monad.return ()"

definition observe :: "('k \<Rightarrow> 'a \<times> 'k) \<Rightarrow> ('k, 'a) script" where
  "observe f = State (\<lambda>s. case f (world s) of (x, k) \<Rightarrow> (x, s\<lparr>world := k\<rparr>))"

definition act :: "'k system \<Rightarrow> action \<Rightarrow> ('k, bool) script" where
  "act K a = State (\<lambda>s. case perform K a (world s) of (ok, k) \<Rightarrow> (ok, s\<lparr>world := k, trace := trace s @ [a]\<rparr>))"

text \<open>\<open>[ -d p ]\<close>, \<open>ls p | head -n1\<close>, \<open>cat\<close>, and a command whose status does not matter.\<close>

definition testDir :: "'k system \<Rightarrow> string \<Rightarrow> ('k, bool) script" where
  "testDir K p = observe (isDir K p)"

definition firstName :: "'k system \<Rightarrow> string \<Rightarrow> ('k, string) script" where
  "firstName K p = do { ns \<leftarrow> observe (listDir K p); State_Monad.return (case ns of [] \<Rightarrow> [] | n # _ \<Rightarrow> n) }"

definition cat :: "'k system \<Rightarrow> string list \<Rightarrow> ('k, string) script" where
  "cat K ps = observe (readFiles K ps)"

definition exec :: "'k system \<Rightarrow> action \<Rightarrow> ('k, unit) script" where
  "exec K a = do { _ \<leftarrow> act K a; skip }"

text \<open>The words of an unquoted expansion: its fields after pathname expansion.\<close>

fun expandAll :: "'k system \<Rightarrow> string list \<Rightarrow> ('k, string list) script" where
  "expandAll K [] = State_Monad.return []"
| "expandAll K (w # ws) = do { ps \<leftarrow> observe (pathnames K w); rest \<leftarrow> expandAll K ws; State_Monad.return (ps @ rest) }"

fun forEach :: "('a \<Rightarrow> ('k, unit) script) \<Rightarrow> 'a list \<Rightarrow> ('k, unit) script" where
  "forEach f [] = skip"
| "forEach f (x # xs) = do { f x; forEach f xs }"

section \<open>What a script runs\<close>

definition does :: "('k, 'a) script \<Rightarrow> ('a \<Rightarrow> action list \<Rightarrow> bool) \<Rightarrow> bool" where
  "does m Q \<longleftrightarrow> (\<forall>s. \<exists>as. trace (snd (run_state m s)) = trace s @ as \<and> Q (fst (run_state m s)) as)"

lemma doesI: "(\<And>s. \<exists>as. trace (snd (run_state m s)) = trace s @ as \<and> Q (fst (run_state m s)) as) \<Longrightarrow> does m Q"
  by (simp add: does_def)

lemma does_weaken: "does m Q \<Longrightarrow> (\<And>x as. Q x as \<Longrightarrow> R x as) \<Longrightarrow> does m R"
  unfolding does_def by blast

lemma does_return: "Q x [] \<Longrightarrow> does (State_Monad.return x) Q"
  by (simp add: does_def)

lemma does_bind:
  assumes "does m Q" "\<And>x as. Q x as \<Longrightarrow> does (f x) (\<lambda>y bs. R y (as @ bs))"
  shows "does (State_Monad.bind m f) R"
proof (rule doesI)
  fix s
  obtain x s' where m: "run_state m s = (x, s')" by fastforce
  obtain as where as: "trace s' = trace s @ as" "Q x as" using assms(1) m unfolding does_def by (metis fst_conv snd_conv)
  obtain bs where "trace (snd (run_state (f x) s')) = trace s' @ bs" "R (fst (run_state (f x) s')) (as @ bs)"
    using assms(2) [OF as(2)] unfolding does_def by blast
  then show "\<exists>as. trace (snd (run_state (State_Monad.bind m f) s)) = trace s @ as \<and> R (fst (run_state (State_Monad.bind m f) s)) as"
    using m as(1) by (intro exI [of _ "as @ bs"]) simp
qed

lemma does_quiet: "does m (\<lambda>x as. as = [] \<and> Q x) \<Longrightarrow> (\<And>x. Q x \<Longrightarrow> does (f x) R) \<Longrightarrow> does (State_Monad.bind m f) R"
  by (rule does_bind [of _ "\<lambda>x as. as = [] \<and> Q x"]) auto

lemma does_observe: "(\<And>k. Q (fst (f k)) []) \<Longrightarrow> does (observe f) Q"
  by (simp add: does_def observe_def split: prod.splits) (metis fst_conv)

lemma does_act: "(\<And>ok. Q ok [a]) \<Longrightarrow> does (act K a) Q"
  by (simp add: does_def act_def split: prod.splits)

lemma does_exec: "Q () [a] \<Longrightarrow> does (exec K a) Q"
  unfolding exec_def by (rule does_bind [OF does_act [of "\<lambda>_ as. as = [a]"]]) (auto intro: does_return)

lemma does_exec_bind: "does (f ()) (\<lambda>y bs. R y (a # bs)) \<Longrightarrow> does (State_Monad.bind (exec K a) f) R"
  by (rule does_bind [OF does_exec [of "\<lambda>_ as. as = [a]"]]) simp_all

lemma does_testDir: "(\<And>here. does (f here) R) \<Longrightarrow> does (State_Monad.bind (testDir K p) f) R"
  unfolding testDir_def by (rule does_quiet [OF does_observe, of "\<lambda>_. True"]) auto

lemma does_forEach: "(\<And>x. x \<in> set xs \<Longrightarrow> does (f x) (\<lambda>_ as. as = g x)) \<Longrightarrow> does (forEach f xs) (\<lambda>_ as. as = concat (map g xs))"
  by (induction xs) (auto intro: does_return does_bind does_weaken)

section \<open>Lemmas on words\<close>

lemma patMatch_star [simp]: "patMatch ''*'' s"
  by (induction s) simp_all

lemma patMatch_literal: "CHR ''*'' \<notin> set p \<Longrightarrow> patMatch (p @ q) s \<Longrightarrow> hasPrefix s p"
proof (induction p arbitrary: s)
  case (Cons c p)
  then show ?case by (cases s) (auto simp: hasPrefix_def)
qed (simp add: hasPrefix_def)

lemma splitBlank_not_Nil: "splitBlank s \<noteq> []"
  by (induction s) (auto split: list.splits)

lemma splitBlank_append: "blank c \<Longrightarrow> splitBlank (a @ c # b) = splitBlank a @ splitBlank b"
  by (induction a) (auto split: list.splits simp: splitBlank_not_Nil)

lemma fieldSplit_append: "blank c \<Longrightarrow> fieldSplit (a @ c # b) = fieldSplit a @ fieldSplit b"
  by (simp add: fieldSplit_def splitBlank_append)

lemma splitBlank_word: "\<forall>c \<in> set w. \<not> blank c \<Longrightarrow> splitBlank w = [w]"
  by (induction w) auto

lemma fieldSplit_word: "w \<noteq> [] \<Longrightarrow> \<forall>c \<in> set w. \<not> blank c \<Longrightarrow> fieldSplit w = [w]"
  by (simp add: fieldSplit_def splitBlank_word)

lemma fieldSplit_Nil [simp]: "fieldSplit [] = []"
  by (simp add: fieldSplit_def)

lemma commaFields_join:
  assumes "\<forall>m \<in> set ms. m \<noteq> [] \<and> CHR '','' \<notin> set m"
  shows "commaFields (join ms '','') = ms"
proof (cases "ms = []")
  case False
  moreover have "last ms \<noteq> []" using assms False by auto
  ultimately show ?thesis using assms splitOn_join [of ms "CHR '',''"] by (simp add: commaFields_def)
qed (simp add: commaFields_def)

end
