(* ===== verification/Bond_Hook.thy ===== *)
theory Bond_Hook
  imports Shell Server_State
begin

text \<open>
  The hook of the initramfs overlay that forms the bond, \<^verbatim>\<open>initramfs-bond-overlay/scripts/init-premount/bond\<close>,
  and the \<open>ORDER\<close> file beside it that runs it. The hook reads the kernel arguments that \<open>buildKernelNet\<close> writes into the boot script of
  a bonded node, so the two are the ends of one protocol. Log output is left out.
\<close>

section \<open>Parameters\<close>

record BondParams =
  BOND :: string
  MEMBERS :: string
  MODE :: string
  RATE :: string
  HASH :: string
  VID :: string

definition noParams :: BondParams where
  "noParams = \<lparr>BOND = [], MEMBERS = [], MODE = [], RATE = [], HASH = [], VID = []\<rparr>"

definition assignParam :: "string \<Rightarrow> BondParams \<Rightarrow> BondParams" where
  "assignParam x p =
     (if patMatch ''gen_bond=*'' x then p\<lparr>BOND := stripPrefix ''gen_bond='' x\<rparr>
      else if patMatch ''gen_members=*'' x then p\<lparr>MEMBERS := stripPrefix ''gen_members='' x\<rparr>
      else if patMatch ''gen_mode=*'' x then p\<lparr>MODE := stripPrefix ''gen_mode='' x\<rparr>
      else if patMatch ''gen_rate=*'' x then p\<lparr>RATE := stripPrefix ''gen_rate='' x\<rparr>
      else if patMatch ''gen_hash=*'' x then p\<lparr>HASH := stripPrefix ''gen_hash='' x\<rparr>
      else if patMatch ''gen_vlan=*'' x then p\<lparr>VID := stripPrefix ''gen_vlan='' x\<rparr>
      else p)"

definition orDefault :: "string \<Rightarrow> string \<Rightarrow> string" where
  "orDefault v d = (if v = [] then d else v)"

definition withDefaults :: "BondParams \<Rightarrow> BondParams" where
  "withDefaults p = p\<lparr>MODE := orDefault (MODE p) ''802.3ad'', RATE := orDefault (RATE p) ''fast'', HASH := orDefault (HASH p) ''layer3+4''\<rparr>"

section \<open>Members\<close>

definition nap :: action where "nap = Sleep 1"

definition pciAddr :: "string \<Rightarrow> string" where
  "pciAddr spec = (if patMatch ''*:*:*.*'' spec then spec else ''0000:'' @ spec)"

definition pciNet :: "string \<Rightarrow> string" where
  "pciNet spec = ''/sys/bus/pci/devices/'' @ pciAddr spec @ ''/net''"

definition netDir :: "string \<Rightarrow> string" where
  "netDir name = ''/sys/class/net/'' @ name"

text \<open>The two waiting loops, on the seconds that are left; what the function prints, and its status.\<close>

fun waitPCI :: "'k system \<Rightarrow> string \<Rightarrow> nat \<Rightarrow> ('k, string \<times> bool) script" where
  "waitPCI K d 0 = State_Monad.return ([], False)"
| "waitPCI K d (Suc left) = do {
     here \<leftarrow> testDir K d;
     n \<leftarrow> (if here then firstName K d else State_Monad.return []);
     if n \<noteq> [] then State_Monad.return (echoed K n, True)
     else do { exec K nap; waitPCI K d left } }"

fun waitName :: "'k system \<Rightarrow> string \<Rightarrow> nat \<Rightarrow> ('k, unit) script" where
  "waitName K spec left = do {
     here \<leftarrow> testDir K (netDir spec);
     if here then skip
     else (case left of 0 \<Rightarrow> skip | Suc l \<Rightarrow> do { exec K nap; waitName K spec l }) }"

declare waitName.simps [simp del]

definition resolve_member :: "'k system \<Rightarrow> string \<Rightarrow> ('k, string \<times> bool) script" where
  "resolve_member K spec =
     (if patMatch ''*:*'' spec then waitPCI K (pciNet spec) 60
      else do { waitName K spec 60; there \<leftarrow> testDir K (netDir spec); State_Monad.return (echoed K spec, there) })"

fun resolveAll :: "'k system \<Rightarrow> string list \<Rightarrow> string \<Rightarrow> ('k, string) script" where
  "resolveAll K [] resolved = State_Monad.return resolved"
| "resolveAll K (m # ms) resolved = do {
     (name, status) \<leftarrow> resolve_member K m;
     resolveAll K ms (if name \<noteq> [] then resolved @ (if resolved \<noteq> [] then '' '' else []) @ name else resolved) }"

section \<open>The bond\<close>

definition ipSet :: "string \<Rightarrow> string \<Rightarrow> action" where
  "ipSet dev state = Command [''ip'', ''link'', ''set'', dev, state]"

definition bonding :: "string \<Rightarrow> string \<Rightarrow> string" where
  "bonding b file = netDir b @ ''/bonding/'' @ file"

definition enslave :: "'k system \<Rightarrow> string \<Rightarrow> string \<Rightarrow> ('k, unit) script" where
  "enslave K b name = do { exec K (ipSet name ''down''); exec K (EchoTo (''+'' @ name) (bonding b ''slaves'')) }"

definition addVlan :: "string \<Rightarrow> string \<Rightarrow> string \<Rightarrow> action" where
  "addVlan b vdev vid = Command [''ip'', ''link'', ''add'', ''link'', b, ''name'', vdev, ''type'', ''vlan'', ''id'', vid]"

definition makeVlan :: "'k system \<Rightarrow> BondParams \<Rightarrow> ('k, unit) script" where
  "makeVlan K p = (if VID p = [] then skip
     else (let vdev = BOND p @ ''.'' @ VID p in do {
       here \<leftarrow> testDir K (netDir vdev);
       (if here then skip
        else do { ok \<leftarrow> act K (addVlan (BOND p) vdev (VID p));
                  if ok then skip else exec K (Command [''vconfig'', ''add'', BOND p, VID p]) });
       exec K (ipSet vdev ''up'') }))"

fun waitCarrier :: "'k system \<Rightarrow> string \<Rightarrow> nat \<Rightarrow> ('k, unit) script" where
  "waitCarrier K b 0 = skip"
| "waitCarrier K b (Suc left) = do {
     ps \<leftarrow> expandAll K (fieldSplit (netDir b @ ''/carrier''));
     t \<leftarrow> cat K ps;
     if t = ''1'' then skip else do { exec K nap; waitCarrier K b left } }"

definition configure :: "'k system \<Rightarrow> BondParams \<Rightarrow> string \<Rightarrow> ('k, unit) script" where
  "configure K p resolved = do {
     here \<leftarrow> testDir K (netDir (BOND p));
     (if here then skip else exec K (EchoTo (''+'' @ BOND p) ''/sys/class/net/bonding_masters''));
     exec K (EchoTo (MODE p) (bonding (BOND p) ''mode''));
     exec K (EchoTo (RATE p) (bonding (BOND p) ''lacp_rate''));
     exec K (EchoTo (HASH p) (bonding (BOND p) ''xmit_hash_policy''));
     names \<leftarrow> expandAll K (fieldSplit resolved);
     forEach (enslave K (BOND p)) names;
     exec K (ipSet (BOND p) ''up'');
     names' \<leftarrow> expandAll K (fieldSplit resolved);
     forEach (\<lambda>name. exec K (ipSet name ''up'')) names';
     makeVlan K p;
     waitCarrier K (BOND p) 30;
     exec K (Sleep 2) }"

definition setupBond :: "'k system \<Rightarrow> BondParams \<Rightarrow> ('k, unit) script" where
  "setupBond K p = do {
     exec K (Command [''modprobe'', ''bonding'']);
     exec K (Command [''modprobe'', ''8021q'']);
     ms \<leftarrow> expandAll K (commaFields (MEMBERS p));
     resolved \<leftarrow> resolveAll K ms [];
     if resolved = [] then skip else configure K p resolved }"

definition bond :: "'k system \<Rightarrow> string list \<Rightarrow> ('k, unit) script" where
  "bond K args =
     (if args \<noteq> [] \<and> hd args = ''prereqs'' then skip
      else do {
        cmdline \<leftarrow> cat K [''/proc/cmdline''];
        ws \<leftarrow> expandAll K (fieldSplit cmdline);
        let p = fold assignParam ws noParams in
        if BOND p = [] \<or> MEMBERS p = [] then skip else setupBond K (withDefaults p) })"

text \<open>\<open>ORDER\<close>: the bond hook first, then every other executable entry of the directory, with \<open>param.conf\<close> sourced after each.\<close>

definition hookDir :: string where "hookDir = ''/scripts/init-premount/''"

definition sourceParams :: "'k system \<Rightarrow> ('k, unit) script" where
  "sourceParams K = do { there \<leftarrow> observe (exists K ''/conf/param.conf''); if there then exec K (Source ''/conf/param.conf'') else skip }"

definition runHook :: "'k system \<Rightarrow> string list \<Rightarrow> string \<Rightarrow> ('k, unit) script" where
  "runHook K args h = do {
     x \<leftarrow> observe (executable K h);
     if x then do { exec K (Command (h # args)); sourceParams K } else skip }"

definition ORDER :: "'k system \<Rightarrow> string list \<Rightarrow> ('k, unit) script" where
  "ORDER K args = do {
     runHook K args (hookDir @ ''bond'');
     entries \<leftarrow> observe (pathnames K (hookDir @ ''*''));
     forEach (\<lambda>h. if patMatch ''*/ORDER'' h \<or> patMatch ''*/bond'' h then skip else runHook K args h) entries }"

section \<open>Plain words\<close>

text \<open>
  Words the shell leaves alone: not empty, no blanks, no pattern characters, no backslash, no leading dash. What is used of the system: expansion and
  \<open>echo\<close> keep such words, and network devices have such names.
\<close>

definition plainChar :: "char \<Rightarrow> bool" where
  "plainChar c \<longleftrightarrow> \<not> blank c \<and> c \<notin> set ''*?['' \<and> c \<noteq> CHR 0x5C"

definition plainWord :: "string \<Rightarrow> bool" where
  "plainWord w \<longleftrightarrow> w \<noteq> [] \<and> hd w \<noteq> CHR ''-'' \<and> list_all plainChar w"

definition wfSystem :: "'k system \<Rightarrow> bool" where
  "wfSystem K \<longleftrightarrow> (\<forall>w k. plainWord w \<longrightarrow> fst (pathnames K w k) = [w]) \<and> (\<forall>w. plainWord w \<longrightarrow> echoed K w = w)
     \<and> (\<forall>spec k. list_all plainWord (fst (listDir K (pciNet spec) k)))"

lemma plainWord_fields: "plainWord w \<Longrightarrow> fieldSplit w = [w]"
  by (rule fieldSplit_word) (auto simp: plainWord_def plainChar_def list_all_iff)

lemma plainWord_append: "plainWord v \<Longrightarrow> list_all plainChar w \<Longrightarrow> plainWord (v @ w)"
  by (auto simp: plainWord_def)

lemma join_snoc: "join (xs @ [x]) sep = join xs sep @ (if xs = [] then [] else sep) @ x"
  by (induction xs sep rule: join.induct) simp_all

lemma join_empty: "\<forall>x \<in> set xs. x \<noteq> [] \<Longrightarrow> join xs sep = [] \<longleftrightarrow> xs = []"
  by (cases "(xs, sep)" rule: join.cases) auto

lemma fieldSplit_join: "list_all plainWord ws \<Longrightarrow> fieldSplit (join ws '' '') = ws"
proof (induction ws "'' ''" rule: join.induct)
  case (3 x y xs)
  then show ?case using fieldSplit_append [of "CHR '' ''" x] by (simp add: plainWord_fields blank_def)
qed (simp_all add: plainWord_fields)

lemma does_expandAll:
  assumes "wfSystem K" "list_all plainWord ws"
  shows "does (expandAll K ws) (\<lambda>r as. r = ws \<and> as = [])"
  using assms(2)
proof (induction ws)
  case (Cons w ws)
  have "does (observe (pathnames K w)) (\<lambda>r as. r = [w] \<and> as = [])"
    using assms(1) Cons.prems by (intro does_observe) (simp add: wfSystem_def)
  moreover have "does (expandAll K ws) (\<lambda>r as. as = [] \<and> r = ws)" using Cons by (simp add: conj_commute)
  ultimately show ?case unfolding expandAll.simps by (intro does_quiet [of _ "\<lambda>r. r = [w]"] does_quiet [of _ "\<lambda>r. r = ws"])
      (simp_all add: conj_commute does_return)
qed (simp add: does_return)

section \<open>Resolving the members\<close>

definition naps :: "nat \<Rightarrow> action list \<Rightarrow> bool" where
  "naps n as \<longleftrightarrow> (\<exists>a \<le> n. as = replicate a (nap))"

lemma naps_Nil [simp]: "naps n []"
  by (auto simp: naps_def)

lemma naps_append: "naps m as \<Longrightarrow> naps n bs \<Longrightarrow> naps (m + n) (as @ bs)"
  unfolding naps_def by (metis add_mono replicate_add)

lemma naps_Cons: "naps n as \<Longrightarrow> naps (Suc n) (nap # as)"
  unfolding naps_def by (metis Suc_le_mono replicate_Suc)

text \<open>What a member stands for: an interface its name, a PCI address the first device that its directory lists at some moment, or nothing.\<close>

definition memberName :: "'k system \<Rightarrow> string \<Rightarrow> string option \<Rightarrow> bool" where
  "memberName K m r \<longleftrightarrow> (if CHR '':'' \<in> set m then (\<forall>x. r = Some x \<longrightarrow> (\<exists>k xs. fst (listDir K (pciNet m) k) = x # xs)) else r = Some m)"

definition printed :: "string \<Rightarrow> string option" where
  "printed name = (if name = [] then None else Some name)"

lemma does_waitPCI:
  assumes "wfSystem K"
  shows "does (waitPCI K (pciNet m) left) (\<lambda>(name, _) as. naps left as \<and>
    (name = [] \<or> plainWord name \<and> (\<exists>k xs. fst (listDir K (pciNet m) k) = name # xs)))"
proof (induction left)
  case (Suc left)
  let ?R = "\<lambda>n. n = [] \<or> plainWord n \<and> (\<exists>k xs. fst (listDir K (pciNet m) k) = n # xs)"
  have first: "does (firstName K (pciNet m)) (\<lambda>n as. as = [] \<and> ?R n)"
    unfolding firstName_def
  proof (rule does_bind)
    show "does (observe (listDir K (pciNet m))) (\<lambda>ns as. as = [] \<and> list_all plainWord ns \<and> (\<exists>k. fst (listDir K (pciNet m) k) = ns))"
      using assms by (intro does_observe) (auto simp: wfSystem_def)
  qed (auto intro!: does_return split: list.splits)
  have look: "does (if here then firstName K (pciNet m) else State_Monad.return []) (\<lambda>n as. as = [] \<and> ?R n)" for here
    using first by (simp add: does_return)
  have rest: "does (if n \<noteq> [] then State_Monad.return (echoed K n, True) else do { exec K nap; waitPCI K (pciNet m) left })
      (\<lambda>(name, _) as. naps (Suc left) as \<and> ?R name)" if "?R n" for n
  proof (cases "n = []")
    case True
    have "does (do { exec K nap; waitPCI K (pciNet m) left }) (\<lambda>(name, _) as. naps (Suc left) as \<and> ?R name)"
      by (rule does_exec_bind, rule does_weaken [OF Suc]) (auto intro: naps_Cons)
    then show ?thesis using True by simp
  next
    case False
    then show ?thesis using that assms by (simp add: wfSystem_def does_return)
  qed
  show ?case unfolding waitPCI.simps by (rule does_testDir, rule does_quiet [OF look]) (rule rest)
qed (simp add: does_return)

lemma does_waitName: "does (waitName K m left) (\<lambda>_ as. naps left as)"
proof (induction left)
  case 0
  show ?case unfolding waitName.simps [of K m 0] by (rule does_testDir) (simp add: does_return)
next
  case (Suc left)
  have "does (do { exec K nap; waitName K m left }) (\<lambda>_ as. naps (Suc left) as)"
    by (rule does_exec_bind, rule does_weaken [OF Suc]) (rule naps_Cons)
  then show ?case unfolding waitName.simps [of K m "Suc left"] by (intro does_testDir) (simp add: does_return)
qed

lemma patMatch_colon: "patMatch ''*:*'' s \<longleftrightarrow> CHR '':'' \<in> set s"
  by (induction s) auto

lemma does_resolve_member:
  assumes "wfSystem K" "plainWord m"
  shows "does (resolve_member K m) (\<lambda>(name, _) as. naps 60 as \<and> memberName K m (printed name) \<and> (name \<noteq> [] \<longrightarrow> plainWord name))"
proof (cases "CHR '':'' \<in> set m")
  case True
  then show ?thesis unfolding resolve_member_def patMatch_colon if_P [OF True]
    by (intro does_weaken [OF does_waitPCI [OF assms(1)]]) (auto simp: memberName_def printed_def split: if_splits, blast)
next
  case False
  have "echoed K m = m" "m \<noteq> []" using assms by (simp_all add: wfSystem_def plainWord_def)
  with False assms show ?thesis unfolding resolve_member_def patMatch_colon if_not_P [OF False]
    by (intro does_bind [OF does_waitName] does_testDir does_return) (simp add: memberName_def printed_def)
qed

definition somes :: "'a option list \<Rightarrow> 'a list" where
  "somes rs = map the (filter (\<lambda>r. r \<noteq> None) rs)"

lemma somes_simps [simp]: "somes [] = []" "somes (None # rs) = somes rs" "somes (Some x # rs) = x # somes rs"
  by (simp_all add: somes_def)

definition resolvedTo :: "'k system \<Rightarrow> string list \<Rightarrow> string option list \<Rightarrow> bool" where
  "resolvedTo K ms rs \<longleftrightarrow> list_all2 (memberName K) ms rs \<and> list_all plainWord (somes rs)"

lemma does_resolveAll:
  assumes "wfSystem K" "list_all plainWord ms" "list_all plainWord ns"
  shows "does (resolveAll K ms (join ns '' '')) (\<lambda>r as. naps (60 * length ms) as \<and> (\<exists>rs. resolvedTo K ms rs \<and> r = join (ns @ somes rs) '' ''))"
  using assms(2,3)
proof (induction ms arbitrary: ns)
  case Nil
  then show ?case by (auto simp: resolvedTo_def intro!: does_return)
next
  case (Cons m ms)
  show ?case unfolding resolveAll.simps
  proof (rule does_bind [OF does_resolve_member [OF assms(1)]], goal_cases)
    case (2 x as)
    obtain name st where x: "x = (name, st)" by fastforce
    with 2 have m: "naps 60 as" "memberName K m (printed name)" "name \<noteq> [] \<Longrightarrow> plainWord name" by auto
    define ns' where "ns' = ns @ (if name = [] then [] else [name])"
    have ns': "list_all plainWord ns'" using Cons.prems m(3) by (simp add: ns'_def)
    have "join ns' '' '' = (if name \<noteq> [] then join ns '' '' @ (if join ns '' '' \<noteq> [] then '' '' else []) @ name else join ns '' '')"
      using Cons.prems by (simp add: ns'_def join_snoc join_empty list_all_iff plainWord_def)
    moreover have "does (resolveAll K ms (join ns' '' '')) (\<lambda>r bs. naps (60 * length (m # ms)) (as @ bs)
        \<and> (\<exists>rs. resolvedTo K (m # ms) rs \<and> r = join (ns @ somes rs) '' ''))"
    proof (rule does_weaken [OF Cons.IH [OF _ ns']], use Cons.prems in simp, elim conjE exE)
      fix r bs rs assume IH: "naps (60 * length ms) bs" "resolvedTo K ms rs" "r = join (ns' @ somes rs) '' ''"
      have "resolvedTo K (m # ms) (printed name # rs)" "ns' @ somes rs = ns @ somes (printed name # rs)"
        using IH(2) m(2,3) by (auto simp: resolvedTo_def ns'_def printed_def)
      then show "naps (60 * length (m # ms)) (as @ bs) \<and> (\<exists>rs. resolvedTo K (m # ms) rs \<and> r = join (ns @ somes rs) '' '')"
        using naps_append [OF m(1) IH(1)] IH(3) by auto
    qed
    ultimately show ?case unfolding x prod.case by simp
  qed (use Cons.prems in simp)
qed

section \<open>The plan\<close>

text \<open>
  What the hook promises to run: the bond is created unless it exists and configured while it has no member, every member is down when it joins, the
  bond and then its members come up, and the VLAN device on top of it last.
\<close>

definition vlanSteps :: "BondParams \<Rightarrow> action list \<Rightarrow> bool" where
  "vlanSteps p v \<longleftrightarrow> (if VID p = [] then v = [] else
     (let vdev = BOND p @ ''.'' @ VID p; add = addVlan (BOND p) vdev (VID p)
      in \<exists>m. m \<in> {[], [add], [add, Command [''vconfig'', ''add'', BOND p, VID p]]} \<and> v = m @ [ipSet vdev ''up'']))"

definition joinSteps :: "string \<Rightarrow> string \<Rightarrow> action list" where
  "joinSteps b name = [ipSet name ''down'', EchoTo (''+'' @ name) (bonding b ''slaves'')]"

definition bondPlan :: "BondParams \<Rightarrow> string list \<Rightarrow> action list \<Rightarrow> bool" where
  "bondPlan p names as \<longleftrightarrow> (\<exists>c v. c \<in> {[], [EchoTo (''+'' @ BOND p) ''/sys/class/net/bonding_masters'']} \<and> vlanSteps p v
     \<and> as = c @ [EchoTo (MODE p) (bonding (BOND p) ''mode''), EchoTo (RATE p) (bonding (BOND p) ''lacp_rate''),
                 EchoTo (HASH p) (bonding (BOND p) ''xmit_hash_policy'')]
          @ concat (map (joinSteps (BOND p)) names) @ ipSet (BOND p) ''up'' # map (\<lambda>x. ipSet x ''up'') names @ v)"

lemma does_makeVlan: "does (makeVlan K p) (\<lambda>_ as. vlanSteps p as)"
proof (cases "VID p = []")
  case True
  then show ?thesis by (simp add: makeVlan_def vlanSteps_def does_return)
next
  case False
  let ?v = "BOND p @ ''.'' @ VID p"
  let ?add = "addVlan (BOND p) ?v (VID p)" and ?vc = "Command [''vconfig'', ''add'', BOND p, VID p]"
  have add: "does (do { ok \<leftarrow> act K ?add; if ok then skip else exec K ?vc }) (\<lambda>_ as. as \<in> {[?add], [?add, ?vc]})"
    by (rule does_bind [OF does_act [of "\<lambda>_ as. as = [?add]"]]) (auto intro: does_return does_exec)
  then have "does (if here then skip else do { ok \<leftarrow> act K ?add; if ok then skip else exec K ?vc }) (\<lambda>_ as. as \<in> {[], [?add], [?add, ?vc]})" for here
    by (auto intro: does_return does_weaken)
  then have "does (makeVlan K p) (\<lambda>_ as. \<exists>m. m \<in> {[], [?add], [?add, ?vc]} \<and> as = m @ [ipSet ?v ''up''])"
    unfolding makeVlan_def if_not_P [OF False] Let_def
    by (intro does_testDir does_bind [of _ "\<lambda>_ as. as \<in> {[], [?add], [?add, ?vc]}"]) (auto intro!: does_exec)
  then show ?thesis unfolding vlanSteps_def if_not_P [OF False] Let_def .
qed

lemma plainWord_carrier: "plainWord b \<Longrightarrow> plainWord (netDir b @ ''/carrier'')"
  by (simp add: netDir_def plainWord_def plainChar_def blank_def)

lemma does_waitCarrier:
  assumes "wfSystem K" "plainWord b"
  shows "does (waitCarrier K b left) (\<lambda>_ as. naps left as)"
proof (induction left)
  case (Suc left)
  have words: "fieldSplit (netDir b @ ''/carrier'') = [netDir b @ ''/carrier'']"
    by (rule plainWord_fields [OF plainWord_carrier [OF assms(2)]])
  have "does (do { exec K nap; waitCarrier K b left }) (\<lambda>_ as. naps (Suc left) as)"
    by (rule does_exec_bind, rule does_weaken [OF Suc]) (rule naps_Cons)
  then have "does (if t = ''1'' then skip else do { exec K nap; waitCarrier K b left }) (\<lambda>_ as. naps (Suc left) as)" for t
    by (simp add: does_return)
  moreover have "does (expandAll K [netDir b @ ''/carrier'']) (\<lambda>r as. as = [] \<and> True)"
    using does_expandAll [OF assms(1), of "[netDir b @ ''/carrier'']"] plainWord_carrier [OF assms(2)] by (auto elim: does_weaken)
  moreover have "does (cat K ps) (\<lambda>_ as. as = [] \<and> True)" for ps
    unfolding cat_def by (rule does_observe) simp
  ultimately show ?case unfolding waitCarrier.simps words by (intro does_quiet)
qed (simp add: does_return)

lemma does_enslave: "does (forEach (enslave K b) names) (\<lambda>_ as. as = concat (map (joinSteps b) names))"
  unfolding enslave_def joinSteps_def by (rule does_forEach) (intro does_exec_bind does_exec, simp)

lemma does_linkUp: "does (forEach (\<lambda>name. exec K (ipSet name ''up'')) names) (\<lambda>_ as. as = map (\<lambda>x. ipSet x ''up'') names)"
  using does_forEach [of names "\<lambda>name. exec K (ipSet name ''up'')" "\<lambda>x. [ipSet x ''up'']"] by (simp add: does_exec concat_map_singleton)

lemma does_configure:
  assumes "wfSystem K" "plainWord (BOND p)" "list_all plainWord names"
  shows "does (configure K p (join names '' '')) (\<lambda>_ as. \<exists>plan c. bondPlan p names plan \<and> naps 30 c \<and> as = plan @ c @ [Sleep 2])"
proof -
  let ?c = "\<lambda>here. if here then [] else [EchoTo (''+'' @ BOND p) ''/sys/class/net/bonding_masters'']"
  have words: "does (expandAll K names) (\<lambda>r as. as = [] \<and> r = names)"
    using does_expandAll [OF assms(1,3)] by (simp add: conj_commute)
  have create: "does (if here then skip else exec K (EchoTo (''+'' @ BOND p) ''/sys/class/net/bonding_masters'')) (\<lambda>_ as. as = ?c here)" for here
    by (simp add: does_return does_exec)
  have plan: "bondPlan p names (?c here @ EchoTo (MODE p) (bonding (BOND p) ''mode'') # EchoTo (RATE p) (bonding (BOND p) ''lacp_rate'')
      # EchoTo (HASH p) (bonding (BOND p) ''xmit_hash_policy'') # concat (map (joinSteps (BOND p)) names)
      @ ipSet (BOND p) ''up'' # map (\<lambda>x. ipSet x ''up'') names @ v)" if "vlanSteps p v" for here v
    unfolding bondPlan_def using that by (intro exI [of _ "?c here"] exI [of _ v]) simp
  show ?thesis unfolding configure_def fieldSplit_join [OF assms(3)]
    apply (rule does_testDir, rule does_bind [OF create])
    apply (intro does_exec_bind)
    apply (rule does_quiet [OF words])
    apply (simp only:)
    apply (rule does_bind [OF does_enslave], rule does_exec_bind)
    apply (rule does_quiet [OF words])
    apply (simp only:)
    apply (rule does_bind [OF does_linkUp], rule does_bind [OF does_makeVlan], rule does_bind [OF does_waitCarrier [OF assms(1,2)]], rule does_exec)
    using plan by fastforce
qed

text \<open>The contract of the hook: everything it runs for the members \<open>ms\<close>.\<close>

definition formed :: "'k system \<Rightarrow> BondParams \<Rightarrow> string list \<Rightarrow> action list \<Rightarrow> bool" where
  "formed K p ms as \<longleftrightarrow> (\<exists>rs w rest. resolvedTo K ms rs \<and> naps (60 * length ms) w
     \<and> as = [Command [''modprobe'', ''bonding''], Command [''modprobe'', ''8021q'']] @ w @ rest
     \<and> (if somes rs = [] then rest = []
        else (\<exists>plan c. bondPlan p (somes rs) plan \<and> naps 30 c \<and> rest = plan @ c @ [Sleep 2])))"

lemma formedI:
  assumes "resolvedTo K ms rs" "naps (60 * length ms) w"
    and "if somes rs = [] then rest = [] else \<exists>plan c. bondPlan p (somes rs) plan \<and> naps 30 c \<and> rest = plan @ c @ [Sleep 2]"
  shows "formed K p ms ([Command [''modprobe'', ''bonding''], Command [''modprobe'', ''8021q'']] @ w @ rest)"
  unfolding formed_def using assms by (intro exI [of _ rs] exI [of _ w] exI [of _ rest]) simp

lemma does_setupBond:
  assumes "wfSystem K" "plainWord (BOND p)" "list_all plainWord ms" "commaFields (MEMBERS p) = ms"
  shows "does (setupBond K p) (\<lambda>_ as. formed K p ms as)"
proof -
  let ?mods = "[Command [''modprobe'', ''bonding''], Command [''modprobe'', ''8021q'']]"
  have words: "does (expandAll K ms) (\<lambda>r as. as = [] \<and> r = ms)"
    using does_expandAll [OF assms(1,3)] by (simp add: conj_commute)
  have resolve: "does (resolveAll K ms []) (\<lambda>r as. naps (60 * length ms) as \<and> (\<exists>rs. resolvedTo K ms rs \<and> r = join (somes rs) '' ''))"
    using does_resolveAll [OF assms(1,3), of "[]"] by simp
  have rest: "does (if r = [] then skip else configure K p r) (\<lambda>_ as. formed K p ms (?mods @ w @ as))"
    if w: "naps (60 * length ms) w" and rs: "resolvedTo K ms rs" "r = join (somes rs) '' ''" for r w rs
  proof -
    have plain: "list_all plainWord (somes rs)" using rs(1) by (simp add: resolvedTo_def)
    then have none: "r = [] \<longleftrightarrow> somes rs = []" using rs(2) by (simp add: join_empty list_all_iff plainWord_def)
    show ?thesis
    proof (cases "r = []")
      case True
      then show ?thesis using formedI [OF rs(1) w, of "[]" p] none by (simp add: does_return)
    next
      case False
      show ?thesis unfolding if_not_P [OF False] unfolding rs(2)
        by (rule does_weaken [OF does_configure [OF assms(1,2) plain]], rule formedI [OF rs(1) w]) (use False none in simp)
    qed
  qed
  show ?thesis unfolding setupBond_def assms(4)
  proof (intro does_exec_bind, rule does_quiet [OF words], simp only:, rule does_bind [OF resolve], elim conjE exE)
    fix r w rs assume "naps (60 * length ms) w" "resolvedTo K ms rs" "r = join (somes rs) '' ''"
    from rest [OF this] show "does (if r = [] then skip else configure K p r)
        (\<lambda>_ bs. formed K p ms (Command [''modprobe'', ''bonding''] # Command [''modprobe'', ''8021q''] # w @ bs))"
      by simp
  qed
qed

section \<open>The kernel arguments\<close>

text \<open>The parameters that a bonded node stands for, and the words of its kernel arguments.\<close>

definition bondOf :: "Node \<Rightarrow> string" where
  "bondOf n = (if BondName n = [] then ''bond0'' else BondName n)"

definition nodeParams :: "Node \<Rightarrow> BondParams" where
  "nodeParams n = \<lparr>BOND = bondOf n, MEMBERS = join (BondMembers n) '','', MODE = def (BondMode n) ''802.3ad'',
     RATE = def (LACPRate n) ''fast'', HASH = def (HashPolicy n) ''layer3+4'', VID = VLAN n\<rparr>"

definition kernelWords :: "Node \<Rightarrow> string list" where
  "kernelWords n = [ipArg n (netDevice n), ''gen_bond='' @ bondOf n, ''gen_members='' @ join (BondMembers n) '','',
     ''gen_mode='' @ def (BondMode n) ''802.3ad'', ''gen_rate='' @ def (LACPRate n) ''fast'', ''gen_hash='' @ def (HashPolicy n) ''layer3+4'']
     @ (if VLAN n = [] then [] else [''gen_vlan='' @ VLAN n]) @ [''network-config=disabled'']"

definition plainNode :: "Node \<Rightarrow> bool" where
  "plainNode n \<longleftrightarrow> list_all (list_all plainChar) [IP n, GW n, Netmask n, Hostname n, DNS n, DNS2 n, VLAN n, BondMode n, LACPRate n, HashPolicy n]
     \<and> plainWord (bondOf n) \<and> list_all (\<lambda>m. plainWord m \<and> CHR '','' \<notin> set m) (BondMembers n)"

lemma kernel_words: "bonded n \<Longrightarrow> KernelNet n = [] \<Longrightarrow> buildKernelNet n = join (kernelWords n) '' ''"
  by (simp add: buildKernelNet_def kernelWords_def netDevice_def bondOf_def Let_def)

lemma plainChar_join: "list_all (list_all plainChar) ms \<Longrightarrow> list_all plainChar (join ms '','')"
  by (induction ms "'',''" rule: join.induct) (auto simp: plainChar_def blank_def)

lemma kernelWords_plain:
  assumes "plainNode n" "bonded n"
  shows "list_all plainWord (kernelWords n)"
proof -
  have lits: "list_all plainChar (def v d)" if "list_all plainChar v" "list_all plainChar d" for v d using that by (simp add: def_def)
  have ms: "list_all plainChar (join (BondMembers n) '','')"
    using assms(1) by (intro plainChar_join) (auto simp: plainNode_def plainWord_def list_all_iff)
  have chars: "plainChar c" if "c \<in> set ''ip=:.none,gen_bond=gen_members=gen_mode=gen_rate=gen_hash=gen_vlan=802.3adfastlayer3+4network-config=disabled''" for c
    using that by (auto simp: plainChar_def blank_def)
  have bond: "list_all plainChar (bondOf n)" using assms(1) by (simp add: plainNode_def plainWord_def)
  then have dev: "list_all plainChar (netDevice n)"
    using assms chars by (auto simp: netDevice_def bondOf_def plainNode_def Let_def)
  show ?thesis
    using assms(1) ms bond dev chars lits
    by (auto simp: kernelWords_def ipArg_def dnsPart_def plainNode_def plainWord_def def_def)
qed

text \<open>Words of other kernel arguments.\<close>

definition foreign :: "string \<Rightarrow> bool" where
  "foreign w \<longleftrightarrow> plainWord w \<and> \<not> hasPrefix w ''gen_''"

lemma assignParam_foreign: "foreign w \<Longrightarrow> assignParam w p = p"
  using patMatch_literal [of "''gen_''" _ w] by (auto simp: foreign_def assignParam_def)

lemma fold_foreign: "list_all foreign ws \<Longrightarrow> fold assignParam ws p = p"
  by (induction ws) (simp_all add: assignParam_foreign)

lemma params_words: "fold assignParam (kernelWords n) noParams = nodeParams n"
  by (simp add: kernelWords_def nodeParams_def noParams_def ipArg_def assignParam_def stripPrefix_def hasPrefix_def)

lemma params_round_trip:
  assumes "bonded n" "KernelNet n = []" "plainNode n" "list_all foreign (fieldSplit pre @ fieldSplit post)"
  shows "list_all plainWord (fieldSplit (pre @ '' '' @ buildKernelNet n @ '' '' @ post))"
    "fold assignParam (fieldSplit (pre @ '' '' @ buildKernelNet n @ '' '' @ post)) noParams = nodeParams n"
proof -
  have words: "fieldSplit (pre @ '' '' @ buildKernelNet n @ '' '' @ post) = fieldSplit pre @ kernelWords n @ fieldSplit post"
    using fieldSplit_append [of "CHR '' ''" pre] fieldSplit_append [of "CHR '' ''" "buildKernelNet n"]
      fieldSplit_join [OF kernelWords_plain [OF assms(3,1)]] kernel_words [OF assms(1,2)] by (simp add: blank_def)
  show "fold assignParam (fieldSplit (pre @ '' '' @ buildKernelNet n @ '' '' @ post)) noParams = nodeParams n"
    using assms(4) unfolding words by (simp add: fold_foreign params_words)
  show "list_all plainWord (fieldSplit (pre @ '' '' @ buildKernelNet n @ '' '' @ post))"
    using assms(4) kernelWords_plain [OF assms(3,1)] unfolding words by (auto simp: foreign_def list_all_iff)
qed

text \<open>The time that the hook sleeps.\<close>

fun seconds :: "action list \<Rightarrow> nat" where
  "seconds [] = 0"
| "seconds (Sleep t # as) = t + seconds as"
| "seconds (_ # as) = seconds as"

lemma seconds_append [simp]: "seconds (as @ bs) = seconds as + seconds bs"
  by (induction as rule: seconds.induct) simp_all

lemma seconds_naps: "naps n as \<Longrightarrow> seconds as \<le> n"
proof -
  have "seconds (replicate a nap) = a" for a by (induction a) (simp_all add: nap_def)
  then show "naps n as \<Longrightarrow> seconds as \<le> n" by (auto simp: naps_def)
qed

lemma seconds_plan: "bondPlan p names as \<Longrightarrow> seconds as = 0"
proof -
  have "seconds (concat (map (joinSteps b) names)) = 0" "seconds (map (\<lambda>x. ipSet x st) names) = 0" for b st
    by (induction names) (simp_all add: joinSteps_def ipSet_def)
  then show "bondPlan p names as \<Longrightarrow> seconds as = 0"
    by (auto simp: bondPlan_def vlanSteps_def ipSet_def addVlan_def Let_def split: if_splits)
qed

lemma formed_seconds: "formed K p ms as \<Longrightarrow> seconds as \<le> 60 * length ms + 32"
  by (force simp: formed_def seconds_plan split: if_splits dest: seconds_naps)

lemma plan_device: "bonded n \<Longrightarrow> bondPlan (nodeParams n) names as \<Longrightarrow> ipSet (netDevice n) ''up'' \<in> set as"
  by (auto simp: bondPlan_def vlanSteps_def nodeParams_def netDevice_def bondOf_def Let_def split: if_splits)

lemma bond_run:
  assumes "fst (readFiles K [''/proc/cmdline''] k) = cmdline" "wfSystem K" "list_all plainWord (fieldSplit cmdline)"
    and "fold assignParam (fieldSplit cmdline) noParams = p"
    and "does (if BOND p = [] \<or> MEMBERS p = [] then skip else setupBond K (withDefaults p)) (\<lambda>_ as. Q as)"
  shows "Q (trace (snd (run_state (bond K []) \<lparr>world = k, trace = []\<rparr>)))"
proof -
  let ?rest = "\<lambda>cmdline. do { ws \<leftarrow> expandAll K (fieldSplit cmdline); let p = fold assignParam ws noParams in
      if BOND p = [] \<or> MEMBERS p = [] then skip else setupBond K (withDefaults p) }"
  have "does (?rest cmdline) (\<lambda>_ as. Q as)"
  proof (rule does_quiet)
    show "does (expandAll K (fieldSplit cmdline)) (\<lambda>r as. as = [] \<and> r = fieldSplit cmdline)"
      using does_expandAll [OF assms(2,3)] by (simp add: conj_commute)
  qed (use assms(4,5) in simp)
  then have rest: "Q (trace (snd (run_state (?rest cmdline) \<lparr>world = k', trace = []\<rparr>)))" for k'
    unfolding does_def by (auto dest: spec [of _ "\<lparr>world = k', trace = []\<rparr>"])
  obtain k' where "readFiles K [''/proc/cmdline''] k = (cmdline, k')" using assms(1) by (metis prod.collapse)
  then have "run_state (bond K []) \<lparr>world = k, trace = []\<rparr> = run_state (?rest cmdline) \<lparr>world = k', trace = []\<rparr>"
    by (simp add: bond_def cat_def observe_def)
  then show ?thesis using rest [of k'] by simp
qed

text \<open>Without parameters of its own on the command line, the hook leaves the machine alone.\<close>

lemma bond_idle:
  assumes "wfSystem K" "list_all foreign (fieldSplit (fst (readFiles K [''/proc/cmdline''] k)))"
  shows "trace (snd (run_state (bond K []) \<lparr>world = k, trace = []\<rparr>)) = []"
proof (rule bond_run [OF refl assms(1)])
  show "fold assignParam (fieldSplit (fst (readFiles K [''/proc/cmdline''] k))) noParams = noParams" using assms(2) by (rule fold_foreign)
qed (use assms(2) in \<open>auto simp: foreign_def list_all_iff noParams_def intro: does_return\<close>)

text \<open>An interface that never appears.\<close>

lemma does_testDir_missing: "\<forall>k. fst (isDir K p k) = False \<Longrightarrow> does (testDir K p) (\<lambda>here as. as = [] \<and> \<not> here)"
  unfolding testDir_def by (intro does_observe) simp

lemma does_waitName_missing:
  assumes "\<forall>k. fst (isDir K (netDir m) k) = False"
  shows "does (waitName K m left) (\<lambda>_ as. as = replicate left nap)"
proof (induction left)
  case 0
  show ?case unfolding waitName.simps [of K m 0] by (rule does_quiet [OF does_testDir_missing [OF assms]]) (simp add: does_return)
next
  case (Suc left)
  have "does (do { exec K nap; waitName K m left }) (\<lambda>_ as. as = replicate (Suc left) nap)"
    by (rule does_exec_bind) (simp add: Suc)
  then show ?case unfolding waitName.simps [of K m "Suc left"] by (intro does_quiet [OF does_testDir_missing [OF assms]]) simp
qed

lemma formed_single:
  assumes "formed K p [m] as" "CHR '':'' \<notin> set m"
  shows "EchoTo (''+'' @ m) (bonding (BOND p) ''slaves'') \<in> set as"
proof -
  obtain rs w rest where "resolvedTo K [m] rs" and as: "as = [Command [''modprobe'', ''bonding''], Command [''modprobe'', ''8021q'']] @ w @ rest"
    and plan: "if somes rs = [] then rest = [] else \<exists>plan c. bondPlan p (somes rs) plan \<and> naps 30 c \<and> rest = plan @ c @ [Sleep 2]"
    using assms(1) unfolding formed_def by blast
  then have "rs = [Some m]" using assms(2) by (auto simp: resolvedTo_def memberName_def list_all2_Cons1)
  then obtain plan c where "bondPlan p [m] plan" and rest: "rest = plan @ c @ [Sleep 2]" using plan by auto
  then have "EchoTo (''+'' @ m) (bonding (BOND p) ''slaves'') \<in> set plan" by (auto simp: bondPlan_def joinSteps_def)
  then show ?thesis unfolding as rest by simp
qed

text \<open>\<open>ORDER\<close> runs the bond hook before every other hook, each at most once and with the arguments it was given.\<close>

definition hooksRun :: "action list \<Rightarrow> string list" where
  "hooksRun as = concat (map (\<lambda>a. case a of Command (h # args) \<Rightarrow> [h] | _ \<Rightarrow> []) as)"

lemma hooksRun_append [simp]: "hooksRun (as @ bs) = hooksRun as @ hooksRun bs"
  by (simp add: hooksRun_def)

lemma does_sourceParams: "does (sourceParams K) (\<lambda>_ as. as \<in> {[], [Source ''/conf/param.conf'']})"
  unfolding sourceParams_def by (rule does_quiet [OF does_observe, of "\<lambda>_. True"]) (auto intro: does_exec does_return)

lemma does_runHook:
  assumes "\<forall>k. fst (executable K h k) = x"
  shows "does (runHook K args h) (\<lambda>_ as. hooksRun as = (if x then [h] else []) \<and> (x \<longrightarrow> Command (h # args) = hd as))"
proof -
  have "does (observe (executable K h)) (\<lambda>y as. as = [] \<and> y = x)" using assms by (intro does_observe) simp
  moreover have "does (do { exec K (Command (h # args)); sourceParams K }) (\<lambda>_ as. hooksRun as = [h] \<and> Command (h # args) = hd as)"
    by (rule does_exec_bind, rule does_weaken [OF does_sourceParams]) (auto simp: hooksRun_def)
  ultimately show ?thesis unfolding runHook_def
    by (intro does_quiet [of _ "\<lambda>y. y = x"]) (auto simp: hooksRun_def intro: does_return)
qed

lemma does_hooks:
  assumes "\<forall>h k. fst (executable K h k) = x h"
  shows "does (forEach (\<lambda>h. if P h then skip else runHook K args h) hs) (\<lambda>_ as. hooksRun as = filter (\<lambda>h. \<not> P h \<and> x h) hs)"
proof (induction hs)
  case (Cons h hs)
  have "does (if P h then skip else runHook K args h) (\<lambda>_ as. hooksRun as = (if \<not> P h \<and> x h then [h] else []))"
    using does_weaken [OF does_runHook [of K h "x h" args]] assms by (auto simp: hooksRun_def intro: does_return)
  then show ?case unfolding forEach.simps by (rule does_bind) (auto intro: does_weaken [OF Cons])
qed (simp add: does_return hooksRun_def)

lemma ORDER_runs:
  assumes "\<forall>h k. fst (executable K h k) = x h" "\<forall>k. fst (pathnames K (hookDir @ ''*'') k) = entries" "x (hookDir @ ''bond'')"
  shows "does (ORDER K args) (\<lambda>_ as. hooksRun as =
    (hookDir @ ''bond'') # filter (\<lambda>h. \<not> (patMatch ''*/ORDER'' h \<or> patMatch ''*/bond'' h) \<and> x h) entries)"
proof -
  have "does (runHook K args (hookDir @ ''bond'')) (\<lambda>_ as. hooksRun as = [hookDir @ ''bond''])"
    using does_weaken [OF does_runHook [of K "hookDir @ ''bond''" True args]] assms(1,3) by auto
  moreover have "does (observe (pathnames K (hookDir @ ''*''))) (\<lambda>r as. as = [] \<and> r = entries)" using assms(2) by (intro does_observe) simp
  ultimately show ?thesis unfolding ORDER_def
    by (intro does_bind [of _ "\<lambda>_ as. hooksRun as = [hookDir @ ''bond'']"] does_quiet [of _ "\<lambda>r. r = entries"])
      (auto intro: does_weaken [OF does_hooks [OF assms(1)]])
qed

section \<open>Properties\<close>


text \<open>A machine without network devices, whose clock stands still.\<close>

definition sampleSystem :: "string \<Rightarrow> unit system" where
  "sampleSystem cmdline = \<lparr>isDir = \<lambda>_ k. (False, k), executable = \<lambda>_ k. (True, k), exists = \<lambda>_ k. (False, k), listDir = \<lambda>_ k. ([], k), readFiles = \<lambda>_ k. (cmdline, k),
     pathnames = \<lambda>w k. ([w], k), perform = \<lambda>_ k. (True, k), echoed = \<lambda>w. w\<rparr>"

definition sampleBond :: Node where
  "sampleBond = zeroNode\<lparr>IP := ''192.0.2.10'', BondMembers := [''0000:3b:00.0'', ''ens2f1''], VLAN := ''7''\<rparr>"

lemma sampleSystem_wf: "wfSystem (sampleSystem cmdline)"
  by (simp add: wfSystem_def sampleSystem_def)


text \<open>
  C39. The status of \<open>resolve_member\<close> is lost: an interface that never appears is waited for in vain, reported as missing, and still
  joined to the bond, because the function prints its name all the same and the loop over the members looks at nothing else.
  So the branch that skips a member, and the one that gives up without members, are out of reach for interface names.
\<close>

theorem missing_interface_joined:
  assumes "wfSystem K" "plainWord m" "CHR '':'' \<notin> set m" "CHR '','' \<notin> set m" "\<forall>k. fst (isDir K (netDir m) k) = False" "plainWord (BOND p)"
  shows "does (resolve_member K m) (\<lambda>(name, found) as. name = m \<and> \<not> found \<and> as = replicate 60 nap)
    \<and> does (setupBond K (p\<lparr>MEMBERS := m\<rparr>)) (\<lambda>_ as. EchoTo (''+'' @ m) (bonding (BOND p) ''slaves'') \<in> set as)"
proof
  show "does (resolve_member K m) (\<lambda>(name, found) as. name = m \<and> \<not> found \<and> as = replicate 60 nap)"
    unfolding resolve_member_def patMatch_colon if_not_P [OF assms(3)]
    by (rule does_bind [OF does_waitName_missing [OF assms(5)]], rule does_quiet [OF does_testDir_missing [OF assms(5)]])
      (use assms(1,2) in \<open>simp add: does_return wfSystem_def\<close>)
  have "commaFields (MEMBERS (p\<lparr>MEMBERS := m\<rparr>)) = [m]" "list_all plainWord [m]"
    using commaFields_join [of "[m]"] assms(2,4) by (simp_all add: plainWord_def)
  then show "does (setupBond K (p\<lparr>MEMBERS := m\<rparr>)) (\<lambda>_ as. EchoTo (''+'' @ m) (bonding (BOND p) ''slaves'') \<in> set as)"
    using assms(1,6) formed_single [of K "p\<lparr>MEMBERS := m\<rparr>" m] assms(3) by (intro does_weaken [OF does_setupBond]) auto
qed

theorem missing_interface_joined_witness:
  "does (resolve_member (sampleSystem []) ''ens2f1'') (\<lambda>(name, found) as. name = ''ens2f1'' \<and> \<not> found \<and> as = replicate 60 nap)"
  using missing_interface_joined [OF sampleSystem_wf, of "''ens2f1''" "[]" "nodeParams zeroNode"]
  by (simp add: plainWord_def plainChar_def blank_def sampleSystem_def nodeParams_def zeroNode_def bondOf_def)

end
