(* ===== verification/Image_Tags.thy ===== *)
theory Image_Tags
  imports Go_Maps
begin

text \<open>
  The generator of image tags, \<^verbatim>\<open>tools/image_tags.py\<close>: it reads which tags to make from a JSON document and their values from the
  environment, prints one tag a line, and ends with status 1 if a requested value is not there and 2 for every other exception. Values of the
  document are Python objects; \<open>json.load\<close> and the printing of an object are parameters.
\<close>

section \<open>Python objects\<close>

datatype pyval =
    PyNone
  | PyBool bool
  | PyInt int
  | PyFloat bool string
  | PyStr string
  | PyList "pyval list"
  | PyDict "(string \<times> pyval) list"

datatype pyexc = TagGenExeception string string | AttributeError

text \<open>A float is given by whether it is zero and how it prints.\<close>

fun truthy :: "pyval \<Rightarrow> bool" where
  "truthy PyNone = False"
| "truthy (PyBool b) = b"
| "truthy (PyInt i) = (i \<noteq> 0)"
| "truthy (PyFloat zero s) = (\<not> zero)"
| "truthy (PyStr s) = (s \<noteq> [])"
| "truthy (PyList vs) = (vs \<noteq> [])"
| "truthy (PyDict es) = (es \<noteq> [])"

definition dictGet :: "pyval \<Rightarrow> string \<Rightarrow> pyval \<Rightarrow> pyexc + pyval" where
  "dictGet v k d = (case v of
     PyDict es \<Rightarrow> Inr (case map_of es k of Some x \<Rightarrow> x | None \<Rightarrow> d)
   | _ \<Rightarrow> Inl AttributeError)"

fun bindPy :: "'e + 'a \<Rightarrow> ('a \<Rightarrow> 'e + 'b) \<Rightarrow> 'e + 'b" where
  "bindPy (Inl e) f = Inl e"
| "bindPy (Inr x) f = f x"

section \<open>The generator\<close>

record TagConfig =
  cfgTags :: pyval
  cfgContext :: "(string \<times> string option) list"

definition read_config :: "pyval option \<Rightarrow> (string \<Rightarrow> string option) \<Rightarrow> TagConfig" where
  "read_config loaded environ = \<lparr>cfgTags = (case loaded of Some v \<Rightarrow> v | None \<Rightarrow> PyDict []),
     cfgContext = [(''branch'', environ ''BRANCH''), (''change'', environ ''CHANGE''), (''commit'', environ ''COMMIT''), (''ps'', environ ''PATCHSET'')]\<rparr>"

definition contextGet :: "TagConfig \<Rightarrow> string \<Rightarrow> string" where
  "contextGet config name = (case map_of (cfgContext config) name of Some (Some v) \<Rightarrow> v | _ \<Rightarrow> [])"

definition valid_dg :: "TagConfig \<Rightarrow> string \<Rightarrow> string \<Rightarrow> pyexc + bool" where
  "valid_dg config dynamic_tag context_name =
     bindPy (dictGet (cfgTags config) ''dynamic'' (PyDict [])) (\<lambda>dynamic.
     bindPy (dictGet dynamic dynamic_tag PyNone) (\<lambda>wanted.
       if truthy wanted then
         if contextGet config context_name \<noteq> [] then Inr True else Inl (TagGenExeception dynamic_tag context_name)
       else Inr False))"

definition build_branch_tag :: "TagConfig \<Rightarrow> pyexc + string list" where
  "build_branch_tag config = bindPy (valid_dg config ''branch'' ''branch'') (\<lambda>ok. Inr (if ok then [contextGet config ''branch''] else []))"

definition build_commit_tag :: "TagConfig \<Rightarrow> pyexc + string list" where
  "build_commit_tag config = bindPy (valid_dg config ''commit'' ''commit'') (\<lambda>ok. Inr (if ok then [contextGet config ''commit''] else []))"

definition build_ps_tag :: "TagConfig \<Rightarrow> pyexc + string list" where
  "build_ps_tag config =
     bindPy (valid_dg config ''patch_set'' ''change'') (\<lambda>ok.
     bindPy (if ok then valid_dg config ''patch_set'' ''ps'' else Inr False) (\<lambda>ok.
       Inr (if ok then [contextGet config ''change'' @ ''-'' @ contextGet config ''ps''] else [])))"

definition build_dynamic_tags :: "TagConfig \<Rightarrow> pyexc + string list" where
  "build_dynamic_tags config =
     bindPy (build_branch_tag config) (\<lambda>b. bindPy (build_commit_tag config) (\<lambda>c. bindPy (build_ps_tag config) (\<lambda>p. Inr (b @ c @ p))))"

text \<open>Only lists have the method \<open>extend\<close>, which is looked up before the dynamic tags are built.\<close>

definition build_tags :: "TagConfig \<Rightarrow> pyexc + pyval list" where
  "build_tags config =
     bindPy (dictGet (cfgTags config) ''static'' (PyList [])) (\<lambda>tags.
       case tags of
         PyList vs \<Rightarrow> bindPy (build_dynamic_tags config) (\<lambda>dyn. Inr (vs @ map PyStr dyn))
       | _ \<Rightarrow> Inl AttributeError)"

fun pyStr :: "(pyval \<Rightarrow> string) \<Rightarrow> pyval \<Rightarrow> string" where
  "pyStr repr (PyStr s) = s"
| "pyStr repr v = repr v"

text \<open>The lines printed and the exit status.\<close>

definition tagsMain :: "(pyval \<Rightarrow> string) \<Rightarrow> (string \<Rightarrow> pyval option) \<Rightarrow> string \<Rightarrow> (string \<Rightarrow> string option) \<Rightarrow> string list \<times> nat" where
  "tagsMain repr load stdin environ = (case build_tags (read_config (load stdin) environ) of
     Inr tags \<Rightarrow> (map (pyStr repr) tags, 0)
   | Inl (TagGenExeception t c) \<Rightarrow> ([], 1)
   | Inl AttributeError \<Rightarrow> ([], 2))"

section \<open>The contract\<close>

definition setting :: "(string \<Rightarrow> string option) \<Rightarrow> string \<Rightarrow> string" where
  "setting environ k = (case environ k of Some v \<Rightarrow> v | None \<Rightarrow> [])"

definition wants :: "(string \<times> pyval) list \<Rightarrow> string \<Rightarrow> bool" where
  "wants ds t = (case map_of ds t of Some v \<Rightarrow> truthy v | None \<Rightarrow> False)"

text \<open>What a document asks for: the static tags and the wanted dynamic ones, if it has the right shape.\<close>

definition asksFor :: "pyval option \<Rightarrow> (pyval list \<times> (string \<Rightarrow> bool)) option" where
  "asksFor loaded = (case loaded of
     None \<Rightarrow> Some ([], wants [])
   | Some (PyDict es) \<Rightarrow>
       (case (case map_of es ''static'' of None \<Rightarrow> PyList [] | Some v \<Rightarrow> v, case map_of es ''dynamic'' of None \<Rightarrow> PyDict [] | Some v \<Rightarrow> v) of
          (PyList vs, PyDict ds) \<Rightarrow> Some (vs, wants ds)
        | _ \<Rightarrow> None)
   | _ \<Rightarrow> None)"

definition wantedValues :: "(string \<Rightarrow> string option) \<Rightarrow> (string \<Rightarrow> bool) \<Rightarrow> string list" where
  "wantedValues environ want = concat (map (\<lambda>(t, ks). if want t then map (setting environ) ks else [])
     [(''branch'', [''BRANCH'']), (''commit'', [''COMMIT'']), (''patch_set'', [''CHANGE'', ''PATCHSET''])])"

definition dynamicTags :: "(string \<Rightarrow> string option) \<Rightarrow> (string \<Rightarrow> bool) \<Rightarrow> string list" where
  "dynamicTags environ want =
     (if want ''branch'' then [setting environ ''BRANCH''] else []) @ (if want ''commit'' then [setting environ ''COMMIT''] else [])
     @ (if want ''patch_set'' then [setting environ ''CHANGE'' @ ''-'' @ setting environ ''PATCHSET''] else [])"

lemma contextGet_read [simp]:
  "contextGet (read_config v environ) ''branch'' = setting environ ''BRANCH''" "contextGet (read_config v environ) ''commit'' = setting environ ''COMMIT''"
  "contextGet (read_config v environ) ''change'' = setting environ ''CHANGE''" "contextGet (read_config v environ) ''ps'' = setting environ ''PATCHSET''"
  by (simp_all add: contextGet_def read_config_def setting_def split: option.splits)

lemma valid_dg_wants:
  "dictGet (cfgTags config) ''dynamic'' (PyDict []) = Inr (PyDict ds) \<Longrightarrow> valid_dg config t c =
    (if wants ds t then if contextGet config c \<noteq> [] then Inr True else Inl (TagGenExeception t c) else Inr False)"
  by (simp add: valid_dg_def wants_def dictGet_def split: option.splits)

lemma dynamic_tags_outcome:
  assumes "dictGet (cfgTags (read_config v environ)) ''dynamic'' (PyDict []) = Inr (PyDict ds)"
  shows "if [] \<in> set (wantedValues environ (wants ds)) then \<exists>t c. build_dynamic_tags (read_config v environ) = Inl (TagGenExeception t c)
    else build_dynamic_tags (read_config v environ) = Inr (dynamicTags environ (wants ds))"
  by (simp add: build_dynamic_tags_def build_branch_tag_def build_commit_tag_def build_ps_tag_def valid_dg_wants [OF assms]
      wantedValues_def dynamicTags_def)

lemma valid_dg_malformed:
  "\<nexists>ds. dictGet (cfgTags config) ''dynamic'' (PyDict []) = Inr (PyDict ds) \<Longrightarrow> build_dynamic_tags config = Inl AttributeError"
  by (cases "dictGet (cfgTags config) ''dynamic'' (PyDict [])")
    (auto simp: build_dynamic_tags_def build_branch_tag_def valid_dg_def dictGet_def split: pyval.splits)

lemma pyStr_map [simp]: "map (pyStr repr \<circ> PyStr) ss = ss"
  by (simp add: comp_def)

text \<open>
  C40. The generator prints all tags or none: a document without tags prints nothing; one of the wrong shape ends with status 2; a wanted tag without a value in
  the environment ends with status 1 and nothing printed; otherwise the static tags are printed and then the wanted ones, in a fixed order.
\<close>

theorem image_tags_outcome:
  "tagsMain repr load stdin environ = (case asksFor (load stdin) of
     None \<Rightarrow> ([], 2)
   | Some (static, want) \<Rightarrow>
       if [] \<in> set (wantedValues environ want) then ([], 1)
       else (map (pyStr repr) static @ dynamicTags environ want, 0))"
proof -
  let ?config = "read_config (load stdin) environ"
  have tags: "cfgTags ?config = (case load stdin of Some v \<Rightarrow> v | None \<Rightarrow> PyDict [])" by (simp add: read_config_def)
  show ?thesis
  proof (cases "asksFor (load stdin)")
    case None
    then have "build_tags ?config = Inl AttributeError"
      using valid_dg_malformed [of ?config]
      by (auto simp: asksFor_def build_tags_def tags dictGet_def split: option.splits pyval.splits prod.splits)
    then show ?thesis using None by (simp add: tagsMain_def)
  next
    case (Some want)
    obtain static ds where want: "want = (static, wants ds)" "dictGet (cfgTags ?config) ''static'' (PyList []) = Inr (PyList static)"
      "dictGet (cfgTags ?config) ''dynamic'' (PyDict []) = Inr (PyDict ds)"
      using Some by (auto simp: asksFor_def tags dictGet_def split: option.splits pyval.splits prod.splits)
    then show ?thesis
      using Some dynamic_tags_outcome [OF want(3)] by (auto simp: tagsMain_def build_tags_def split: if_splits)
  qed
qed

end
