(* ===== verification/Spec2Isabelle.thy ===== *)
theory Spec2Isabelle
  imports Boot_Threads Api_Schema Bond_Hook Image_Tags
begin

text \<open>
  \<^bold>\<open>A verification of airshipit/maas: the boot proxy, its initramfs hook and the machine API.\<close>

  \<^bold>\<open>The program.\<close> The repository deploys Canonical MAAS on Kubernetes. Its code has two large parts and two small ones. The boot proxy
  (\<^verbatim>\<open>src/images/maas-boot-proxy\<close>) is an HTTP server between machines that boot over a BMC's virtual media and a MAAS rack controller. It
  composes bootable ISO images in memory, serves an initramfs overlay, and proxies everything else to the rack, rewriting addresses and
  boot scripts on the way. What it knows about the machines is read from two files that are reloaded while it runs. The overlay carries a shell hook
  that forms the network bond in the booted machine from the kernel arguments the proxy wrote. The API package
  (\<^verbatim>\<open>src/api/v1alpha1\<close>) declares the custom resource \<open>MAASMachine\<close>, with generated deep copies and a generated CRD in
  \<^verbatim>\<open>src/charts/maas/crds\<close>. A Python tool (\<^verbatim>\<open>src/tools/image_tags.py\<close>) makes the tags of the images.

  \<^bold>\<open>The language.\<close> Go's panics, errors and results are the values of \<open>outcome\<close>; a function that may not return gives \<open>None\<close>. Byte
  slices are lists of 8-bit words and writes to them statements that panic out of range; integers have their width where it matters. Strings are lists of
  characters, one for each byte; changes of case and white space cover ASCII only. Maps are association lists whose order is the unspecified order of
  \<open>range\<close>. The clock, the files and the network are arguments of the operations that meet them.

  \<^item> \<^theory_text>\<open>Go_Prelude\<close>, \<^theory_text>\<open>Go_Maps\<close>, \<^theory_text>\<open>Go_Strings\<close>: outcomes, buffers, maps, and the functions of \<open>strings\<close>, \<open>strconv\<close> and \<open>net\<close> in
    use. The locale \<open>keyed_store\<close> is the contract of a store with normalised keys; the node store and the ISO cache are its instances.
  \<^item> \<^theory_text>\<open>Go_Crypto\<close>, \<^theory_text>\<open>Go_Base64\<close>, \<^theory_text>\<open>Go_Regexp\<close>, \<^theory_text>\<open>Go_Http\<close>: SHA-256 and MD5, base64, the regular expressions in use with Go's leftmost-first
    matching and template replacement, and headers and query strings.
  \<^item> \<^theory_text>\<open>Go_Heap\<close>: an explicit heap with pointers, slices and maps. The locale \<open>deep_copier\<close> is the contract of a deep copy, closed under
    pointers, slices, maps and structs.

  \<^bold>\<open>The boot proxy.\<close>

  \<^item> \<^theory_text>\<open>Fat_Image\<close> (\<^verbatim>\<open>isoimage.go\<close>, from \<open>shortName\<close> to \<open>buildESPImage\<close>): the FAT12 volume, every index a possible panic. The reader of the
    tests is the specification: it finds both files byte for byte; the composer fails exactly when they do not fit, and never panics.
    The locale \<open>cell_array\<close> carries the reasoning on 12-bit cells.
  \<^item> \<^theory_text>\<open>Iso_Image\<close> (\<^verbatim>\<open>isoimage.go\<close>, \<open>putBoth16\<close> to \<open>pathTableBytes\<close>): the ISO 9660 image with its El Torito catalog. A firmware reader finds the
    volume and a directory reader the image file.
  \<^item> \<^theory_text>\<open>Node_Types\<close> (\<^verbatim>\<open>types.go\<close>), \<^theory_text>\<open>Nodes_Store\<close> (\<^verbatim>\<open>nodes_store.go\<close>): the node table and its reload. A bad file never replaces good data, also
    under every interleaving of concurrent reloads and file changes, given as a step relation that the sequential function refines.
  \<^item> \<^theory_text>\<open>Iso_Cache\<close> (\<^verbatim>\<open>iso_cache.go\<close>): entries live exactly for the TTL after their last use; sweeps cannot be observed.
  \<^item> \<^theory_text>\<open>Iso_Builder\<close> (\<^verbatim>\<open>iso_builder.go\<close>): the scripts and hashes of node ISOs. Jumps have labels, the hash covers the script, and an image carries its script.
  \<^item> \<^theory_text>\<open>Overlay\<close> (\<^verbatim>\<open>overlay.go\<close>): the cpio archive, read back by the reader of the tests.
  \<^item> \<^theory_text>\<open>Rewriter\<close> (\<^verbatim>\<open>rewriter.go\<close>): rewriting of plain bodies and of self-extracting archives, which still unpack and verify afterwards;
    the line wrapping writer does not depend on how its input is split.
  \<^item> \<^theory_text>\<open>Server_State\<close> and \<^theory_text>\<open>Boot_Server\<close> (\<^verbatim>\<open>main.go\<close>): the server and its configuration, the watcher, the lookup with its retry loop, kernel
    arguments, and \<open>ServeHTTP\<close> route by route, with \<open>main\<close>. Lookups and requests end, the cache changes no answer, proxied requests and replies
    are faithful, and scripts are changed only where they should be.
  \<^item> \<^theory_text>\<open>Boot_System\<close>: the events of all goroutines, each in one piece, on the server of \<open>main\<close>. The theorem below composes the parts.
  \<^item> \<^theory_text>\<open>Boot_Threads\<close>: the same goroutines as threads that interleave at every lock, file read and clock reading. The function \<open>moves\<close> is one step; the
    invariant of \<^theory_text>\<open>Boot_System\<close> holds under every interleaving, no thread gets stuck, and the functions of \<^theory_text>\<open>Boot_Server\<close> are the runs without interference.

  \<^bold>\<open>The bond hook and the tag generator.\<close>

  \<^item> \<^theory_text>\<open>Shell\<close>: the parts of the POSIX shell in use, as programs of the state monad over an arbitrary system, with a small program logic for what a script runs.
  \<^item> \<^theory_text>\<open>Bond_Hook\<close> (\<^verbatim>\<open>initramfs-bond-overlay/scripts/init-premount\<close>, \<open>bond\<close> and \<open>ORDER\<close>): both scripts. The hook reads back the kernel arguments of
    \<open>buildKernelNet\<close> and forms the bond of the node.
  \<^item> \<^theory_text>\<open>Image_Tags\<close> (\<^verbatim>\<open>tools/image_tags.py\<close>): the tags it prints and its exit status, for every document and environment.

  \<^bold>\<open>The machine API.\<close>

  \<^item> \<^theory_text>\<open>Api_Types\<close> (\<^verbatim>\<open>shared_types.go\<close>, \<^verbatim>\<open>maasmachine_types.go\<close>, \<^verbatim>\<open>groupversion_info.go\<close>): the structs as records, field by field.
  \<^item> \<^theory_text>\<open>Api_DeepCopy\<close> (\<^verbatim>\<open>zz_generated.deepcopy.go\<close>): all methods. \<^theory_text>\<open>Api_Copies\<close>: each is a deep copy, interpretation by interpretation; the copy of
    a machine is deeply equal to it and independent of it.
  \<^item> \<^theory_text>\<open>Api_Schema\<close> (the CRD file): the JSON encoding by struct tags and the schema; the two agree.

  \<^bold>\<open>Loops.\<close> No fuel is used. The line wrapping loop and the retry loop are partial functions into \<open>option\<close> and are proved to return: the first for every
  writer, the second when the clock advances by the poll interval between two polls, after at most the retry window over that interval plus two reloads.
  The waiting loops of the hook count down the seconds they have left. All other loops are structural or end by a measure.

  \<^bold>\<open>Parameters.\<close> Code outside the repository is an argument: JSON decoding and printing (\<open>codec\<close>), gzip and tar (\<open>archive\<close>), request
  validation and the upstream (\<open>deps\<close>), \<open>time.ParseDuration\<close>, the deep copies and encodings of the Kubernetes types (\<open>k8s\<close>), pattern and format checks of the API
  server (\<open>formats\<close>), the system below a shell script (\<open>system\<close>), and \<open>json.load\<close> of Python. The theorems name what they assume of them.

  \<^bold>\<open>Not modelled.\<close> Log output; \<open>http.ServeContent\<close> (ranges and conditional requests), the HTTP client and the listener, which are library code; the registration with the
  scheme builder, a call into another package; schema defaults, which the API server applies. The Helm chart and its scripts are templates that Helm renders with
  values unknown here, and the remaining shell scripts only call the MAAS, Kubernetes and Helm command lines; Dockerfiles and patches act on programs outside
  the repository. Non-ASCII case folding is left out.
\<close>

text \<open>
  C1. The running proxy: whatever the environment and the files, and in whatever order requests, reloads and sweeps
  happen, every request is answered and the server stays well formed. Every ISO image that a node request gets boots: the firmware finds the iPXE binary
  that \<open>main\<close> loaded, and iPXE a script rendered for a configuration that has the hash of the node found for the address; likewise
  for the generic image.
\<close>

theorem system_boots:
  assumes "list_all wfEvent evs"
  shows "\<exists>steps. systemRun d evs (fst (main (json d) dur getenv now configFile ipxeFile fs)) = Some steps \<and> map event steps = evs
    \<and> list_all (stepAnswered (case ipxeFile of Contents b \<Rightarrow> bytes_of b | _ \<Rightarrow> [])) steps \<and> list_all (\<lambda>st. wfServer (after st)) steps"
  using main_runInv assms by (rule systemRun_ok)

theorem system_boots_witness:
  "\<exists>steps. systemRun sampleDeps [HttpRequest sampleWorld sampleRequest, ReloadTick (NotExist, NotExist), ReapTick 5]
      (fst (main (json sampleDeps) (\<lambda>_. None) (\<lambda>_. []) 0 NotExist (Contents ''MZ'') (NotExist, NotExist))) = Some steps
    \<and> map event steps = [HttpRequest sampleWorld sampleRequest, ReloadTick (NotExist, NotExist), ReapTick 5]
    \<and> list_all (stepAnswered (case Contents ''MZ'' of Contents b \<Rightarrow> bytes_of b | _ \<Rightarrow> [])) steps \<and> list_all (\<lambda>st. wfServer (after st)) steps"
  by (rule system_boots) (simp add: wfEvent_def sampleWorld_wf)

end
